(* ===== verification/Prelude.thy ===== *)
theory Prelude
  imports Main "HOL-Library.Word"
begin

text \<open>
  Shared ground of the development: the machine types of the C code, the way a
  process talks to the kernel, and the generic lemmas the components rely on.

  pflask is a sequence of system calls with checks between them.  A process is
  modelled as a function of the kernel and of the calls made so far; it returns
  either the reason why it stopped or a value, together with the extended list
  of calls.  The kernel is a parameter: any function from the calls made so far
  and the next call to a reply.  Because the reply may depend on the whole
  history, this covers every deterministic run of a real kernel, and a theorem
  for all kernels is a theorem for all runs.
\<close>

named_theorems io_simps \<open>unfolding the run of a program\<close>
named_theorems issues_intros \<open>the calls that a program issues\<close>
named_theorems grows_intros \<open>programs that only add to the history\<close>

section \<open>Machine types\<close>

type_synonym byte = "8 word"
type_synonym u16 = "16 word"
type_synonym u32 = "32 word"
type_synonym u64 = "64 word"

text \<open>A C string is the list of its characters before the terminating NUL.\<close>

type_synonym cstring = string
type_synonym path = string

text \<open>The octal modes 0644 and 0755.\<close>

abbreviation mode_0644 :: u32 where
  "mode_0644 \<equiv> 0x1A4"

abbreviation mode_0755 :: u32 where
  "mode_0755 \<equiv> 0x1ED"

section \<open>System calls and their replies\<close>

datatype errno = EPERM | ENOENT | EINTR | EEXIST | EINVAL | Eother nat

text \<open>
  The parts of struct termios that cfmakeraw changes, and the speed, which is
  part of \<open>c_cflag\<close> on Linux; struct winsize.
\<close>

record termios =
  c_iflag :: u32
  c_oflag :: u32
  c_cflag :: u32
  c_lflag :: u32

record winsize =
  ws_row :: u16
  ws_col :: u16

text \<open>
  The calls that the modelled files make, in groups.  Optional strings are
  pointers that may be NULL.  Flags and modes are the C integers.
\<close>

text \<open>The socket pair of sync.c, by file descriptor; reads and writes of one int.\<close>

datatype sync_call = Socketpair | Fcntl_cloexec int | Read_int int | Write_int int int | Close_fd int

text \<open>Processes and their environment.\<close>

datatype proc_call =
    Prctl | Setsid | Sethostname cstring | Clearenv | Setenv cstring cstring | Putenv cstring
  | Exec cstring "cstring list" | Daemon | Kill int | Waitid int | Fork | Unshare u32 | Waitpid int
  | Print int cstring

text \<open>libcap-ng.\<close>

datatype cap_call = Capng_get | Capng_clear | Capng_update bool int | Capng_apply

text \<open>Terminals, by file descriptor.\<close>

datatype tty_call =
    Isatty int | Tcgetattr int | Tcsetattr int termios | Get_winsize int | Set_winsize int winsize
  | Openpt | Ptsname int | Unlockpt int | Dup2 int int

text \<open>Events, signals and the sockets of pty.c, with the control messages of cmsg(3).\<close>

record cmsg =
  cmsg_len :: nat
  cmsg_level :: int
  cmsg_type :: int
  cmsg_fd :: int

datatype ev_call =
    Sysconf | Sigprocmask "nat list" | Signalfd "nat list" | Epoll_create | Epoll_add int int
  | Epoll_wait | Read_fd int nat | Write_fd int "byte list" | Closefd int | Socket_unix
  | Bind_unix cstring | Listen int | Connect_unix cstring | Accept int | Getsockopt int
  | Send_ctl int "cmsg list" | Recv_ctl int

text \<open>libdbus: the calls of machine.c; appending and containers fail with 0.\<close>

datatype dbus_call =
    Bus_get_private | New_method_call cstring cstring cstring cstring | Append_string cstring
  | Append_uint32 u32 | Open_array cstring | Append_bytes "byte list" | Close_array | Send_with_reply
  | Connection_close

datatype (plugins only: code size) call =
    Mount "cstring option" path "cstring option" u64 "cstring option"
  | Mkdir path u32
  | Rmdir path
  | Mkdtemp path
  | Stat path
  | Open path u32 u32
  | Fopen path
  | Fprintf cstring
  | Fclose
  | Write cstring
  | Close
  | Access path
  | Symlink cstring path
  | Chmod path u32
  | Chown path u32 u32
  | Umask u32
  | Chdir path
  | Chroot path
  | Geteuid
  | Getegid
  | Getpid
  | Getenv cstring
  | Getpwnam cstring
  | Setresgid u32 u32 u32
  | Setresuid u32 u32 u32
  | Setgroups nat
  | System cstring
  | Clone u32
  | IfNametoindex cstring
  | Socket
  | Bind
  | Sendmsg "byte list"
  | Recvmsg nat
  | Sync sync_call
  | Proc proc_call
  | Cap cap_call
  | Tty tty_call
  | Ev ev_call
  | Dbus dbus_call

record reply =
  rc :: int
  errno :: errno
  sdata :: "cstring option"
  st_dir :: bool
  st_uid :: u32
  st_gid :: u32
  data :: "byte list"
  num :: int
  tio :: termios
  ws :: winsize
  cmsgs :: "cmsg list"
  fd_pair :: "int \<times> int"

definition ok :: reply where
  "ok = \<lparr>rc = 0, errno = Eother 0, sdata = None, st_dir = False, st_uid = 0, st_gid = 0,
         data = [], num = 0,
         tio = \<lparr>c_iflag = 0, c_oflag = 0, c_cflag = 0, c_lflag = 0\<rparr>,
         ws = \<lparr>ws_row = 0, ws_col = 0\<rparr>, cmsgs = [], fd_pair = (3, 4)\<rparr>"

definition failed :: "errno \<Rightarrow> reply" where
  "failed e = ok\<lparr>rc := -1, errno := e\<rparr>"

lemma ok_simps [simp]:
  "rc ok = 0" "sdata ok = None" "st_dir ok = False" "st_uid ok = 0" "st_gid ok = 0" "data ok = []"
  "num ok = 0" "cmsgs ok = []" "fd_pair ok = (3, 4)"
  by (simp_all add: ok_def)

lemma failed_simps [simp]:
  "rc (failed e) = -1" "errno (failed e) = e" "sdata (failed e) = None"
  by (simp_all add: failed_def)

type_synonym kernel = "call list \<Rightarrow> call \<Rightarrow> reply"

section \<open>Programs\<close>

text \<open>
  A process stops through fail_printf (a check of its own failed), through
  sysf_printf (a system call failed), or because it did something undefined in
  C (dereferencing NULL, writing outside a buffer).  The first two print a
  message and call \<open>_exit(EXIT_FAILURE)\<close>.  \<open>Exit\<close> is a call of exit.
\<close>

datatype failure = Fail cstring | Sysf cstring | Crash cstring | Exit int

type_synonym 'a io = "kernel \<Rightarrow> call list \<Rightarrow> (failure + 'a) \<times> call list"

definition io_ret :: "'a \<Rightarrow> 'a io" where
  "io_ret a k h = (Inr a, h)"

definition io_stop :: "failure \<Rightarrow> 'a io" where
  "io_stop e k h = (Inl e, h)"

definition io_bind :: "'a io \<Rightarrow> ('a \<Rightarrow> 'b io) \<Rightarrow> 'b io" where
  "io_bind m f k h =
     (case m k h of (Inl e, h') \<Rightarrow> (Inl e, h') | (Inr a, h') \<Rightarrow> f a k h')"

definition io_seq :: "'a io \<Rightarrow> 'b io \<Rightarrow> 'b io" where
  "io_seq m n = io_bind m (\<lambda>_. n)"

definition sys :: "call \<Rightarrow> reply io" where
  "sys c k h = (Inr (k h c), h @ [c])"

text \<open>A pure computation that may fail, run inside a program.\<close>

definition io_lift :: "failure + 'a \<Rightarrow> 'a io" where
  "io_lift r k h = (r, h)"

fun io_fold :: "('s \<Rightarrow> 'a \<Rightarrow> 's io) \<Rightarrow> 's \<Rightarrow> 'a list \<Rightarrow> 's io" where
  "io_fold f s [] = io_ret s"
| "io_fold f s (x # xs) = io_bind (f s x) (\<lambda>s'. io_fold f s' xs)"

fun io_iter :: "('a \<Rightarrow> unit io) \<Rightarrow> 'a list \<Rightarrow> unit io" where
  "io_iter f [] = io_ret ()"
| "io_iter f (x # xs) = io_seq (f x) (io_iter f xs)"

text \<open>The macros fail_if and sys_fail_if of util.h.\<close>

definition fail_if :: "bool \<Rightarrow> cstring \<Rightarrow> unit io" where
  "fail_if b msg = (if b then io_stop (Fail msg) else io_ret ())"

definition sys_fail_if :: "bool \<Rightarrow> cstring \<Rightarrow> unit io" where
  "sys_fail_if b msg = (if b then io_stop (Sysf msg) else io_ret ())"

text \<open>A system call whose negative return value ends the process.\<close>

definition checked :: "call \<Rightarrow> cstring \<Rightarrow> unit io" where
  "checked c msg = io_bind (sys c) (\<lambda>r. sys_fail_if (rc r < 0) msg)"

text \<open>What a run from a given history returns, and the calls that it adds.\<close>

definition outcome :: "'a io \<Rightarrow> kernel \<Rightarrow> failure + 'a" where
  "outcome m k = fst (m k [])"

definition trace :: "'a io \<Rightarrow> kernel \<Rightarrow> call list" where
  "trace m k = snd (m k [])"

lemmas io_defs [io_simps] =
  io_ret_def io_stop_def io_bind_def io_seq_def sys_def io_lift_def
  fail_if_def sys_fail_if_def checked_def outcome_def trace_def

lemma io_bind_assoc: "io_bind (io_bind m f) g = io_bind m (\<lambda>a. io_bind (f a) g)"
  by (intro ext) (simp add: io_bind_def split: prod.splits sum.splits)

lemma io_bind_ret [simp]: "io_bind (io_ret a) f = f a"
  by (intro ext) (simp add: io_bind_def io_ret_def)

lemma io_bind_stop [simp]: "io_bind (io_stop e) f = io_stop e"
  by (intro ext) (simp add: io_bind_def io_stop_def)

lemma io_seq_ret [simp]: "io_seq (io_ret a) n = n"
  by (simp add: io_seq_def)

lemma io_seq_stop [simp]: "io_seq (io_stop e) n = io_stop e"
  by (simp add: io_seq_def)

lemma io_bind_Inr_iff:
  "io_bind m f k h = (Inr b, h') \<longleftrightarrow>
     (\<exists>a h1. m k h = (Inr a, h1) \<and> f a k h1 = (Inr b, h'))"
  by (auto simp: io_bind_def split: prod.splits sum.splits)

lemma io_seq_Inr_iff:
  "io_seq m n k h = (Inr b, h') \<longleftrightarrow>
     (\<exists>a h1. m k h = (Inr a, h1) \<and> n k h1 = (Inr b, h'))"
  by (simp add: io_seq_def io_bind_Inr_iff)

lemma fail_if_Inr_iff: "fail_if b msg k h = (Inr u, h') \<longleftrightarrow> \<not> b \<and> h' = h"
  by (auto simp: fail_if_def io_stop_def io_ret_def)

lemma sys_fail_if_Inr_iff: "sys_fail_if b msg k h = (Inr u, h') \<longleftrightarrow> \<not> b \<and> h' = h"
  by (auto simp: sys_fail_if_def io_stop_def io_ret_def)

lemma checked_Inr_iff:
  "checked c msg k h = (Inr u, h') \<longleftrightarrow> 0 \<le> rc (k h c) \<and> h' = h @ [c]"
  by (auto simp: checked_def io_bind_Inr_iff sys_def sys_fail_if_Inr_iff)

lemma sys_Inr_iff: "sys c k h = (Inr r, h') \<longleftrightarrow> r = k h c \<and> h' = h @ [c]"
  by (auto simp: sys_def)

lemma io_ret_Inr_iff: "io_ret a k h = (Inr b, h') \<longleftrightarrow> b = a \<and> h' = h"
  by (auto simp: io_ret_def)

lemma io_stop_Inr_iff: "io_stop e k h = (Inr b, h') \<longleftrightarrow> False"
  by (auto simp: io_stop_def)

lemmas io_Inr_iffs =
  io_bind_Inr_iff io_seq_Inr_iff fail_if_Inr_iff sys_fail_if_Inr_iff
  checked_Inr_iff sys_Inr_iff io_ret_Inr_iff io_stop_Inr_iff

lemma io_lift_Inr_iff: "io_lift r k h = (Inr a, h') \<longleftrightarrow> r = Inr a \<and> h' = h"
  by (auto simp: io_lift_def)

text \<open>The same for runs that stop.\<close>

lemma io_bind_Inl_iff:
  "io_bind m f k h = (Inl e, h') \<longleftrightarrow>
     m k h = (Inl e, h') \<or> (\<exists>a h1. m k h = (Inr a, h1) \<and> f a k h1 = (Inl e, h'))"
  by (auto simp: io_bind_def split: prod.splits sum.splits)

lemma io_seq_Inl_iff:
  "io_seq m n k h = (Inl e, h') \<longleftrightarrow>
     m k h = (Inl e, h') \<or> (\<exists>a h1. m k h = (Inr a, h1) \<and> n k h1 = (Inl e, h'))"
  by (simp add: io_seq_def io_bind_Inl_iff)

lemma fail_if_Inl_iff: "fail_if b msg k h = (Inl e, h') \<longleftrightarrow> b \<and> e = Fail msg \<and> h' = h"
  by (auto simp: fail_if_def io_stop_def io_ret_def)

lemma sys_fail_if_Inl_iff: "sys_fail_if b msg k h = (Inl e, h') \<longleftrightarrow> b \<and> e = Sysf msg \<and> h' = h"
  by (auto simp: sys_fail_if_def io_stop_def io_ret_def)

lemma sys_Inl_iff: "sys c k h = (Inl e, h') \<longleftrightarrow> False"
  by (simp add: sys_def)

lemma io_ret_Inl_iff: "io_ret a k h = (Inl e, h') \<longleftrightarrow> False"
  by (simp add: io_ret_def)

lemma io_stop_Inl_iff: "io_stop e' k h = (Inl e, h') \<longleftrightarrow> e = e' \<and> h' = h"
  by (auto simp: io_stop_def)

lemma checked_Inl_iff:
  "checked c msg k h = (Inl e, h') \<longleftrightarrow> rc (k h c) < 0 \<and> e = Sysf msg \<and> h' = h @ [c]"
  by (auto simp: checked_def io_bind_Inl_iff sys_Inl_iff sys_Inr_iff sys_fail_if_Inl_iff)

lemmas io_Inl_iffs =
  io_bind_Inl_iff io_seq_Inl_iff fail_if_Inl_iff sys_fail_if_Inl_iff sys_Inl_iff
  io_ret_Inl_iff io_stop_Inl_iff checked_Inl_iff

text \<open>A field that every round of a loop changes in the same, idempotent way.\<close>

lemma io_fold_field:
  assumes step: "\<And>s x k h s' h'. f s x k h = (Inr s', h') \<Longrightarrow> g s' = u (g s)"
    and idem: "\<And>y. u (u y) = u y"
  shows "io_fold f s xs k h = (Inr s', h') \<Longrightarrow> g s' = (if xs = [] then g s else u (g s))"
proof (induction xs arbitrary: s h)
  case Nil
  then show ?case by (simp add: io_ret_Inr_iff)
next
  case (Cons x xs)
  then obtain s1 h1 where s1: "f s x k h = (Inr s1, h1)" "io_fold f s1 xs k h1 = (Inr s', h')"
    by (auto simp: io_bind_Inr_iff)
  with Cons.IH [OF s1(2)] step [OF s1(1)] idem show ?case by auto
qed

section \<open>The history grows\<close>

text \<open>A program never takes back a call, whether it returns or stops.\<close>

definition grows :: "'a io \<Rightarrow> bool" where
  "grows m \<longleftrightarrow> (\<forall>k h. \<exists>cs. snd (m k h) = h @ cs)"

lemma growsE: "grows m \<Longrightarrow> m k h = (r, h') \<Longrightarrow> \<exists>cs. h' = h @ cs"
  unfolding grows_def by (metis snd_conv)

lemma grows_ret [grows_intros]: "grows (io_ret a)"
  by (simp add: grows_def io_ret_def)

lemma grows_stop [grows_intros]: "grows (io_stop e)"
  by (simp add: grows_def io_stop_def)

lemma grows_lift [grows_intros]: "grows (io_lift r)"
  by (simp add: grows_def io_lift_def)

lemma grows_sys [grows_intros]: "grows (sys c)"
  by (simp add: grows_def sys_def)

lemma grows_fail_if [grows_intros]: "grows (fail_if b msg)"
  by (simp add: fail_if_def grows_ret grows_stop)

lemma grows_sys_fail_if [grows_intros]: "grows (sys_fail_if b msg)"
  by (simp add: sys_fail_if_def grows_ret grows_stop)

lemma grows_bind [grows_intros]:
  assumes m: "grows m" and f: "\<And>a. grows (f a)"
  shows "grows (io_bind m f)"
  unfolding grows_def
proof (intro allI)
  fix k h
  obtain r h1 where r: "m k h = (r, h1)" by fastforce
  from growsE [OF m r] obtain cs where cs: "h1 = h @ cs" by blast
  show "\<exists>cs. snd (io_bind m f k h) = h @ cs"
  proof (cases r)
    case (Inr a)
    obtain r2 h2 where r2: "f a k h1 = (r2, h2)" by fastforce
    from growsE [OF f r2] Inr r r2 cs show ?thesis by (auto simp: io_bind_def)
  qed (use r cs in \<open>simp add: io_bind_def\<close>)
qed

lemma grows_seq [grows_intros]: "grows m \<Longrightarrow> grows n \<Longrightarrow> grows (io_seq m n)"
  by (simp add: io_seq_def grows_bind)

lemma grows_checked [grows_intros]: "grows (checked c msg)"
  by (simp add: checked_def grows_bind grows_sys grows_sys_fail_if)

lemma grows_iter [grows_intros]: "(\<And>x. grows (f x)) \<Longrightarrow> grows (io_iter f xs)"
  by (induction xs) (simp_all add: grows_ret grows_seq)

text \<open>A checked call that fails ends the program, whatever would follow.\<close>

lemma checked_first:
  assumes "grows n"
  shows "\<exists>cs. snd (io_seq (checked c msg) n k h) = h @ c # cs \<and>
    (rc (k h c) < 0 \<longrightarrow> io_seq (checked c msg) n k h = (Inl (Sysf msg), h @ [c]))"
proof (cases "rc (k h c) < 0")
  case True
  then show ?thesis by (simp add: io_simps)
next
  case False
  then have "io_seq (checked c msg) n k h = n k (h @ [c])" by (simp add: io_simps)
  moreover obtain cs where "snd (n k (h @ [c])) = (h @ [c]) @ cs"
    using assms unfolding grows_def by blast
  ultimately show ?thesis using False by simp
qed

section \<open>Laws of histories\<close>

text \<open>
  A property \<open>R k h cs\<close> of the calls \<open>cs\<close> that are added to a history \<open>h\<close>, for a
  kernel \<open>k\<close>.  If it holds of no calls and is closed under adding more, a
  program keeps it when its parts do.
\<close>

definition keeps :: "(kernel \<Rightarrow> call list \<Rightarrow> call list \<Rightarrow> bool) \<Rightarrow> 'a io \<Rightarrow> bool" where
  "keeps R m \<longleftrightarrow> (\<forall>k h. \<exists>cs. snd (m k h) = h @ cs \<and> R k h cs)"

lemma keepsE:
  assumes "keeps R m" and "m k h = (r, h')"
  obtains cs where "h' = h @ cs" "R k h cs"
  using assms unfolding keeps_def by (metis snd_conv)

locale trace_law =
  fixes R :: "kernel \<Rightarrow> call list \<Rightarrow> call list \<Rightarrow> bool"
  assumes law_nil: "R k h []"
    and law_append: "R k h cs \<Longrightarrow> R k (h @ cs) ds \<Longrightarrow> R k h (cs @ ds)"
begin

lemma keeps_ret: "keeps R (io_ret a)"
  by (simp add: keeps_def io_ret_def law_nil)

lemma keeps_stop: "keeps R (io_stop e)"
  by (simp add: keeps_def io_stop_def law_nil)

lemma keeps_sys: "(\<And>k h. R k h [c]) \<Longrightarrow> keeps R (sys c)"
  by (simp add: keeps_def sys_def)

lemma keeps_fail_if: "keeps R (fail_if b msg)"
  by (simp add: fail_if_def keeps_ret keeps_stop)

lemma keeps_sys_fail_if: "keeps R (sys_fail_if b msg)"
  by (simp add: sys_fail_if_def keeps_ret keeps_stop)

lemma keeps_bind:
  assumes m: "keeps R m" and f: "\<And>a. keeps R (f a)"
  shows "keeps R (io_bind m f)"
  unfolding keeps_def
proof (intro allI)
  fix k h
  obtain r h1 where r: "m k h = (r, h1)" by fastforce
  from keepsE [OF m r] obtain cs where cs: "h1 = h @ cs" "R k h cs" .
  show "\<exists>cs. snd (io_bind m f k h) = h @ cs \<and> R k h cs"
  proof (cases r)
    case (Inl e)
    with r cs show ?thesis by (simp add: io_bind_def)
  next
    case (Inr a)
    obtain r2 h2 where r2: "f a k h1 = (r2, h2)" by fastforce
    from keepsE [OF f r2] obtain ds where ds: "h2 = h1 @ ds" "R k h1 ds" .
    have "snd (io_bind m f k h) = h @ (cs @ ds)" using Inr r r2 cs ds by (simp add: io_bind_def)
    moreover have "R k h (cs @ ds)" using law_append cs(2) ds(2) cs(1) by simp
    ultimately show ?thesis by blast
  qed
qed

lemma keeps_seq: "keeps R m \<Longrightarrow> keeps R n \<Longrightarrow> keeps R (io_seq m n)"
  by (simp add: io_seq_def keeps_bind)

lemma keeps_checked: "(\<And>k h. R k h [c]) \<Longrightarrow> keeps R (checked c msg)"
  by (simp add: checked_def keeps_bind keeps_sys keeps_sys_fail_if)

lemmas keeps_intros =
  keeps_ret keeps_stop keeps_fail_if keeps_sys_fail_if keeps_bind keeps_seq keeps_sys keeps_checked

end

text \<open>A law for every set of calls: the program makes none of them.\<close>

definition avoids :: "(call \<Rightarrow> bool) \<Rightarrow> kernel \<Rightarrow> call list \<Rightarrow> call list \<Rightarrow> bool" where
  "avoids P k h cs \<longleftrightarrow> filter P cs = []"

interpretation avoid: trace_law "avoids P" for P
  by unfold_locales (simp_all add: avoids_def)

lemma avoids_one: "\<not> P c \<Longrightarrow> avoids P k h [c]"
  by (simp add: avoids_def)

lemma keeps_avoids_filter:
  assumes "keeps (avoids P) m" and "m k h = (r, h')"
  shows "filter P h' = filter P h"
  by (rule keepsE [OF assms]) (simp add: avoids_def)

lemma keeps_avoids_iter: "(\<And>x. keeps (avoids P) (f x)) \<Longrightarrow> keeps (avoids P) (io_iter f xs)"
  by (induction xs) (auto intro!: avoid.keeps_intros)

section \<open>State kept behind the calls\<close>

text \<open>
  A state outside the program (a library's, the kernel's) that every call changes
  according to its reply: the state after the calls \<open>cs\<close>, made after the history \<open>h\<close>.
\<close>

fun replay :: "(call \<Rightarrow> reply \<Rightarrow> 's \<Rightarrow> 's) \<Rightarrow> kernel \<Rightarrow> call list \<Rightarrow> call list \<Rightarrow> 's \<Rightarrow> 's" where
  "replay f k h [] s = s"
| "replay f k h (c # cs) s = replay f k (h @ [c]) cs (f c (k h c) s)"

lemma replay_append:
  "replay f k h (cs @ ds) s = replay f k (h @ cs) ds (replay f k h cs s)"
  by (induction cs arbitrary: h s) simp_all

section \<open>Programs that issue a fixed sequence of calls\<close>

text \<open>
  \<open>issues m cs\<close>: whatever the kernel answers, the calls of \<open>m\<close> are a prefix of
  \<open>cs\<close>, and they are all of \<open>cs\<close> when \<open>m\<close> returns.  So \<open>m\<close> stops at the first
  failure and never makes a call out of order.
\<close>

definition issues :: "'a io \<Rightarrow> call list \<Rightarrow> bool" where
  "issues m cs \<longleftrightarrow> (\<forall>k h. \<exists>n \<le> length cs.
      snd (m k h) = h @ take n cs \<and> (\<forall>a. fst (m k h) = Inr a \<longrightarrow> n = length cs))"

lemma issuesI:
  assumes "\<And>k h. \<exists>n \<le> length cs.
      snd (m k h) = h @ take n cs \<and> (\<forall>a. fst (m k h) = Inr a \<longrightarrow> n = length cs)"
  shows "issues m cs"
  using assms by (simp add: issues_def)

lemma issuesE:
  assumes "issues m cs"
  obtains n where "n \<le> length cs" "snd (m k h) = h @ take n cs"
    "\<And>a. fst (m k h) = Inr a \<Longrightarrow> n = length cs"
  using assms unfolding issues_def by blast

lemma issues_Inr: "issues m cs \<Longrightarrow> m k h = (Inr a, h') \<Longrightarrow> h' = h @ cs"
  by (elim issuesE [of m cs k h]) auto

lemma issues_ret [issues_intros]: "issues (io_ret a) []"
  by (simp add: issues_def io_ret_def)

lemma issues_stop [issues_intros]: "issues (io_stop e) cs"
  by (auto simp: issues_def io_stop_def)

lemma issues_fail_if [issues_intros]: "issues (fail_if b msg) []"
  by (simp add: fail_if_def issues_ret issues_stop)

lemma issues_sys_fail_if [issues_intros]: "issues (sys_fail_if b msg) []"
  by (simp add: sys_fail_if_def issues_ret issues_stop)

lemma issues_sys [issues_intros]: "issues (sys c) [c]"
  by (rule issuesI) (auto simp: sys_def intro: exI [of _ 1])

lemma issues_bind [issues_intros]:
  assumes m: "issues m cs" and f: "\<And>a. issues (f a) ds"
  shows "issues (io_bind m f) (cs @ ds)"
proof (rule issuesI)
  fix k h
  obtain n where n: "n \<le> length cs" "snd (m k h) = h @ take n cs"
    "\<And>a. fst (m k h) = Inr a \<Longrightarrow> n = length cs"
    using m by (rule issuesE [of m cs k h]) blast
  show "\<exists>n\<le>length (cs @ ds). snd (io_bind m f k h) = h @ take n (cs @ ds) \<and>
      (\<forall>a. fst (io_bind m f k h) = Inr a \<longrightarrow> n = length (cs @ ds))"
  proof (cases "fst (m k h)")
    case (Inl e)
    with n show ?thesis
      by (intro exI [of _ n]) (auto simp: io_bind_def split: prod.splits)
  next
    case (Inr a)
    with n have h1: "m k h = (Inr a, h @ cs)" by (cases "m k h") auto
    obtain p where p: "p \<le> length ds" "snd (f a k (h @ cs)) = (h @ cs) @ take p ds"
      "\<And>b. fst (f a k (h @ cs)) = Inr b \<Longrightarrow> p = length ds"
      using f by (rule issuesE [of "f a" ds k "h @ cs"]) blast
    with h1 show ?thesis
      by (intro exI [of _ "length cs + p"]) (auto simp: io_bind_def)
  qed
qed

lemma issues_seq [issues_intros]:
  "issues m cs \<Longrightarrow> issues n ds \<Longrightarrow> issues (io_seq m n) (cs @ ds)"
  by (simp add: io_seq_def issues_bind)

lemma issues_checked [issues_intros]: "issues (checked c msg) [c]"
  unfolding checked_def
  by (rule issues_bind [where cs = "[c]" and ds = "[]", simplified])
     (rule issues_sys issues_sys_fail_if)+

text \<open>
  The contract shared by the loops of the program that perform one step for
  each element of a list: if each step issues a known sequence, so does the
  loop, in the order of the list.
\<close>

locale each_step =
  fixes step :: "'a \<Rightarrow> unit io" and calls :: "'a \<Rightarrow> call list"
  assumes step_issues: "issues (step x) (calls x)"
begin

lemma iter_issues: "issues (io_iter step xs) (concat (map calls xs))"
  by (induction xs) (auto intro: issues_ret issues_seq step_issues)

lemma iter_trace:
  "outcome (io_iter step xs) k = Inr u \<Longrightarrow>
     trace (io_iter step xs) k = concat (map calls xs)"
  using issues_Inr [OF iter_issues, of xs k "[]"]
  by (cases "io_iter step xs k []") (auto simp: outcome_def trace_def)

end

text \<open>
  The same for steps whose calls depend on the replies: \<open>adds x cs\<close> says which
  sequences a step for \<open>x\<close> may add when it returns.
\<close>

locale each_adds =
  fixes step :: "'a \<Rightarrow> unit io" and adds :: "'a \<Rightarrow> call list \<Rightarrow> bool"
  assumes step_adds: "step x k h = (Inr u, h') \<Longrightarrow> \<exists>cs. adds x cs \<and> h' = h @ cs"
begin

lemma iter_adds:
  "io_iter step xs k h = (Inr u, h') \<Longrightarrow> \<exists>css. list_all2 adds xs css \<and> h' = h @ concat css"
proof (induction xs arbitrary: h)
  case Nil
  then show ?case by (simp add: io_ret_Inr_iff)
next
  case (Cons x xs)
  then obtain v h1 where v: "step x k h = (Inr v, h1)" "io_iter step xs k h1 = (Inr u, h')"
    by (auto simp: io_seq_Inr_iff)
  obtain cs where cs: "adds x cs" "h1 = h @ cs" using step_adds [OF v(1)] by blast
  obtain css where "list_all2 adds xs css" "h' = h1 @ concat css" using Cons.IH [OF v(2)] by blast
  with cs show ?case by (intro exI [of _ "cs # css"]) simp
qed

end

sublocale each_step \<subseteq> each_adds step "\<lambda>x cs. cs = calls x"
  by unfold_locales (use issues_Inr [OF step_issues] in blast)

section \<open>Stores that grow at the end\<close>

text \<open>
  The option handlers of pflask all add an element at the end of a list
  (\<open>DL_APPEND\<close>), and a netlink message grows by one attribute at its tail.  The
  contract: \<open>view\<close> reads the elements in order, \<open>add\<close> adds one at the end or
  fails.
\<close>

fun add_all :: "('s \<Rightarrow> 'e \<Rightarrow> 's option) \<Rightarrow> 's \<Rightarrow> 'e list \<Rightarrow> 's option" where
  "add_all add s [] = Some s"
| "add_all add s (x # xs) = Option.bind (add s x) (\<lambda>s'. add_all add s' xs)"

locale snoc_store =
  fixes inv :: "'s \<Rightarrow> bool" and view :: "'s \<Rightarrow> 'e list"
    and add :: "'s \<Rightarrow> 'e \<Rightarrow> 's option"
  assumes inv_add: "inv s \<Longrightarrow> add s x = Some s' \<Longrightarrow> inv s'"
    and view_add: "inv s \<Longrightarrow> add s x = Some s' \<Longrightarrow> view s' = view s @ [x]"
begin

lemma add_all_view:
  "inv s \<Longrightarrow> add_all add s xs = Some s' \<Longrightarrow> inv s' \<and> view s' = view s @ xs"
proof (induction xs arbitrary: s)
  case (Cons x xs)
  then obtain s1 where s1: "add s x = Some s1" "add_all add s1 xs = Some s'"
    by (auto simp: bind_eq_Some_conv)
  with Cons.prems have "inv s1" "view s1 = view s @ [x]"
    using inv_add view_add by blast+
  with Cons.IH s1 show ?case by simp
qed simp

end

text \<open>A store in which there is always room.\<close>

locale total_snoc_store = snoc_store +
  assumes add_total: "inv s \<Longrightarrow> add s x \<noteq> None"
begin

lemma add_all_total: "inv s \<Longrightarrow> \<exists>s'. add_all add s xs = Some s'"
proof (induction xs arbitrary: s)
  case (Cons x xs)
  obtain s1 where s1: "add s x = Some s1" using add_total [OF Cons.prems] by blast
  with Cons show ?case using inv_add [OF Cons.prems s1] by auto
qed simp

lemma add_all_correct:
  "inv s \<Longrightarrow> \<exists>s'. add_all add s xs = Some s' \<and> inv s' \<and> view s' = view s @ xs"
  using add_all_total add_all_view by blast

end

end
