(* ===== verification/Utlist.thy ===== *)
theory Utlist
  imports Prelude
begin

text \<open>
  The doubly linked lists of deps/ut/utlist.h, on which every option list of
  pflask is built: \<open>DL_APPEND\<close>, \<open>DL_CONCAT\<close> and \<open>DL_FOREACH\<close> over an explicit
  heap of \<open>next\<close> and \<open>prev\<close> pointers.  The head's \<open>prev\<close> is the last node, the
  last node's \<open>next\<close> is NULL.  The abstraction \<open>dl\<close> relates a heap and a head
  pointer to the list of node addresses; the lemmas show that the macros
  implement append, concatenation and in-order traversal, which is why the
  other theories use HOL lists for these lists.
\<close>

section \<open>The heap and the macros\<close>

type_synonym addr = nat
type_synonym ptr = "addr option"

record nodes =
  nxt :: "addr \<Rightarrow> ptr"
  prv :: "addr \<Rightarrow> ptr"

definition set_nxt :: "addr \<Rightarrow> ptr \<Rightarrow> nodes \<Rightarrow> nodes" where
  "set_nxt a p H = H\<lparr>nxt := (nxt H)(a := p)\<rparr>"

definition set_prv :: "addr \<Rightarrow> ptr \<Rightarrow> nodes \<Rightarrow> nodes" where
  "set_prv a p H = H\<lparr>prv := (prv H)(a := p)\<rparr>"

lemma set_simps [simp]:
  "nxt (set_nxt a p H) = (nxt H)(a := p)" "prv (set_nxt a p H) = prv H"
  "prv (set_prv a p H) = (prv H)(a := p)" "nxt (set_prv a p H) = nxt H"
  by (simp_all add: set_nxt_def set_prv_def)

text \<open>Each macro returns the heap and the new head; None is a NULL dereference.\<close>

definition dl_append :: "nodes \<Rightarrow> ptr \<Rightarrow> addr \<Rightarrow> (nodes \<times> ptr) option" where
  "dl_append H head a =
     (case head of
        Some h \<Rightarrow>
          (let H1 = set_prv a (prv H h) H
           in case prv H1 h of
                None \<Rightarrow> None
              | Some l \<Rightarrow>
                  (let H2 = set_nxt l (Some a) H1;
                       H3 = set_prv h (Some a) H2;
                       H4 = set_nxt a None H3
                   in Some (H4, Some h)))
      | None \<Rightarrow> Some (set_nxt a None (set_prv a (Some a) H), Some a))"

definition dl_concat :: "nodes \<Rightarrow> ptr \<Rightarrow> ptr \<Rightarrow> (nodes \<times> ptr) option" where
  "dl_concat H head1 head2 =
     (case head2 of
        None \<Rightarrow> Some (H, head1)
      | Some h2 \<Rightarrow>
          (case head1 of
             None \<Rightarrow> Some (H, head2)
           | Some h1 \<Rightarrow>
               (let tmp = prv H h2;
                    H1 = set_prv h2 (prv H h1) H
                in case prv H1 h1 of
                     None \<Rightarrow> None
                   | Some l1 \<Rightarrow>
                       (let H2 = set_nxt l1 (Some h2) H1;
                            H3 = set_prv h1 tmp H2
                        in Some (H3, head1)))))"

text \<open>The nodes that a \<open>DL_FOREACH\<close> loop visits, if it ends.\<close>

partial_function (option) dl_foreach :: "nodes \<Rightarrow> ptr \<Rightarrow> addr list option" where
  "dl_foreach H p =
     (case p of
        None \<Rightarrow> Some []
      | Some a \<Rightarrow> Option.bind (dl_foreach H (nxt H a)) (\<lambda>as. Some (a # as)))"

section \<open>The abstraction\<close>

text \<open>Consecutive nodes point at each other.\<close>

fun links :: "nodes \<Rightarrow> addr list \<Rightarrow> bool" where
  "links H (a # b # as) = (nxt H a = Some b \<and> prv H b = Some a \<and> links H (b # as))"
| "links H _ = True"

definition dl :: "nodes \<Rightarrow> ptr \<Rightarrow> addr list \<Rightarrow> bool" where
  "dl H head as \<longleftrightarrow>
     (case head of
        None \<Rightarrow> as = []
      | Some h \<Rightarrow> as \<noteq> [] \<and> hd as = h \<and> distinct as \<and> links H as
                  \<and> prv H h = Some (last as) \<and> nxt H (last as) = None)"

lemma dl_None [simp]: "dl H None as \<longleftrightarrow> as = []"
  by (simp add: dl_def)

lemma dl_Some:
  "dl H (Some h) as \<longleftrightarrow>
     as \<noteq> [] \<and> hd as = h \<and> distinct as \<and> links H as
     \<and> prv H h = Some (last as) \<and> nxt H (last as) = None"
  by (simp add: dl_def)

lemma dl_distinct: "dl H head as \<Longrightarrow> distinct as"
  by (cases head) (auto simp: dl_Some)

text \<open>Only the inner pointers matter to \<open>links\<close>.\<close>

lemma links_frame:
  assumes "links H as"
    and "\<And>a. a \<in> set (butlast as) \<Longrightarrow> nxt H' a = nxt H a"
    and "\<And>a. a \<in> set (tl as) \<Longrightarrow> prv H' a = prv H a"
  shows "links H' as"
  using assms
proof (induction H as rule: links.induct)
  case (1 H a b as)
  have "links H' (b # as)"
    using 1 by (intro "1.IH") (cases as; auto)+
  with 1 show ?case by simp
qed simp_all

lemma links_append:
  "links H (as @ bs) \<longleftrightarrow> links H as \<and> links H bs \<and>
     (as \<noteq> [] \<and> bs \<noteq> [] \<longrightarrow> nxt H (last as) = Some (hd bs) \<and> prv H (hd bs) = Some (last as))"
proof (induction as rule: induct_list012)
  case (2 a)
  then show ?case by (cases bs) auto
qed auto

lemma distinct_not_last: "distinct as \<Longrightarrow> a \<in> set (butlast as) \<Longrightarrow> a \<noteq> last as"
  by (induction as rule: induct_list012) auto

lemma distinct_not_hd: "distinct as \<Longrightarrow> a \<in> set (tl as) \<Longrightarrow> a \<noteq> hd as"
  by (cases as) auto

section \<open>The macros implement the list operations\<close>

lemma dl_foreach_links:
  "links H as \<Longrightarrow> as \<noteq> [] \<Longrightarrow> nxt H (last as) = None \<Longrightarrow> dl_foreach H (Some (hd as)) = Some as"
proof (induction H as rule: links.induct)
  case (1 H a b as)
  then show ?case by (simp add: dl_foreach.simps [of H "Some a"])
qed (simp_all add: dl_foreach.simps)

lemma dl_foreach_dl: "dl H head as \<Longrightarrow> dl_foreach H head = Some as"
  by (cases head) (auto simp: dl_Some dl_foreach.simps [of H None] intro: dl_foreach_links)

lemma dl_append_dl:
  assumes "dl H head as" and "a \<notin> set as"
  shows "\<exists>H' head'. dl_append H head a = Some (H', head') \<and> dl H' head' (as @ [a])"
proof (cases head)
  case None
  with assms show ?thesis by (auto simp: dl_append_def dl_Some)
next
  case (Some h)
  with assms have d: "as \<noteq> []" "hd as = h" "distinct as" "links H as"
    "prv H h = Some (last as)" by (auto simp: dl_Some)
  then have ne: "a \<noteq> h" "a \<noteq> last as" using assms(2) by auto
  define H' where "H' = set_nxt a None (set_prv h (Some a)
    (set_nxt (last as) (Some a) (set_prv a (prv H h) H)))"
  have "dl_append H head a = Some (H', Some h)"
    using Some d ne by (simp add: dl_append_def H'_def Let_def)
  moreover have "links H' as"
    using \<open>links H as\<close>
  proof (rule links_frame)
    fix b assume b: "b \<in> set (butlast as)"
    then have "b \<noteq> last as" "b \<noteq> a"
      using d assms(2) distinct_not_last in_set_butlastD by fast+
    then show "nxt H' b = nxt H b" by (simp add: H'_def)
  next
    fix b assume b: "b \<in> set (tl as)"
    then have "b \<noteq> h" "b \<noteq> a"
      using d assms(2) distinct_not_hd list.set_sel(2) by fast+
    then show "prv H' b = prv H b" by (simp add: H'_def)
  qed
  ultimately show ?thesis
    using d ne assms(2) by (auto simp: dl_Some links_append H'_def)
qed

lemma dl_concat_dl:
  assumes "dl H h1 as" and "dl H h2 bs" and dis: "set as \<inter> set bs = {}"
  shows "\<exists>H' h. dl_concat H h1 h2 = Some (H', h) \<and> dl H' h (as @ bs)"
proof (cases h2)
  case None
  with assms show ?thesis by (auto simp: dl_concat_def)
next
  case (Some q)
  show ?thesis
  proof (cases h1)
    case None
    with assms Some show ?thesis by (auto simp: dl_concat_def)
  next
    case h1: (Some p)
    have a: "as \<noteq> []" "hd as = p" "distinct as" "links H as" "prv H p = Some (last as)"
      using assms(1) h1 by (auto simp: dl_Some)
    have b: "bs \<noteq> []" "hd bs = q" "distinct bs" "links H bs" "prv H q = Some (last bs)"
      "nxt H (last bs) = None"
      using assms(2) Some by (auto simp: dl_Some)
    have mem: "p \<in> set as" "last as \<in> set as" "q \<in> set bs" "last bs \<in> set bs" using a b by auto
    then have ne: "p \<noteq> q" "last as \<noteq> last bs" using dis by auto
    define H' where "H' = set_prv p (Some (last bs))
      (set_nxt (last as) (Some q) (set_prv q (Some (last as)) H))"
    have "dl_concat H h1 h2 = Some (H', h1)"
      using Some h1 a b ne by (simp add: dl_concat_def H'_def Let_def)
    moreover have "links H' as"
      using \<open>links H as\<close>
    proof (rule links_frame)
      fix c assume "c \<in> set (butlast as)"
      then have "c \<noteq> last as" using a distinct_not_last by fast
      then show "nxt H' c = nxt H c" by (simp add: H'_def)
    next
      fix c assume "c \<in> set (tl as)"
      then have "c \<noteq> p" "c \<noteq> q" using a mem dis distinct_not_hd list.set_sel(2) by fast+
      then show "prv H' c = prv H c" by (simp add: H'_def)
    qed
    moreover have "links H' bs"
      using \<open>links H bs\<close>
    proof (rule links_frame)
      fix c assume "c \<in> set (butlast bs)"
      then have "c \<noteq> last as" using mem dis in_set_butlastD by fast
      then show "nxt H' c = nxt H c" by (simp add: H'_def)
    next
      fix c assume c: "c \<in> set (tl bs)"
      then have "c \<noteq> q" using b distinct_not_hd by fast
      moreover have "c \<in> set bs" using b c list.set_sel(2) by fast
      then have "c \<noteq> p" using mem dis by auto
      ultimately show "prv H' c = prv H c" by (simp add: H'_def)
    qed
    ultimately show ?thesis
      using a b ne dis h1 by (auto simp: dl_Some links_append H'_def)
  qed
qed

section \<open>A list of allocated records\<close>

text \<open>
  The use of the macros in pflask: allocate a record, fill it, append it.  \<open>dl_brk\<close>
  is the next address that malloc returns; \<open>dl_view\<close> reads the records in the
  order in which \<open>DL_FOREACH\<close> visits them.
\<close>

record 'a dlist =
  dl_mem :: nodes
  dl_head :: ptr
  dl_cells :: "addr \<Rightarrow> 'a"
  dl_brk :: addr

definition dl_empty :: "'a \<Rightarrow> 'a dlist" where
  "dl_empty x = \<lparr>dl_mem = \<lparr>nxt = (\<lambda>_. None), prv = (\<lambda>_. None)\<rparr>, dl_head = None,
                 dl_cells = (\<lambda>_. x), dl_brk = 0\<rparr>"

definition dl_add :: "'a dlist \<Rightarrow> 'a \<Rightarrow> 'a dlist option" where
  "dl_add s x =
     (case dl_append (dl_mem s) (dl_head s) (dl_brk s) of
        None \<Rightarrow> None
      | Some (H, p) \<Rightarrow>
          Some (s\<lparr>dl_mem := H, dl_head := p, dl_cells := (dl_cells s)(dl_brk s := x), dl_brk := dl_brk s + 1\<rparr>))"

definition dl_view :: "'a dlist \<Rightarrow> 'a list" where
  "dl_view s = (case dl_foreach (dl_mem s) (dl_head s) of
                  None \<Rightarrow> [] | Some as \<Rightarrow> map (dl_cells s) as)"

definition dl_inv :: "'a dlist \<Rightarrow> bool" where
  "dl_inv s \<longleftrightarrow> (\<exists>as. dl (dl_mem s) (dl_head s) as \<and> (\<forall>a \<in> set as. a < dl_brk s))"

lemma dl_inv_empty: "dl_inv (dl_empty x)"
  by (simp add: dl_inv_def dl_empty_def)

lemma dl_view_empty [simp]: "dl_view (dl_empty x) = []"
  by (simp add: dl_view_def dl_empty_def dl_foreach.simps)

lemma dl_add_cases:
  assumes "dl_inv s"
  obtains H p as where "dl_add s x = Some (s\<lparr>dl_mem := H, dl_head := p,
      dl_cells := (dl_cells s)(dl_brk s := x), dl_brk := dl_brk s + 1\<rparr>)"
    "dl (dl_mem s) (dl_head s) as" "\<forall>a \<in> set as. a < dl_brk s" "dl H p (as @ [dl_brk s])"
proof -
  from assms obtain as where as: "dl (dl_mem s) (dl_head s) as" "\<forall>a \<in> set as. a < dl_brk s"
    by (auto simp: dl_inv_def)
  then have "dl_brk s \<notin> set as" by blast
  from dl_append_dl [OF as(1) this] obtain H p where
    "dl_append (dl_mem s) (dl_head s) (dl_brk s) = Some (H, p)" "dl H p (as @ [dl_brk s])" by blast
  with as show ?thesis by (intro that) (auto simp: dl_add_def)
qed

interpretation dl_store: total_snoc_store dl_inv dl_view dl_add
proof (unfold_locales, goal_cases)
  case (1 s x s')
  from \<open>dl_inv s\<close> obtain H p as where "dl_add s x = Some (s\<lparr>dl_mem := H, dl_head := p,
      dl_cells := (dl_cells s)(dl_brk s := x), dl_brk := dl_brk s + 1\<rparr>)"
    "\<forall>a \<in> set as. a < dl_brk s" "dl H p (as @ [dl_brk s])"
    by (rule dl_add_cases [of s x])
  with 1 show ?case
    by (auto simp: dl_inv_def less_Suc_eq intro!: exI [of _ "as @ [dl_brk s]"])
next
  case (2 s x s')
  from \<open>dl_inv s\<close> obtain H p as where *: "dl_add s x = Some (s\<lparr>dl_mem := H, dl_head := p,
      dl_cells := (dl_cells s)(dl_brk s := x), dl_brk := dl_brk s + 1\<rparr>)"
    "dl (dl_mem s) (dl_head s) as" "\<forall>a \<in> set as. a < dl_brk s" "dl H p (as @ [dl_brk s])"
    by (rule dl_add_cases [of s x])
  have "map ((dl_cells s)(dl_brk s := x)) as = map (dl_cells s) as" using *(3) by auto
  with 2 * show ?case by (auto simp: dl_view_def dl_foreach_dl)
next
  case (3 s x)
  then show ?case by (rule dl_add_cases [of s x]) simp
qed

section \<open>Properties\<close>

text \<open>
  C29: Allocating records and adding each to a list with DL_APPEND never
  dereferences NULL, and DL_FOREACH then ends and visits exactly these
  records, in the order in which they were added.
\<close>

theorem append_then_foreach:
  "\<exists>s. add_all dl_add (dl_empty d) xs = Some s \<and>
     (\<exists>as. dl_foreach (dl_mem s) (dl_head s) = Some as \<and> map (dl_cells s) as = xs)"
proof -
  obtain s where s: "add_all dl_add (dl_empty d) xs = Some s" "dl_inv s" "dl_view s = xs"
    using dl_store.add_all_correct [OF dl_inv_empty, of d xs] by auto
  then obtain as where "dl_foreach (dl_mem s) (dl_head s) = Some as"
    by (auto simp: dl_inv_def dest: dl_foreach_dl)
  with s show ?thesis by (auto simp: dl_view_def)
qed

text \<open>
  DL_CONCAT of two well formed lists without common nodes is well formed, and
  DL_FOREACH visits the nodes of the first and then those of the second.
\<close>

lemma concat_then_foreach:
  assumes "dl H h1 as" and "dl H h2 bs" and "set as \<inter> set bs = {}"
  shows "\<exists>H' h. dl_concat H h1 h2 = Some (H', h) \<and> dl H' h (as @ bs) \<and> dl_foreach H' h = Some (as @ bs)"
  using dl_concat_dl [OF assms] dl_foreach_dl by blast

lemma concat_then_foreach_example:
  "\<exists>H' h. dl_concat \<lparr>nxt = \<lambda>_. None, prv = Some\<rparr> (Some 1) (Some 2) = Some (H', h) \<and>
     dl_foreach H' h = Some [1, 2]"
  using concat_then_foreach [of "\<lparr>nxt = \<lambda>_. None, prv = Some\<rparr>" "Some 1" "[1]" "Some 2" "[2]"]
  by (auto simp: dl_Some)

end
