(* ===== verification/Utlist_Macros.thy ===== *)
theory Utlist_Macros
  imports Utlist
begin

text \<open>
  The other macros of deps/ut/utlist.h: singly linked, doubly linked and circular
  lists on the heap of Utlist.  Each implements an operation on the list of the
  nodes.  A macro returns the heap and the new head; None is a NULL dereference
  or an assertion that fails.
\<close>

section \<open>Doubly linked lists\<close>

definition dl_prepend :: "nodes \<Rightarrow> ptr \<Rightarrow> addr \<Rightarrow> nodes \<times> ptr" where
  "dl_prepend H head add =
     (let H = set_nxt add head H;
          H = (case head of
                 Some h \<Rightarrow> (let H = set_prv add (prv H h) H in set_prv h (Some add) H)
               | None \<Rightarrow> set_prv add (Some add) H)
      in (H, Some add))"

definition dl_delete :: "nodes \<Rightarrow> ptr \<Rightarrow> addr \<Rightarrow> (nodes \<times> ptr) option" where
  "dl_delete H head del =
     (case prv H del of
        None \<Rightarrow> None
      | Some p \<Rightarrow>
          if p = del then Some (H, None)
          else if head = Some del then
            (case nxt H del of
               None \<Rightarrow> None
             | Some n \<Rightarrow> (let H = set_prv n (prv H del) H in Some (H, nxt H del)))
          else
            (let H = set_nxt p (nxt H del) H
             in case nxt H del of
                  Some n \<Rightarrow> Some (set_prv n (prv H del) H, head)
                | None \<Rightarrow> (case head of None \<Rightarrow> None | Some h \<Rightarrow> Some (set_prv h (prv H del) H, head))))"

definition dl_replace_elem :: "nodes \<Rightarrow> ptr \<Rightarrow> addr \<Rightarrow> addr \<Rightarrow> (nodes \<times> ptr) option" where
  "dl_replace_elem H head el add =
     (case head of
        None \<Rightarrow> None
      | Some h \<Rightarrow>
          if h = el then
            (let H = set_nxt add (nxt H el) H
             in case nxt H el of
                  None \<Rightarrow> Some (set_prv add (Some add) H, Some add)
                | Some _ \<Rightarrow>
                    (let H = set_prv add (prv H el) H
                     in case nxt H add of None \<Rightarrow> None | Some n \<Rightarrow> Some (set_prv n (Some add) H, Some add)))
          else
            (let H = set_nxt add (nxt H el) H;
                 H = set_prv add (prv H el) H
             in case prv H add of
                  None \<Rightarrow> None
                | Some p \<Rightarrow>
                    (let H = set_nxt p (Some add) H
                     in case nxt H el of
                          None \<Rightarrow> Some (set_prv h (Some add) H, head)
                        | Some _ \<Rightarrow>
                            (case nxt H add of None \<Rightarrow> None | Some n \<Rightarrow> Some (set_prv n (Some add) H, head)))))"

definition dl_prepend_elem :: "nodes \<Rightarrow> ptr \<Rightarrow> addr \<Rightarrow> addr \<Rightarrow> (nodes \<times> ptr) option" where
  "dl_prepend_elem H head el add =
     (case head of
        None \<Rightarrow> None
      | Some h \<Rightarrow>
          (let H = set_nxt add (Some el) H;
               H = set_prv add (prv H el) H;
               H = set_prv el (Some add) H
           in if h = el then Some (H, Some add)
              else (case prv H add of None \<Rightarrow> None | Some p \<Rightarrow> Some (set_nxt p (Some add) H, head))))"

text \<open>
  The loops over a list.  The counter of \<open>DL_COUNT\<close>; the node where a search stops,
  or NULL; and the loop that reads the next node before the body runs, which may
  change the heap.
\<close>

partial_function (option) dl_count :: "nodes \<Rightarrow> ptr \<Rightarrow> nat \<Rightarrow> nat option" where
  "dl_count H el counter =
     (case el of None \<Rightarrow> Some counter | Some a \<Rightarrow> dl_count H (nxt H a) (counter + 1))"

partial_function (option) dl_search :: "(addr \<Rightarrow> bool) \<Rightarrow> nodes \<Rightarrow> ptr \<Rightarrow> ptr option" where
  "dl_search found H out =
     (case out of None \<Rightarrow> Some None | Some a \<Rightarrow> if found a then Some out else dl_search found H (nxt H a))"

partial_function (option) dl_foreach_safe ::
  "(addr \<Rightarrow> nodes \<times> ptr \<Rightarrow> (nodes \<times> ptr) option) \<Rightarrow> nodes \<times> ptr \<Rightarrow> ptr \<Rightarrow> (nodes \<times> ptr) option" where
  "dl_foreach_safe body s el =
     (case el of
        None \<Rightarrow> Some s
      | Some a \<Rightarrow>
          (let tmp = nxt (fst s) a in Option.bind (body a s) (\<lambda>s. dl_foreach_safe body s tmp)))"

section \<open>Circular lists\<close>

definition cdl_prepend :: "nodes \<Rightarrow> ptr \<Rightarrow> addr \<Rightarrow> (nodes \<times> ptr) option" where
  "cdl_prepend H head add =
     (case head of
        Some h \<Rightarrow>
          (let H = set_prv add (prv H h) H;
               H = set_nxt add head H;
               H = set_prv h (Some add) H
           in case prv H add of None \<Rightarrow> None | Some p \<Rightarrow> Some (set_nxt p (Some add) H, Some add))
      | None \<Rightarrow> Some (set_nxt add (Some add) (set_prv add (Some add) H), Some add))"

definition cdl_delete :: "nodes \<Rightarrow> ptr \<Rightarrow> addr \<Rightarrow> (nodes \<times> ptr) option" where
  "cdl_delete H head del =
     (if head = Some del \<and> nxt H del = head then Some (H, None)
      else
        (case nxt H del of
           None \<Rightarrow> None
         | Some n \<Rightarrow>
             (let H = set_prv n (prv H del) H
              in case prv H del of
                   None \<Rightarrow> None
                 | Some p \<Rightarrow>
                     (let H = set_nxt p (nxt H del) H
                      in Some (H, if head = Some del then nxt H del else head)))))"

definition cdl_replace_elem :: "nodes \<Rightarrow> ptr \<Rightarrow> addr \<Rightarrow> addr \<Rightarrow> (nodes \<times> ptr) option" where
  "cdl_replace_elem H head el add =
     (if head = None then None
      else if nxt H el = Some el then Some (set_prv add (Some add) (set_nxt add (Some add) H), Some add)
      else
        (let H = set_nxt add (nxt H el) H;
             H = set_prv add (prv H el) H
         in case nxt H add of
              None \<Rightarrow> None
            | Some n \<Rightarrow>
                (let H = set_prv n (Some add) H
                 in case prv H add of
                      None \<Rightarrow> None
                    | Some p \<Rightarrow> Some (set_nxt p (Some add) H, if head = Some el then Some add else head))))"

definition cdl_prepend_elem :: "nodes \<Rightarrow> ptr \<Rightarrow> addr \<Rightarrow> addr \<Rightarrow> (nodes \<times> ptr) option" where
  "cdl_prepend_elem H head el add =
     (if head = None then None
      else
        (let H = set_nxt add (Some el) H;
             H = set_prv add (prv H el) H;
             H = set_prv el (Some add) H
         in case prv H add of
              None \<Rightarrow> None
            | Some p \<Rightarrow> Some (set_nxt p (Some add) H, if head = Some el then Some add else head)))"

text \<open>The next node of \<open>CDL_FOREACH\<close>: NULL at the head.\<close>

definition cdl_next :: "nodes \<Rightarrow> ptr \<Rightarrow> addr \<Rightarrow> ptr" where
  "cdl_next H head el = (if nxt H el = head then None else nxt H el)"

partial_function (option) cdl_count :: "nodes \<Rightarrow> ptr \<Rightarrow> ptr \<Rightarrow> nat \<Rightarrow> nat option" where
  "cdl_count H head el counter =
     (case el of None \<Rightarrow> Some counter | Some a \<Rightarrow> cdl_count H head (cdl_next H head a) (counter + 1))"

partial_function (option) cdl_search :: "(addr \<Rightarrow> bool) \<Rightarrow> nodes \<Rightarrow> ptr \<Rightarrow> ptr \<Rightarrow> ptr option" where
  "cdl_search found H head out =
     (case out of
        None \<Rightarrow> Some None
      | Some a \<Rightarrow> if found a then Some out else cdl_search found H head (cdl_next H head a))"

text \<open>\<open>CDL_FOREACH_SAFE\<close>; \<open>tmp1\<close> is the last node when the loop starts.\<close>

partial_function (option) cdl_foreach_safe ::
  "(addr \<Rightarrow> nodes \<times> ptr \<Rightarrow> (nodes \<times> ptr) option) \<Rightarrow> nodes \<times> ptr \<Rightarrow> ptr \<Rightarrow> ptr \<Rightarrow> (nodes \<times> ptr) option" where
  "cdl_foreach_safe body s tmp1 el =
     (case el of
        None \<Rightarrow> Some s
      | Some a \<Rightarrow>
          (let tmp2 = nxt (fst s) a
           in Option.bind (body a s) (\<lambda>s. cdl_foreach_safe body s tmp1 (if el = tmp1 then None else tmp2))))"

section \<open>Singly linked lists\<close>

definition ll_prepend :: "nodes \<Rightarrow> ptr \<Rightarrow> addr \<Rightarrow> nodes \<times> ptr" where
  "ll_prepend H head add = (set_nxt add head H, Some add)"

text \<open>The loops that look for the last node, or for the one before \<open>del\<close>.\<close>

partial_function (option) ll_last :: "nodes \<Rightarrow> addr \<Rightarrow> addr option" where
  "ll_last H tmp = (case nxt H tmp of None \<Rightarrow> Some tmp | Some n \<Rightarrow> ll_last H n)"

partial_function (option) ll_before :: "nodes \<Rightarrow> addr \<Rightarrow> addr \<Rightarrow> addr option" where
  "ll_before H del tmp =
     (case nxt H tmp of None \<Rightarrow> Some tmp | Some n \<Rightarrow> if n = del then Some tmp else ll_before H del n)"

definition ll_concat :: "nodes \<Rightarrow> ptr \<Rightarrow> ptr \<Rightarrow> (nodes \<times> ptr) option" where
  "ll_concat H head1 head2 =
     (case head1 of
        Some h \<Rightarrow> Option.bind (ll_last H h) (\<lambda>tmp. Some (set_nxt tmp head2 H, head1))
      | None \<Rightarrow> Some (H, head2))"

definition ll_append :: "nodes \<Rightarrow> ptr \<Rightarrow> addr \<Rightarrow> (nodes \<times> ptr) option" where
  "ll_append H head add =
     (let H = set_nxt add None H
      in case head of
           Some h \<Rightarrow> Option.bind (ll_last H h) (\<lambda>tmp. Some (set_nxt tmp (Some add) H, head))
         | None \<Rightarrow> Some (H, Some add))"

definition ll_delete :: "nodes \<Rightarrow> ptr \<Rightarrow> addr \<Rightarrow> (nodes \<times> ptr) option" where
  "ll_delete H head del =
     (if head = Some del then Some (H, nxt H del)
      else
        (case head of
           None \<Rightarrow> None
         | Some h \<Rightarrow>
             Option.bind (ll_before H del h) (\<lambda>tmp.
               Some (if nxt H tmp \<noteq> None then set_nxt tmp (nxt H del) H else H, head))))"

text \<open>The end of \<open>LL_REPLACE_ELEM\<close> and \<open>LL_PREPEND_ELEM\<close>: \<open>add\<close> in the place of \<open>el\<close>.\<close>

definition ll_put :: "nodes \<Rightarrow> ptr \<Rightarrow> addr \<Rightarrow> addr \<Rightarrow> (nodes \<times> ptr) option" where
  "ll_put H head el add =
     (if head = Some el then Some (H, Some add)
      else
        (case head of
           None \<Rightarrow> None
         | Some h \<Rightarrow>
             Option.bind (ll_before H el h) (\<lambda>tmp.
               Some (if nxt H tmp \<noteq> None then set_nxt tmp (Some add) H else H, head))))"

definition ll_replace_elem :: "nodes \<Rightarrow> ptr \<Rightarrow> addr \<Rightarrow> addr \<Rightarrow> (nodes \<times> ptr) option" where
  "ll_replace_elem H head el add =
     (if head = None then None else ll_put (set_nxt add (nxt H el) H) head el add)"

definition ll_prepend_elem :: "nodes \<Rightarrow> ptr \<Rightarrow> addr \<Rightarrow> addr \<Rightarrow> (nodes \<times> ptr) option" where
  "ll_prepend_elem H head el add =
     (if head = None then None else ll_put (set_nxt add (Some el) H) head el add)"

text \<open>
  The replacements under NO_DECLTYPE.  The first uses the \<open>next\<close> pointer of the new node
  as its variable, the second the head, which it restores.
\<close>

partial_function (option) ll_seek :: "nodes \<Rightarrow> addr \<Rightarrow> nodes option" where
  "ll_seek H add =
     (case nxt H add of
        None \<Rightarrow> None
      | Some t \<Rightarrow>
          (case nxt H t of None \<Rightarrow> Some H | Some n \<Rightarrow> ll_seek (set_nxt add (Some n) H) add))"

definition ll_append_vs2008 :: "nodes \<Rightarrow> ptr \<Rightarrow> addr \<Rightarrow> (nodes \<times> ptr) option" where
  "ll_append_vs2008 H head add =
     Option.bind
       (case head of
          Some h \<Rightarrow>
            Option.bind (ll_seek (set_nxt add head H) add) (\<lambda>H.
              case nxt H add of None \<Rightarrow> None | Some t \<Rightarrow> Some (set_nxt t (Some add) H, head))
        | None \<Rightarrow> Some (H, Some add))
       (\<lambda>(H, head). Some (set_nxt add None H, head))"

definition ll_delete_vs2008 :: "nodes \<Rightarrow> ptr \<Rightarrow> addr \<Rightarrow> (nodes \<times> ptr) option" where
  "ll_delete_vs2008 H head del =
     (if head = Some del then Some (H, nxt H del)
      else
        (let tmp = head
         in case head of
              None \<Rightarrow> None
            | Some h \<Rightarrow>
                Option.bind (ll_before H del h) (\<lambda>h.
                  (let H = if nxt H h \<noteq> None then set_nxt h (nxt H del) H else H in Some (H, tmp)))))"

section \<open>Paths\<close>

text \<open>The nodes from one pointer to another, and their \<open>prev\<close> pointers after a node.\<close>

fun path :: "nodes \<Rightarrow> ptr \<Rightarrow> addr list \<Rightarrow> ptr \<Rightarrow> bool" where
  "path H p [] q = (p = q)"
| "path H p (x # xs) q = (p = Some x \<and> path H (nxt H x) xs q)"

fun prevs :: "nodes \<Rightarrow> addr \<Rightarrow> addr list \<Rightarrow> bool" where
  "prevs H p [] = True"
| "prevs H p (x # xs) = (prv H x = Some p \<and> prevs H x xs)"

lemma path_upd [simp]:
  "a \<notin> set xs \<Longrightarrow> path (set_nxt a r H) p xs q = path H p xs q"
  "path (set_prv a r H) p xs q = path H p xs q"
  by (induction xs arbitrary: p) auto

lemma prevs_upd [simp]:
  "a \<notin> set xs \<Longrightarrow> prevs (set_prv a r H) p xs = prevs H p xs"
  "prevs (set_nxt a r H) p xs = prevs H p xs"
  by (induction xs arbitrary: p) auto

lemma path_append: "path H p (xs @ ys) q \<longleftrightarrow> (\<exists>r. path H p xs r \<and> path H r ys q)"
  by (induction xs arbitrary: p) auto

lemma path_snoc: "path H p (xs @ [x]) q \<longleftrightarrow> path H p xs (Some x) \<and> nxt H x = q"
  by (auto simp: path_append)

lemma prevs_append: "prevs H p (xs @ ys) \<longleftrightarrow> prevs H p xs \<and> prevs H (last (p # xs)) ys"
  by (induction xs arbitrary: p) auto

text \<open>A path through a node.\<close>

lemma path_at: "path H p (xs @ x # ys) q \<longleftrightarrow> path H p xs (Some x) \<and> path H (nxt H x) ys q"
  by (auto simp: path_append)

lemma path_hd: "path H p xs q \<Longrightarrow> p = (if xs = [] then q else Some (hd xs))"
  by (cases xs) auto

text \<open>The three kinds of lists.\<close>

definition ll :: "nodes \<Rightarrow> ptr \<Rightarrow> addr list \<Rightarrow> bool" where
  "ll H head as \<longleftrightarrow> distinct as \<and> path H head as None"

definition cdl :: "nodes \<Rightarrow> ptr \<Rightarrow> addr list \<Rightarrow> bool" where
  "cdl H head as \<longleftrightarrow> distinct as \<and> path H head as head \<and> (if as = [] then head = None else prevs H (last as) as)"

lemma links_path: "links H (a # as) \<longleftrightarrow> (\<exists>q. path H (nxt H a) as q) \<and> prevs H a as"
  by (induction as arbitrary: a) auto

lemma dl_path: "dl H head as \<longleftrightarrow> distinct as \<and> path H head as None \<and> (as \<noteq> [] \<longrightarrow> prevs H (last as) as)"
proof (cases as)
  case Nil
  then show ?thesis by (cases head) (auto simp: dl_Some)
next
  case (Cons a bs)
  have "links H (a # bs) \<and> nxt H (last (a # bs)) = None \<longleftrightarrow> path H (nxt H a) bs None \<and> prevs H a bs"
    by (induction bs arbitrary: a) auto
  with Cons show ?thesis by (cases head) (auto simp: dl_Some)
qed

section \<open>Doubly linked lists: the operations\<close>

lemma dl_prepend_dl:
  assumes "dl H head as" and "a \<notin> set as"
  shows "case dl_prepend H head a of (H', head') \<Rightarrow> dl H' head' (a # as)"
proof (cases as)
  case Nil
  with assms show ?thesis by (simp add: dl_path dl_prepend_def)
next
  case (Cons b bs)
  with assms show ?thesis by (auto simp: dl_path dl_prepend_def Let_def)
qed

lemma dl_delete_dl:
  assumes "dl H head (xs @ d # ys)"
  shows "\<exists>H' head'. dl_delete H head d = Some (H', head') \<and> dl H' head' (xs @ ys)"
proof (cases xs rule: rev_cases)
  case Nil
  with assms show ?thesis
    by (cases ys) (auto simp: dl_path dl_delete_def Let_def split: if_splits)
next
  case (snoc us u)
  show ?thesis
  proof (cases ys)
    case Nil
    with snoc assms show ?thesis
      by (cases us) (auto simp: dl_path dl_delete_def Let_def path_at path_snoc prevs_append)
  next
    case (Cons v vs)
    with snoc assms show ?thesis
      by (cases us) (auto simp: dl_path dl_delete_def Let_def path_at path_snoc prevs_append)
  qed
qed

text \<open>A list around a node: the cases of the node before it and the one after it.\<close>

lemma around_cases:
  obtains "xs = []" "ys = []" | v vs where "xs = []" "ys = v # vs"
    | us u where "xs = us @ [u]" "ys = []" | us u v vs where "xs = us @ [u]" "ys = v # vs"
  by (cases xs rule: rev_cases; cases ys) auto

lemma dl_replace_elem_dl:
  assumes "dl H head (xs @ e # ys)" and "a \<notin> set (xs @ e # ys)"
  shows "\<exists>H' head'. dl_replace_elem H head e a = Some (H', head') \<and> dl H' head' (xs @ a # ys)"
proof (cases rule: around_cases [of xs ys])
  case (3 us u)
  with assms show ?thesis
    by (cases us) (auto simp: dl_path dl_replace_elem_def Let_def path_at path_snoc prevs_append)
next
  case (4 us u v vs)
  with assms show ?thesis
    by (cases us) (auto simp: dl_path dl_replace_elem_def Let_def path_at path_snoc prevs_append)
qed (use assms in \<open>auto simp: dl_path dl_replace_elem_def Let_def split: if_splits\<close>)

lemma dl_prepend_elem_dl:
  assumes "dl H head (xs @ e # ys)" and "a \<notin> set (xs @ e # ys)"
  shows "\<exists>H' head'. dl_prepend_elem H head e a = Some (H', head') \<and> dl H' head' (xs @ a # e # ys)"
proof (cases rule: around_cases [of xs ys])
  case (3 us u)
  with assms show ?thesis
    by (cases us) (auto simp: dl_path dl_prepend_elem_def Let_def path_at path_snoc prevs_append)
next
  case (4 us u v vs)
  with assms show ?thesis
    by (cases us) (auto simp: dl_path dl_prepend_elem_def Let_def path_at path_snoc prevs_append)
qed (use assms in \<open>auto simp: dl_path dl_prepend_elem_def Let_def split: if_splits\<close>)

lemma dl_count_path: "path H p as None \<Longrightarrow> dl_count H p n = Some (n + length as)"
  by (induction as arbitrary: p n) (auto simp: dl_count.simps)

lemma dl_search_path: "path H p as None \<Longrightarrow> dl_search found H p = Some (find found as)"
  by (induction as arbitrary: p) (auto simp: dl_search.simps)

text \<open>
  The loop of \<open>DL_FOREACH_SAFE\<close> whose body deletes some of the nodes; the deleted
  nodes keep their pointers, and the loop goes on with the next node.
\<close>

definition delete_if :: "(addr \<Rightarrow> bool) \<Rightarrow> addr \<Rightarrow> nodes \<times> ptr \<Rightarrow> (nodes \<times> ptr) option" where
  "delete_if bad a s = (if bad a then dl_delete (fst s) (snd s) a else Some s)"

lemma foreach_safe_deletes:
  "dl H head (xs @ ys) \<Longrightarrow> p = (if ys = [] then None else Some (hd ys)) \<Longrightarrow>
   \<exists>H' head'. dl_foreach_safe (delete_if bad) (H, head) p = Some (H', head') \<and>
     dl H' head' (xs @ filter (\<lambda>a. \<not> bad a) ys)"
proof (induction ys arbitrary: H head xs p)
  case Nil
  then show ?case by (simp add: dl_foreach_safe.simps)
next
  case (Cons y ys)
  have n: "nxt H y = (if ys = [] then None else Some (hd ys))"
    using Cons.prems(1) by (auto simp: dl_path path_at dest: path_hd)
  show ?case
  proof (cases "bad y")
    case True
    from dl_delete_dl [OF Cons.prems(1)] obtain H1 h1 where
      d: "dl_delete H head y = Some (H1, h1)" "dl H1 h1 (xs @ ys)" by blast
    from Cons.IH [OF d(2) refl] True d(1) n Cons.prems(2) show ?thesis
      by (simp add: dl_foreach_safe.simps [of _ _ "Some y"] delete_if_def)
  next
    case False
    from Cons.prems(1) have "dl H head ((xs @ [y]) @ ys)" by simp
    from Cons.IH [OF this refl] False n Cons.prems(2) show ?thesis
      by (simp add: dl_foreach_safe.simps [of _ _ "Some y"] delete_if_def)
  qed
qed

section \<open>Circular lists: the operations\<close>

lemma cdl_prepend_cdl:
  assumes "cdl H head as" and "a \<notin> set as"
  shows "\<exists>H' head'. cdl_prepend H head a = Some (H', head') \<and> cdl H' head' (a # as)"
proof (cases as rule: rev_cases)
  case Nil
  with assms show ?thesis by (auto simp: cdl_def cdl_prepend_def)
next
  case (snoc us u)
  with assms show ?thesis
    by (cases us) (auto simp: cdl_def cdl_prepend_def Let_def path_snoc prevs_append)
qed

lemma cdl_delete_cdl:
  assumes "cdl H head (xs @ d # ys)"
  shows "\<exists>H' head'. cdl_delete H head d = Some (H', head') \<and> cdl H' head' (xs @ ys)"
proof (cases rule: around_cases [of xs ys])
  case 1
  with assms show ?thesis by (auto simp: cdl_def cdl_delete_def)
next
  case (2 v vs)
  with assms show ?thesis
    by (cases vs rule: rev_cases)
      (auto simp: cdl_def cdl_delete_def Let_def path_at path_snoc prevs_append)
next
  case (3 us u)
  with assms show ?thesis
    by (cases us) (auto simp: cdl_def cdl_delete_def Let_def path_at path_snoc prevs_append)
next
  case (4 us u v vs)
  with assms show ?thesis
    by (cases us) (auto simp: cdl_def cdl_delete_def Let_def path_at path_snoc prevs_append)
qed

lemma cdl_replace_elem_cdl:
  assumes "cdl H head (xs @ e # ys)" and "a \<notin> set (xs @ e # ys)"
  shows "\<exists>H' head'. cdl_replace_elem H head e a = Some (H', head') \<and> cdl H' head' (xs @ a # ys)"
proof (cases rule: around_cases [of xs ys])
  case 1
  with assms show ?thesis by (auto simp: cdl_def cdl_replace_elem_def)
next
  case (2 v vs)
  with assms show ?thesis
    by (cases vs rule: rev_cases)
      (auto simp: cdl_def cdl_replace_elem_def Let_def path_at path_snoc prevs_append)
next
  case (3 us u)
  with assms show ?thesis
    by (cases us) (auto simp: cdl_def cdl_replace_elem_def Let_def path_at path_snoc prevs_append)
next
  case (4 us u v vs)
  with assms show ?thesis
    by (cases us) (auto simp: cdl_def cdl_replace_elem_def Let_def path_at path_snoc prevs_append)
qed

lemma cdl_prepend_elem_cdl:
  assumes "cdl H head (xs @ e # ys)" and "a \<notin> set (xs @ e # ys)"
  shows "\<exists>H' head'. cdl_prepend_elem H head e a = Some (H', head') \<and> cdl H' head' (xs @ a # e # ys)"
proof (cases rule: around_cases [of xs ys])
  case 1
  with assms show ?thesis by (auto simp: cdl_def cdl_prepend_elem_def)
next
  case (2 v vs)
  with assms show ?thesis
    by (cases vs rule: rev_cases)
      (auto simp: cdl_def cdl_prepend_elem_def Let_def path_at path_snoc prevs_append)
next
  case (3 us u)
  with assms show ?thesis
    by (cases us) (auto simp: cdl_def cdl_prepend_elem_def Let_def path_at path_snoc prevs_append)
next
  case (4 us u v vs)
  with assms show ?thesis
    by (cases us) (auto simp: cdl_def cdl_prepend_elem_def Let_def path_at path_snoc prevs_append)
qed

lemma cdl_loop:
  assumes "path H p as (Some h)" and "h \<notin> set (tl as)" and "as \<noteq> []"
  shows "cdl_count H (Some h) p n = Some (n + length as)"
    and "cdl_search found H (Some h) p = Some (find found as)"
proof -
  have "cdl_count H (Some h) p n = Some (n + length as) \<and> cdl_search found H (Some h) p = Some (find found as)"
    using assms
  proof (induction as arbitrary: p n)
    case (Cons a as)
    show ?case
    proof (cases as)
      case Nil
      with Cons show ?thesis
        by (simp add: cdl_count.simps [of H "Some h" "Some a"] cdl_count.simps [of H "Some h" None]
            cdl_search.simps [of found H "Some h" "Some a"] cdl_search.simps [of found H "Some h" None] cdl_next_def)
    next
      case (Cons b bs)
      with Cons.prems have n: "nxt H a = Some b" "b \<noteq> h" by auto
      with Cons.prems Cons Cons.IH [of "Some b" "n + 1"] show ?thesis
        by (simp add: cdl_count.simps [of H "Some h" "Some a"] cdl_search.simps [of found H "Some h" "Some a"] cdl_next_def)
    qed
  qed simp
  then show "cdl_count H (Some h) p n = Some (n + length as)"
    and "cdl_search found H (Some h) p = Some (find found as)" by simp_all
qed

lemma cdl_count_cdl: "cdl H head as \<Longrightarrow> cdl_count H head head 0 = Some (length as)"
proof (cases as)
  case (Cons a bs)
  assume "cdl H head as"
  with Cons have "path H (Some a) as (Some a)" "head = Some a" "a \<notin> set (tl as)" by (auto simp: cdl_def)
  with Cons cdl_loop(1) [of H "Some a" as a 0] show ?thesis by simp
qed (simp add: cdl_def cdl_count.simps)

lemma cdl_search_cdl: "cdl H head as \<Longrightarrow> cdl_search found H head head = Some (find found as)"
proof (cases as)
  case (Cons a bs)
  assume "cdl H head as"
  with Cons have "path H (Some a) as (Some a)" "head = Some a" "a \<notin> set (tl as)" by (auto simp: cdl_def)
  with Cons cdl_loop(2) [of H "Some a" as a found] show ?thesis by simp
qed (simp add: cdl_def cdl_search.simps)

text \<open>The same loop with \<open>CDL_DELETE\<close> on a circular list.\<close>

definition cdl_delete_if :: "(addr \<Rightarrow> bool) \<Rightarrow> addr \<Rightarrow> nodes \<times> ptr \<Rightarrow> (nodes \<times> ptr) option" where
  "cdl_delete_if bad a s = (if bad a then cdl_delete (fst s) (snd s) a else Some s)"

lemma cdl_foreach_safe_deletes:
  "cdl H head (xs @ ys) \<Longrightarrow> ys \<noteq> [] \<Longrightarrow>
   \<exists>H' head'. cdl_foreach_safe (cdl_delete_if bad) (H, head) (Some (last ys)) (Some (hd ys)) = Some (H', head') \<and>
     cdl H' head' (xs @ filter (\<lambda>a. \<not> bad a) ys)"
proof (induction ys arbitrary: H head xs)
  case (Cons y ys)
  let ?zs = "if bad y then xs else xs @ [y]"
  obtain H1 h1 where d: "cdl_delete_if bad y (H, head) = Some (H1, h1)" "cdl H1 h1 (?zs @ ys)"
    using cdl_delete_cdl [OF Cons.prems(1)] Cons.prems(1) by (cases "bad y") (auto simp: cdl_delete_if_def)
  show ?case
  proof (cases "ys = []")
    case True
    with d show ?thesis
      by (cases "bad y") (simp_all add: cdl_foreach_safe.simps [of _ _ _ "Some y"] cdl_foreach_safe.simps [of _ _ _ None])
  next
    case False
    then have "nxt H y = Some (hd ys)" using Cons.prems(1) by (auto simp: cdl_def path_at dest: path_hd)
    moreover have "y \<noteq> last ys" using Cons.prems(1) False by (auto simp: cdl_def)
    ultimately show ?thesis
      using Cons.IH [OF d(2) False] d(1) False by (cases "bad y") (simp_all add: cdl_foreach_safe.simps [of _ _ _ "Some y"])
  qed
qed simp

section \<open>Singly linked lists: the operations\<close>

lemma ll_prepend_ll:
  "ll H head as \<Longrightarrow> a \<notin> set as \<Longrightarrow> case ll_prepend H head a of (H', head') \<Rightarrow> ll H' head' (a # as)"
  by (simp add: ll_def ll_prepend_def)

lemma ll_last_path: "path H (Some a) as None \<Longrightarrow> ll_last H a = Some (last as)"
proof (induction as arbitrary: a)
  case (Cons b bs)
  then show ?case by (cases bs) (auto simp: ll_last.simps [of H b])
qed simp

lemma ll_before_path:
  "path H (Some a) (xs @ u # d # ys) None \<Longrightarrow> distinct (xs @ u # d # ys) \<Longrightarrow> ll_before H d a = Some u"
proof (induction xs arbitrary: a)
  case Nil
  then show ?case by (simp add: ll_before.simps [of H d u])
next
  case (Cons x xs)
  then show ?case by (cases xs) (auto simp: ll_before.simps [of H d x])
qed

lemma ll_concat_ll:
  assumes "ll H h1 as" and "ll H h2 bs" and "set as \<inter> set bs = {}"
  shows "\<exists>H' h. ll_concat H h1 h2 = Some (H', h) \<and> ll H' h (as @ bs)"
proof (cases as rule: rev_cases)
  case Nil
  with assms show ?thesis by (auto simp: ll_def ll_concat_def)
next
  case (snoc us u)
  with assms(1) obtain a where a: "h1 = Some a" by (cases us) (auto simp: ll_def)
  with assms snoc ll_last_path [of H a as] show ?thesis
    by (auto simp: ll_def ll_concat_def path_append)
qed

lemma ll_append_ll:
  assumes "ll H head as" and "a \<notin> set as"
  shows "\<exists>H' head'. ll_append H head a = Some (H', head') \<and> ll H' head' (as @ [a])"
proof -
  have "ll (set_nxt a None H) (Some a) [a]" by (simp add: ll_def)
  moreover have "ll (set_nxt a None H) head as" using assms by (simp add: ll_def)
  ultimately have "\<exists>H' h. ll_concat (set_nxt a None H) head (Some a) = Some (H', h) \<and> ll H' h (as @ [a])"
    using assms(2) by (intro ll_concat_ll) auto
  then show ?thesis by (simp add: ll_concat_def ll_append_def Let_def split: option.splits)
qed

lemma ll_delete_ll:
  assumes "ll H head (xs @ d # ys)"
  shows "\<exists>H' head'. ll_delete H head d = Some (H', head') \<and> ll H' head' (xs @ ys)"
proof (cases xs rule: rev_cases)
  case Nil
  with assms show ?thesis by (auto simp: ll_def ll_delete_def)
next
  case (snoc us u)
  with assms obtain h where h: "head = Some h" "h \<noteq> d" by (cases us) (auto simp: ll_def)
  with assms snoc ll_before_path [of H h us u d ys] show ?thesis
    by (auto simp: ll_def ll_delete_def path_append)
qed

lemma ll_put_ll:
  assumes "path H head xs (Some e)" and "path H (Some a) (a # zs) None" and "distinct (xs @ a # zs)"
    and "e \<notin> set xs" and "xs \<noteq> [] \<Longrightarrow> ll_before H e (hd xs) = Some (last xs)"
  shows "\<exists>H' head'. ll_put H head e a = Some (H', head') \<and> ll H' head' (xs @ a # zs)"
proof (cases xs rule: rev_cases)
  case Nil
  with assms show ?thesis by (auto simp: ll_def ll_put_def)
next
  case (snoc us u)
  with assms obtain h where h: "head = Some h" "h \<noteq> e" "hd xs = h" by (cases us) (auto simp: ll_def)
  with assms snoc show ?thesis
    by (auto simp: ll_def ll_put_def path_append)
qed

lemma ll_elem:
  assumes "ll H head (xs @ e # ys)" and "a \<notin> set (xs @ e # ys)"
  shows "\<exists>H' head'. ll_replace_elem H head e a = Some (H', head') \<and> ll H' head' (xs @ a # ys)"
    and "\<exists>H' head'. ll_prepend_elem H head e a = Some (H', head') \<and> ll H' head' (xs @ a # e # ys)"
proof -
  have p: "path H head xs (Some e)" "path H (nxt H e) ys None" "distinct (xs @ e # ys)"
    using assms(1) by (simp_all add: ll_def path_at)
  have bef: "ll_before (set_nxt a q H) e (hd xs) = Some (last xs)" if "xs \<noteq> []" for q
  proof (cases xs rule: rev_cases)
    case (snoc us u)
    with p assms(2) have "head = Some (hd xs)" by (cases us) auto
    with snoc assms ll_before_path [of "set_nxt a q H" "hd xs" us u e ys] show ?thesis by (simp add: ll_def)
  qed (simp add: that)
  have "head \<noteq> None" using p(1) by (cases xs) auto
  with p assms(2) bef show "\<exists>H' head'. ll_replace_elem H head e a = Some (H', head') \<and> ll H' head' (xs @ a # ys)"
    unfolding ll_replace_elem_def by (simp, intro ll_put_ll) auto
  from \<open>head \<noteq> None\<close> p assms(2) bef
  show "\<exists>H' head'. ll_prepend_elem H head e a = Some (H', head') \<and> ll H' head' (xs @ a # e # ys)"
    unfolding ll_prepend_elem_def by (simp, intro ll_put_ll) auto
qed

text \<open>The replacements do what the macros do.\<close>

lemma set_nxt_again [simp]: "set_nxt a p (set_nxt a q H) = set_nxt a p H"
  by (simp add: set_nxt_def)

lemma set_nxt_same: "nxt H a = p \<Longrightarrow> set_nxt a p H = H"
  by (auto simp: set_nxt_def)

lemma set_nxt_swap: "a \<noteq> b \<Longrightarrow> set_nxt a p (set_nxt b q H) = set_nxt b q (set_nxt a p H)"
  by (simp add: set_nxt_def fun_upd_twist)

lemma ll_seek_path:
  "path H (nxt H a) as None \<Longrightarrow> as \<noteq> [] \<Longrightarrow> a \<notin> set as \<Longrightarrow> ll_seek H a = Some (set_nxt a (Some (last as)) H)"
proof (induction as arbitrary: H)
  case (Cons b bs)
  show ?case
  proof (cases bs)
    case Nil
    with Cons.prems show ?thesis by (simp add: ll_seek.simps [of H a] set_nxt_same)
  next
    case (Cons c cs)
    with Cons.prems have "ll_seek H a = ll_seek (set_nxt a (Some c) H) a" by (simp add: ll_seek.simps [of H a])
    with Cons.IH [of "set_nxt a (Some c) H"] Cons.prems Cons show ?thesis by simp
  qed
qed simp

lemma ll_append_vs2008_same:
  assumes "ll H head as" and "a \<notin> set as"
  shows "ll_append_vs2008 H head a = ll_append H head a"
proof (cases head)
  case (Some h)
  with assms have as: "as \<noteq> []" "path H (Some h) as None" by (auto simp: ll_def)
  with assms(2) have "a \<noteq> last as" "ll_last (set_nxt a None H) h = Some (last as)"
    by (auto intro!: ll_last_path)
  moreover have "ll_seek (set_nxt a head H) a = Some (set_nxt a (Some (last as)) H)"
    using Some as assms(2) ll_seek_path [of "set_nxt a head H" a as] by simp
  ultimately show ?thesis
    using Some by (simp add: ll_append_vs2008_def ll_append_def Let_def set_nxt_swap [of a "last as"])
qed (simp add: ll_append_vs2008_def ll_append_def Let_def)

lemma ll_delete_vs2008_same: "ll_delete_vs2008 H head d = ll_delete H head d"
  by (cases head) (simp_all add: ll_delete_vs2008_def ll_delete_def Let_def)

section \<open>Properties\<close>

text \<open>
  C28: The loops that are safe for deleting: DL_FOREACH_SAFE and CDL_FOREACH_SAFE, with a
  body that deletes some of the nodes by DL_DELETE or CDL_DELETE, end without
  following a NULL pointer, and leave a well formed list of exactly the other
  nodes, in their order.
\<close>

theorem foreach_safe_filters:
  "(dl H head as \<longrightarrow> (\<exists>H' head'. dl_foreach_safe (delete_if bad) (H, head) head = Some (H', head') \<and>
      dl H' head' (filter (\<lambda>a. \<not> bad a) as))) \<and>
   (cdl H head as \<longrightarrow> (\<exists>H' head'.
      cdl_foreach_safe (cdl_delete_if bad) (H, head) (case head of None \<Rightarrow> None | Some h \<Rightarrow> prv H h) head = Some (H', head') \<and>
      cdl H' head' (filter (\<lambda>a. \<not> bad a) as)))"
proof (intro conjI impI)
  assume d: "dl H head as"
  then have "head = (if as = [] then None else Some (hd as))" by (auto simp: dl_path dest: path_hd)
  with foreach_safe_deletes [of H head "[]" as head bad] d
  show "\<exists>H' head'. dl_foreach_safe (delete_if bad) (H, head) head = Some (H', head') \<and>
      dl H' head' (filter (\<lambda>a. \<not> bad a) as)" by simp
next
  assume c: "cdl H head as"
  show "\<exists>H' head'.
      cdl_foreach_safe (cdl_delete_if bad) (H, head) (case head of None \<Rightarrow> None | Some h \<Rightarrow> prv H h) head = Some (H', head') \<and>
      cdl H' head' (filter (\<lambda>a. \<not> bad a) as)"
  proof (cases as)
    case Nil
    with c show ?thesis by (simp add: cdl_def cdl_foreach_safe.simps)
  next
    case (Cons a bs)
    with c have "head = Some (hd as)" "prv H a = Some (last as)" by (auto simp: cdl_def)
    with cdl_foreach_safe_deletes [of H head "[]" as bad] c Cons show ?thesis by simp
  qed
qed

theorem foreach_safe_filters_witness:
  "(\<exists>H' head'. dl_foreach_safe (delete_if odd) (\<lparr>nxt = (\<lambda>_. None)(1 \<mapsto> 2), prv = (\<lambda>_. None)(1 \<mapsto> 2, 2 \<mapsto> 1)\<rparr>, Some 1) (Some 1) =
     Some (H', head') \<and> dl H' head' [2]) \<and>
   (\<exists>H' head'. cdl_foreach_safe (cdl_delete_if odd) (\<lparr>nxt = (\<lambda>_. None)(1 \<mapsto> 2, 2 \<mapsto> 1), prv = (\<lambda>_. None)(1 \<mapsto> 2, 2 \<mapsto> 1)\<rparr>, Some 1)
     (Some 2) (Some 1) = Some (H', head') \<and> cdl H' head' [2])"
  using foreach_safe_filters [of "\<lparr>nxt = (\<lambda>_. None)(1 \<mapsto> 2), prv = (\<lambda>_. None)(1 \<mapsto> 2, 2 \<mapsto> 1)\<rparr>" "Some 1" "[1, 2]" odd]
    foreach_safe_filters [of "\<lparr>nxt = (\<lambda>_. None)(1 \<mapsto> 2, 2 \<mapsto> 1), prv = (\<lambda>_. None)(1 \<mapsto> 2, 2 \<mapsto> 1)\<rparr>" "Some 1" "[1, 2]" odd]
  by (simp add: dl_Some cdl_def)

end
