(* ===== verification/Utlist_Sort.thy ===== *)
theory Utlist_Sort
  imports Utlist_Macros "HOL-Library.Multiset"
begin

text \<open>
  The sort macros of deps/ut/utlist.h, \<open>LL_SORT\<close>, \<open>DL_SORT\<close> and \<open>CDL_SORT\<close>: a merge
  sort from the bottom up that relinks the nodes, without other memory.  The three
  macros have the same text, but for the \<open>prev\<close> pointers, the end of a pass, and the
  test for the old head, after which \<open>CDL_SORT\<close> sees NULL.

  Runs of \<open>insize\<close> nodes are merged in pairs, and \<open>insize\<close> doubles until a pass
  has merged one pair at most; it doubles after the last pass, too.  The counters
  are C ints that are never negative; a result that an int does not hold is
  undefined in C and None here.
\<close>

section \<open>The macros\<close>

text \<open>A new value of a counter.\<close>

definition INT_MAX :: nat where "INT_MAX = 0x7FFFFFFF"

definition c_int :: "nat \<Rightarrow> nat option" where
  "c_int n = (if n \<le> INT_MAX then Some n else None)"

datatype list_kind = LL | DL | CDL

text \<open>The next node of a run; \<open>oldhead\<close> is the variable of \<open>CDL_SORT\<close>, and NULL for the others.\<close>

definition next_in :: "ptr \<Rightarrow> nodes \<Rightarrow> addr \<Rightarrow> ptr" where
  "next_in oldhead H a = (if nxt H a = oldhead then None else nxt H a)"

lemma next_in_NULL [simp]: "next_in None H a = nxt H a"
  by (simp add: next_in_def)

text \<open>The comparison of two nodes; it reads their data, not their links.\<close>

type_synonym comparison = "addr \<Rightarrow> addr \<Rightarrow> int"

text \<open>The for loop that finds the second run: the pointer to it and the size of the first.\<close>

fun skip_run :: "ptr \<Rightarrow> nodes \<Rightarrow> nat \<Rightarrow> ptr \<Rightarrow> nat \<Rightarrow> (ptr \<times> nat) option" where
  "skip_run old H 0 q psize = Some (q, psize)"
| "skip_run old H (Suc n) q psize =
     (case q of
        None \<Rightarrow> None
      | Some a \<Rightarrow>
          Option.bind (c_int (psize + 1)) (\<lambda>psize.
            case next_in old H a of
              None \<Rightarrow> Some (None, psize)
            | Some b \<Rightarrow> skip_run old H n (Some b) psize))"

text \<open>The choice of the next node: the node, and what is left of the two runs.\<close>

definition next_node :: "ptr \<Rightarrow> comparison \<Rightarrow> nodes \<Rightarrow> ptr \<Rightarrow> ptr \<Rightarrow> nat \<Rightarrow> nat \<Rightarrow> (addr \<times> ptr \<times> ptr \<times> nat \<times> nat) option" where
  "next_node old cmp H p q psize qsize =
     (if psize = 0 then
        (case q of None \<Rightarrow> None | Some e \<Rightarrow> Some (e, p, next_in old H e, psize, qsize - 1))
      else if qsize = 0 \<or> q = None then
        (case p of None \<Rightarrow> None | Some e \<Rightarrow> Some (e, next_in old H e, q, psize - 1, qsize))
      else
        (case p of
           None \<Rightarrow> None
         | Some a \<Rightarrow>
             (case q of
                None \<Rightarrow> None
              | Some b \<Rightarrow>
                  if cmp a b \<le> 0 then Some (a, next_in old H a, q, psize - 1, qsize)
                  else Some (b, p, next_in old H b, psize, qsize - 1))))"

definition link_node :: "list_kind \<Rightarrow> nodes \<Rightarrow> ptr \<Rightarrow> ptr \<Rightarrow> addr \<Rightarrow> nodes \<times> ptr" where
  "link_node kind H list tail e =
     (case (case tail of Some t \<Rightarrow> (set_nxt t (Some e) H, list) | None \<Rightarrow> (H, Some e)) of
        (H, list) \<Rightarrow> (if kind = LL then H else set_prv e tail H, list))"

lemma next_node_smaller:
  assumes "next_node old cmp H p q psize qsize = Some (e, p', q', psize', qsize')"
    and "psize > 0 \<or> qsize > 0 \<and> q \<noteq> None"
  shows "psize' + qsize' < psize + qsize"
  using assms by (auto simp: next_node_def split: if_splits option.splits)

text \<open>The loop that merges two runs; its result is the heap, the list, its tail and \<open>q\<close>.\<close>

function merge_loop ::
  "list_kind \<Rightarrow> ptr \<Rightarrow> comparison \<Rightarrow> nodes \<Rightarrow> ptr \<Rightarrow> ptr \<Rightarrow> ptr \<Rightarrow> ptr \<Rightarrow> nat \<Rightarrow> nat \<Rightarrow> (nodes \<times> ptr \<times> ptr \<times> ptr) option" where
  "merge_loop kind old cmp H list tail p q psize qsize =
     (if psize > 0 \<or> qsize > 0 \<and> q \<noteq> None then
        (case next_node old cmp H p q psize qsize of
           None \<Rightarrow> None
         | Some (e, p', q', psize', qsize') \<Rightarrow>
             (case link_node kind H list tail e of
                (H', list') \<Rightarrow> merge_loop kind old cmp H' list' (Some e) p' q' psize' qsize'))
      else Some (H, list, tail, q))"
  by pat_completeness auto
termination
  by (relation "measure (\<lambda>(d, old, cmp, H, l, t, p, q, psize, qsize). psize + qsize)")
    (auto dest: next_node_smaller)

declare merge_loop.simps [simp del]

text \<open>The loop over the pairs of runs, and what is done after it.\<close>

partial_function (option) sort_pass ::
  "list_kind \<Rightarrow> ptr \<Rightarrow> comparison \<Rightarrow> nat \<Rightarrow> nodes \<Rightarrow> ptr \<Rightarrow> ptr \<Rightarrow> nat \<Rightarrow> ptr \<Rightarrow> (nodes \<times> ptr \<times> ptr \<times> nat) option" where
  "sort_pass kind old cmp insize H list tail nmerges p =
     (if p = None then Some (H, list, tail, nmerges)
      else
        Option.bind (c_int (nmerges + 1)) (\<lambda>nmerges.
          Option.bind (skip_run old H insize p 0) (\<lambda>(q, psize).
            Option.bind (merge_loop kind old cmp H list tail p q psize insize) (\<lambda>(H, list, tail, q).
              sort_pass kind old cmp insize H list tail nmerges q))))"

definition end_pass :: "list_kind \<Rightarrow> nodes \<Rightarrow> ptr \<Rightarrow> ptr \<Rightarrow> nodes option" where
  "end_pass kind H list tail =
     (if kind = LL then (case tail of None \<Rightarrow> Some H | Some t \<Rightarrow> Some (set_nxt t None H))
      else
        (case list of
           None \<Rightarrow> None
         | Some l \<Rightarrow>
             (let H = set_prv l tail H
              in case tail of
                   None \<Rightarrow> None
                 | Some t \<Rightarrow> Some (set_nxt t (if kind = CDL then list else None) H))))"

partial_function (option) sort_loop ::
  "list_kind \<Rightarrow> comparison \<Rightarrow> nat \<Rightarrow> nodes \<Rightarrow> ptr \<Rightarrow> (nodes \<times> ptr) option" where
  "sort_loop kind cmp insize H list =
     Option.bind (sort_pass kind (if kind = CDL then list else None) cmp insize H None None 0 list)
       (\<lambda>(H, list, tail, nmerges).
         Option.bind (end_pass kind H list tail) (\<lambda>H.
           Option.bind (c_int (2 * insize)) (\<lambda>insize.
             if nmerges \<le> 1 then Some (H, list) else sort_loop kind cmp insize H list)))"

definition dl_sort :: "comparison \<Rightarrow> nodes \<Rightarrow> ptr \<Rightarrow> (nodes \<times> ptr) option" where
  "dl_sort cmp H list = (if list \<noteq> None then sort_loop DL cmp 1 H list else Some (H, list))"

definition ll_sort :: "comparison \<Rightarrow> nodes \<Rightarrow> ptr \<Rightarrow> (nodes \<times> ptr) option" where
  "ll_sort cmp H list = (if list \<noteq> None then sort_loop LL cmp 1 H list else Some (H, list))"

definition cdl_sort :: "comparison \<Rightarrow> nodes \<Rightarrow> ptr \<Rightarrow> (nodes \<times> ptr) option" where
  "cdl_sort cmp H list = (if list \<noteq> None then sort_loop CDL cmp 1 H list else Some (H, list))"

section \<open>Merge sort on lists\<close>

fun smerge :: "comparison \<Rightarrow> addr list \<Rightarrow> addr list \<Rightarrow> addr list" where
  "smerge cmp [] ys = ys"
| "smerge cmp xs [] = xs"
| "smerge cmp (x # xs) (y # ys) =
     (if cmp x y \<le> 0 then x # smerge cmp xs (y # ys) else y # smerge cmp (x # xs) ys)"

function merge_runs :: "comparison \<Rightarrow> nat \<Rightarrow> addr list \<Rightarrow> addr list" where
  "merge_runs cmp k xs =
     (if xs = [] \<or> k = 0 then xs
      else smerge cmp (take k xs) (take k (drop k xs)) @ merge_runs cmp k (drop (2 * k) xs))"
  by pat_completeness auto
termination by (relation "measure (\<lambda>(cmp, k, xs). length xs)") auto

declare merge_runs.simps [simp del]

text \<open>A comparison by which nodes can be sorted.\<close>

definition preorder_cmp :: "comparison \<Rightarrow> bool" where
  "preorder_cmp cmp \<longleftrightarrow>
     (\<forall>a b c. cmp a b \<le> 0 \<longrightarrow> cmp b c \<le> 0 \<longrightarrow> cmp a c \<le> 0) \<and> (\<forall>a b. cmp a b \<le> 0 \<or> cmp b a \<le> 0)"

definition le_by :: "comparison \<Rightarrow> addr \<Rightarrow> addr \<Rightarrow> bool" where
  "le_by cmp a b \<longleftrightarrow> cmp a b \<le> 0"

definition equal_by :: "comparison \<Rightarrow> addr \<Rightarrow> addr \<Rightarrow> bool" where
  "equal_by cmp a b \<longleftrightarrow> cmp a b \<le> 0 \<and> cmp b a \<le> 0"

text \<open>Sorted, with the same elements, and equal ones in the same order.\<close>

definition sorts :: "comparison \<Rightarrow> addr list \<Rightarrow> addr list \<Rightarrow> bool" where
  "sorts cmp xs ys \<longleftrightarrow> sorted_wrt (le_by cmp) ys \<and> mset ys = mset xs \<and>
     (\<forall>a. filter (equal_by cmp a) ys = filter (equal_by cmp a) xs)"

lemma mset_smerge [simp]: "mset (smerge cmp xs ys) = mset xs + mset ys"
  by (induction cmp xs ys rule: smerge.induct) auto

lemma set_smerge [simp]: "set (smerge cmp xs ys) = set xs \<union> set ys"
  using mset_smerge [of cmp xs ys] by (metis set_mset_mset set_mset_union)

lemma length_smerge [simp]: "length (smerge cmp xs ys) = length xs + length ys"
  by (metis mset_smerge size_mset size_union)

lemma smerge_Nil [simp]: "smerge cmp xs [] = xs"
  by (cases xs) simp_all

lemma sorted_smerge:
  "preorder_cmp cmp \<Longrightarrow> sorted_wrt (le_by cmp) xs \<Longrightarrow> sorted_wrt (le_by cmp) ys \<Longrightarrow>
   sorted_wrt (le_by cmp) (smerge cmp xs ys)"
proof (induction cmp xs ys rule: smerge.induct)
  case (3 cmp x xs y ys)
  have t: "le_by cmp a c" if "le_by cmp a b" "le_by cmp b c" for a b c
    using 3(3) that unfolding preorder_cmp_def le_by_def by blast
  have tot: "le_by cmp b a" if "\<not> cmp a b \<le> 0" for a b
    using 3(3) that unfolding preorder_cmp_def le_by_def by blast
  show ?case
  proof (cases "cmp x y \<le> 0")
    case True
    with 3 have "sorted_wrt (le_by cmp) (smerge cmp xs (y # ys))" by simp
    moreover have "le_by cmp x z" if "z \<in> set xs \<union> set (y # ys)" for z
      using that 3(4,5) True t [of x y z] by (auto simp: le_by_def)
    ultimately show ?thesis using True by simp
  next
    case False
    with 3 have "sorted_wrt (le_by cmp) (smerge cmp (x # xs) ys)" by simp
    moreover have "le_by cmp y z" if "z \<in> set (x # xs) \<union> set ys" for z
      using that 3(4,5) tot [OF False] t [of y x z] by auto
    ultimately show ?thesis using False by simp
  qed
qed simp_all

lemma stable_smerge:
  "preorder_cmp cmp \<Longrightarrow> sorted_wrt (le_by cmp) xs \<Longrightarrow>
   filter (equal_by cmp a) (smerge cmp xs ys) = filter (equal_by cmp a) xs @ filter (equal_by cmp a) ys"
proof (induction cmp xs ys rule: smerge.induct)
  case (3 cmp x xs y ys)
  show ?case
  proof (cases "cmp x y \<le> 0")
    case True
    with 3 show ?thesis by simp
  next
    case False
    have "\<not> equal_by cmp a z" if eq: "equal_by cmp a y" and z: "z \<in> set (x # xs)" for z
    proof
      assume "equal_by cmp a z"
      with eq 3(3) have "cmp z y \<le> 0" unfolding equal_by_def preorder_cmp_def by blast
      moreover have "cmp x z \<le> 0 \<or> z = x" using z 3(4) by (auto simp: le_by_def)
      ultimately show False using False 3(3) unfolding preorder_cmp_def by blast
    qed
    then have "equal_by cmp a y \<Longrightarrow> filter (equal_by cmp a) (x # xs) = []"
      by (auto simp: filter_empty_conv)
    with False 3 show ?thesis by (cases "equal_by cmp a y") auto
  qed
qed simp_all

text \<open>Runs of some length that are sorted.\<close>

function sorted_runs :: "comparison \<Rightarrow> nat \<Rightarrow> addr list \<Rightarrow> bool" where
  "sorted_runs cmp k xs =
     (if xs = [] \<or> k = 0 then True else sorted_wrt (le_by cmp) (take k xs) \<and> sorted_runs cmp k (drop k xs))"
  by pat_completeness auto
termination by (relation "measure (\<lambda>(cmp, k, xs). length xs)") auto

declare sorted_runs.simps [simp del]

lemma merge_runs_elements: "mset (merge_runs cmp k xs) = mset xs"
proof (induction cmp k xs rule: merge_runs.induct)
  case (1 cmp k xs)
  show ?case
  proof (cases "xs = [] \<or> k = 0")
    case False
    have "mset xs = mset (take k xs) + mset (drop k xs)"
      by (metis append_take_drop_id mset_append)
    also have "mset (drop k xs) = mset (take k (drop k xs)) + mset (drop (2 * k) xs)"
      by (metis append_take_drop_id mset_append drop_drop mult_2)
    finally show ?thesis using 1 False by (simp add: merge_runs.simps [of cmp k xs] add.assoc)
  qed (auto simp: merge_runs.simps)
qed

lemma merge_runs_sorted:
  "preorder_cmp cmp \<Longrightarrow> sorted_runs cmp k xs \<Longrightarrow>
   sorted_runs cmp (2 * k) (merge_runs cmp k xs) \<and>
   (\<forall>a. filter (equal_by cmp a) (merge_runs cmp k xs) = filter (equal_by cmp a) xs)"
proof (induction cmp k xs rule: merge_runs.induct)
  case (1 cmp k xs)
  show ?case
  proof (cases "xs = [] \<or> k = 0")
    case True
    then show ?thesis by (auto simp: merge_runs.simps [of cmp k xs] sorted_runs.simps [of cmp "2 * k"])
  next
    case False
    let ?a = "take k xs" and ?b = "take k (drop k xs)" and ?r = "drop (2 * k) xs"
    have a: "sorted_wrt (le_by cmp) ?a" and d: "sorted_runs cmp k (drop k xs)"
      using 1(3) False by (simp_all add: sorted_runs.simps [of cmp k xs])
    have b: "sorted_wrt (le_by cmp) ?b" and r: "sorted_runs cmp k ?r"
    proof -
      have r: "?r = drop k (drop k xs)" by (simp add: mult_2)
      show "sorted_wrt (le_by cmp) ?b" and "sorted_runs cmp k ?r"
        unfolding r using d False
        by (cases "drop k xs = []"; simp add: sorted_runs.simps [of cmp k "drop k xs"] sorted_runs.simps [of cmp k "[]"])+
    qed
    have IH: "sorted_runs cmp (2 * k) (merge_runs cmp k ?r)"
        "filter (equal_by cmp c) (merge_runs cmp k ?r) = filter (equal_by cmp c) ?r" for c
      using 1(1) [OF False 1(2) r] by simp_all
    have m: "merge_runs cmp k xs = smerge cmp ?a ?b @ merge_runs cmp k ?r"
      using False by (simp add: merge_runs.simps [of cmp k xs])
    have cut: "take (2 * k) (merge_runs cmp k xs) = smerge cmp ?a ?b \<and>
        drop (2 * k) (merge_runs cmp k xs) = merge_runs cmp k ?r"
    proof (cases "2 * k \<le> length xs")
      case True
      then show ?thesis by (simp add: m)
    next
      case False
      then show ?thesis by (simp add: m merge_runs.simps [of cmp k "[]"])
    qed
    have "sorted_runs cmp (2 * k) (merge_runs cmp k xs)"
      using cut sorted_smerge [OF 1(2) a b] IH(1) by (simp add: sorted_runs.simps [of cmp "2 * k" "merge_runs cmp k xs"])
    moreover have "filter (equal_by cmp c) (merge_runs cmp k xs) = filter (equal_by cmp c) xs" for c
    proof -
      have "filter (equal_by cmp c) xs = filter (equal_by cmp c) (?a @ ?b @ ?r)"
        by (metis append_take_drop_id drop_drop mult_2)
      then show ?thesis using m IH(2) [of c] stable_smerge [OF 1(2) a, of c ?b] by simp
    qed
    ultimately show ?thesis by simp
  qed
qed

section \<open>The macros on the heap\<close>

text \<open>Nodes that follow each other: some of them, and all to the end.\<close>

fun run_from :: "ptr \<Rightarrow> nodes \<Rightarrow> ptr \<Rightarrow> addr list \<Rightarrow> bool" where
  "run_from old H p [] = True"
| "run_from old H p (x # xs) = (p = Some x \<and> run_from old H (next_in old H x) xs)"

fun rest_from :: "ptr \<Rightarrow> nodes \<Rightarrow> ptr \<Rightarrow> addr list \<Rightarrow> bool" where
  "rest_from old H p [] = (p = None)"
| "rest_from old H p (x # xs) = (p = Some x \<and> rest_from old H (next_in old H x) xs)"

lemma run_cong: "(\<And>x. x \<in> set xs \<Longrightarrow> nxt H' x = nxt H x) \<Longrightarrow> run_from old H' p xs = run_from old H p xs"
  by (induction xs arbitrary: p) (simp_all add: next_in_def)

lemma rest_cong: "(\<And>x. x \<in> set xs \<Longrightarrow> nxt H' x = nxt H x) \<Longrightarrow> rest_from old H' p xs = rest_from old H p xs"
  by (induction xs arbitrary: p) (simp_all add: next_in_def)

lemma rest_None: "rest_from old H None xs \<longleftrightarrow> xs = []"
  by (cases xs) simp_all

lemma rest_run: "rest_from old H p (xs @ ys) \<Longrightarrow> run_from old H p xs"
  by (induction xs arbitrary: p) simp_all

text \<open>The links of the list that has been built.\<close>

fun fwd :: "nodes \<Rightarrow> addr list \<Rightarrow> bool" where
  "fwd H (a # b # as) = (nxt H a = Some b \<and> fwd H (b # as))"
| "fwd H _ = True"

fun bwd :: "nodes \<Rightarrow> addr list \<Rightarrow> bool" where
  "bwd H (a # b # as) = (prv H b = Some a \<and> bwd H (b # as))"
| "bwd H _ = True"

lemma links_fwd_bwd: "links H as \<longleftrightarrow> fwd H as \<and> bwd H as"
  by (induction H as rule: fwd.induct) auto

lemma fwd_snoc: "fwd H (as @ [b]) \<longleftrightarrow> fwd H as \<and> (as \<noteq> [] \<longrightarrow> nxt H (last as) = Some b)"
  by (induction H as rule: fwd.induct) auto

lemma bwd_snoc: "bwd H (as @ [b]) \<longleftrightarrow> bwd H as \<and> (as \<noteq> [] \<longrightarrow> prv H b = Some (last as))"
  by (induction H as rule: bwd.induct) auto

lemma fwd_cong: "(\<And>x. x \<in> set (butlast as) \<Longrightarrow> nxt H' x = nxt H x) \<Longrightarrow> fwd H' as = fwd H as"
  by (induction H as rule: fwd.induct) auto

lemma bwd_cong: "(\<And>x. x \<in> set (tl as) \<Longrightarrow> prv H' x = prv H x) \<Longrightarrow> bwd H' as = bwd H as"
proof (induction H as rule: bwd.induct)
  case (1 H a b as)
  then have "bwd H' (b # as) = bwd H (b # as)" by (intro "1.IH") (cases as; auto)
  with 1 show ?case by simp
qed auto

definition built :: "list_kind \<Rightarrow> nodes \<Rightarrow> ptr \<Rightarrow> ptr \<Rightarrow> addr list \<Rightarrow> bool" where
  "built kind H list tail ds \<longleftrightarrow>
     (if ds = [] then list = None \<and> tail = None
      else list = Some (hd ds) \<and> tail = Some (last ds) \<and> fwd H ds \<and> (kind \<noteq> LL \<longrightarrow> bwd H ds))"

lemma link_built:
  assumes b: "built d H list tail ds" and e: "e \<notin> set ds" and dis: "distinct ds"
    and l: "link_node d H list tail e = (H', list')"
  shows "built d H' list' (Some e) (ds @ [e])" and "x \<notin> set ds \<Longrightarrow> nxt H' x = nxt H x"
proof -
  have *: "built d H' list' (Some e) (ds @ [e]) \<and> (x \<notin> set ds \<longrightarrow> nxt H' x = nxt H x)" for x
  proof (cases "ds = []")
    case True
    with b l show ?thesis by (auto simp: built_def link_node_def)
  next
    case False
    with b have t: "list = Some (hd ds)" "tail = Some (last ds)" "fwd H ds" "d \<noteq> LL \<longrightarrow> bwd H ds"
      by (simp_all add: built_def)
    with l have H': "H' = (if d = LL then set_nxt (last ds) (Some e) H else set_prv e tail (set_nxt (last ds) (Some e) H))"
      "list' = list" by (auto simp: link_node_def)
    have n: "nxt H' = (nxt H)(last ds := Some e)" by (simp add: H')
    have "fwd H' ds = fwd H ds"
      using dis distinct_not_last [of ds] by (intro fwd_cong) (auto simp: n)
    moreover have "bwd H' ds = bwd H ds"
      using e by (intro bwd_cong) (auto simp: H' dest: list.set_sel(2) [OF False])
    moreover have "last ds \<in> set ds" using False by simp
    ultimately show ?thesis
      using False t by (auto simp: built_def fwd_snoc bwd_snoc n H'(2)) (simp_all add: H')
  qed
  from * show "built d H' list' (Some e) (ds @ [e])" by blast
  from * show "x \<notin> set ds \<Longrightarrow> nxt H' x = nxt H x" by blast
qed

text \<open>One step takes the head of the merged list.\<close>

lemma next_node_merge:
  assumes "run_from old H p ps" and "rest_from old H q qs" and "ps \<noteq> [] \<or> n > 0 \<and> qs \<noteq> []"
  obtains e p' q' ps' qs' n' where "next_node old cmp H p q (length ps) n = Some (e, p', q', length ps', n')"
    and "run_from old H p' ps'" and "rest_from old H q' qs'"
    and "smerge cmp ps (take n qs) = e # smerge cmp ps' (take n' qs')" and "drop n' qs' = drop n qs"
    and "ps = e # ps' \<and> qs' = qs \<and> n' = n \<or> ps' = ps \<and> qs = e # qs' \<and> n = Suc n'"
proof -
  consider (second) m y ys where "ps = []" "n = Suc m" "qs = y # ys"
    | (first) x xs where "ps = x # xs" "n = 0 \<or> qs = []"
    | (both) x xs m y ys where "ps = x # xs" "n = Suc m" "qs = y # ys"
    using assms(3) by (cases ps; cases qs; cases n) auto
  then show ?thesis
  proof cases
    case second
    with assms show ?thesis
      by (intro that [of y p "next_in old H y" "[]" m ys]) (auto simp: next_node_def)
  next
    case first
    with assms have "q = None \<or> n = 0" by (cases qs) auto
    with first assms show ?thesis
      by (intro that [of x "next_in old H x" q xs n qs]) (auto simp: next_node_def)
  next
    case both
    show ?thesis
    proof (cases "cmp x y \<le> 0")
      case True
      with both assms show ?thesis
        by (intro that [of x "next_in old H x" q xs n qs]) (auto simp: next_node_def)
    next
      case False
      with both assms show ?thesis
        by (intro that [of y p "next_in old H y" ps m ys]) (auto simp: next_node_def)
    qed
  qed
qed

lemma merge_loop_merges:
  assumes "run_from old H p ps" and "rest_from old H q qs" and "built d H list tail ds"
    and "distinct (ds @ ps @ qs)"
  shows "\<exists>H' list' tail' q'. merge_loop d old cmp H list tail p q (length ps) n = Some (H', list', tail', q') \<and>
    built d H' list' tail' (ds @ smerge cmp ps (take n qs)) \<and> rest_from old H' q' (drop n qs)"
  using assms
proof (induction "length ps + n" arbitrary: H list tail p q ps n qs ds rule: less_induct)
  case less
  show ?case
  proof (cases "ps \<noteq> [] \<or> n > 0 \<and> qs \<noteq> []")
    case False
    moreover have "q = None \<longleftrightarrow> qs = []" using less.prems(2) by (cases qs) auto
    ultimately show ?thesis
      using less.prems by (auto simp: merge_loop.simps [of d old cmp H list tail p q])
  next
    case True
    obtain e p' q' ps' qs' n' where nn: "next_node old cmp H p q (length ps) n = Some (e, p', q', length ps', n')"
      and run: "run_from old H p' ps'" and rest: "rest_from old H q' qs'"
      and m: "smerge cmp ps (take n qs) = e # smerge cmp ps' (take n' qs')" and dr: "drop n' qs' = drop n qs"
      and sp: "ps = e # ps' \<and> qs' = qs \<and> n' = n \<or> ps' = ps \<and> qs = e # qs' \<and> n = Suc n'"
      using next_node_merge [OF less.prems(1,2) True] by metis
    obtain H1 list1 where ln: "link_node d H list tail e = (H1, list1)" by fastforce
    have e: "e \<notin> set ds" "distinct ds" and dis: "distinct ((ds @ [e]) @ ps' @ qs')"
      using sp less.prems(4) by auto
    note lb = link_built [OF less.prems(3) e ln]
    have "run_from old H1 p' ps' = run_from old H p' ps'" "rest_from old H1 q' qs' = rest_from old H q' qs'"
      using dis by (auto intro!: run_cong rest_cong lb(2))
    with run rest have "run_from old H1 p' ps'" "rest_from old H1 q' qs'" by simp_all
    moreover have "length ps' + n' < length ps + n" using sp by auto
    ultimately obtain H' list' tail' q'' where
      "merge_loop d old cmp H1 list1 (Some e) p' q' (length ps') n' = Some (H', list', tail', q'')"
      "built d H' list' tail' ((ds @ [e]) @ smerge cmp ps' (take n' qs'))" "rest_from old H' q'' (drop n' qs')"
      using less.hyps [of ps' n' H1 p' q' qs' list1 "Some e" "ds @ [e]"] lb(1) dis by blast
    moreover have "length ps > 0 \<or> n > 0 \<and> q \<noteq> None"
      using True less.prems(2) by (cases qs) auto
    ultimately show ?thesis
      using nn ln m dr by (simp add: merge_loop.simps [of d old cmp H list tail p q])
  qed
qed

lemma skip_run_run:
  assumes "rest_from old H p xs" and "xs \<noteq> []" and "k + length (take n xs) \<le> INT_MAX"
  shows "\<exists>q. skip_run old H n p k = Some (q, k + length (take n xs)) \<and> rest_from old H q (drop n xs)"
  using assms
proof (induction n arbitrary: p xs k)
  case (Suc n)
  then obtain x xs' where xs: "xs = x # xs'" "p = Some x" "rest_from old H (next_in old H x) xs'" by (cases xs) auto
  show ?case
  proof (cases xs')
    case Nil
    with xs Suc.prems show ?thesis by (simp add: c_int_def)
  next
    case (Cons y ys)
    with Suc.IH [OF xs(3), of "k + 1"] xs Suc.prems show ?thesis by (auto simp: c_int_def)
  qed
qed simp

lemma three_runs: "take k xs @ take k (drop k xs) @ drop (2 * k) xs = xs"
  by (metis append_take_drop_id drop_drop mult_2)

lemma sort_pass_merges:
  assumes "k > 0" and "rest_from old H p rs" and "built d H list tail ds" and "distinct (ds @ rs)"
    and "n + length rs \<le> INT_MAX"
  shows "\<exists>H' list' tail' n'. sort_pass d old cmp k H list tail n p = Some (H', list', tail', n') \<and>
    built d H' list' tail' (ds @ merge_runs cmp k rs) \<and> (if rs = [] then n' = n else n < n') \<and>
    (n' \<le> n + 1 \<longleftrightarrow> length rs \<le> 2 * k)"
  using assms(2-)
proof (induction "length rs" arbitrary: H list tail p rs ds n rule: less_induct)
  case less
  show ?case
  proof (cases "rs = []")
    case True
    with less.prems show ?thesis by (simp add: sort_pass.simps merge_runs.simps)
  next
    case False
    let ?a = "take k rs" and ?b = "take k (drop k rs)" and ?r = "drop (2 * k) rs"
    have "0 + length ?a \<le> INT_MAX" using less.prems(4) by (simp add: min_def)
    from skip_run_run [OF less.prems(1) False this] obtain q where
      adv: "skip_run old H k p 0 = Some (q, length ?a)" and q: "rest_from old H q (drop k rs)" by auto
    have run: "run_from old H p ?a" using less.prems(1) rest_run [of old H p ?a "drop k rs"] by simp
    have dis: "distinct (ds @ ?a @ drop k rs)" using less.prems(3) by simp
    have "drop k (drop k rs) = ?r" by (simp add: mult_2)
    with merge_loop_merges [OF run q less.prems(2) dis, of cmp k] obtain H1 list1 tail1 q1 where
      ml: "merge_loop d old cmp H list tail p q (length ?a) k = Some (H1, list1, tail1, q1)"
      and b1: "built d H1 list1 tail1 (ds @ smerge cmp ?a ?b)" and r1: "rest_from old H1 q1 ?r"
      by metis
    have "mset rs = mset ?a + mset ?b + mset ?r"
      using arg_cong [OF three_runs [of k rs], of mset] by (simp only: mset_append add.assoc)
    then have "mset ((ds @ smerge cmp ?a ?b) @ ?r) = mset (ds @ rs)" by (simp add: add.assoc)
    then have d1: "distinct ((ds @ smerge cmp ?a ?b) @ ?r)"
      using less.prems(3) mset_eq_imp_distinct_iff by blast
    have sm: "length ?r < length rs" using False assms(1) by simp
    then have "n + 1 + length ?r \<le> INT_MAX" using less.prems(4) by simp
    from less.hyps [OF sm r1 b1 d1 this] obtain H' list' tail' n' where
      "sort_pass d old cmp k H1 list1 tail1 (n + 1) q1 = Some (H', list', tail', n')"
      "built d H' list' tail' ((ds @ smerge cmp ?a ?b) @ merge_runs cmp k ?r)"
      and n': "if ?r = [] then n' = n + 1 else n + 1 < n'" by blast
    moreover have "n' \<le> n + 1 \<longleftrightarrow> length rs \<le> 2 * k" and "n < n'"
      using n' by (auto split: if_splits)
    moreover have "p \<noteq> None" using less.prems(1) False by (cases rs) auto
    moreover have "merge_runs cmp k rs = smerge cmp ?a ?b @ merge_runs cmp k ?r"
      using False assms(1) by (simp add: merge_runs.simps [of cmp k rs])
    ultimately show ?thesis
      using adv ml False less.prems(4)
      by (cases rs) (simp_all add: sort_pass.simps [of d old cmp k H list tail n p] c_int_def)
  qed
qed

text \<open>A list of one of the three kinds.\<close>

definition list_of :: "list_kind \<Rightarrow> nodes \<Rightarrow> ptr \<Rightarrow> addr list \<Rightarrow> bool" where
  "list_of kind = (case kind of LL \<Rightarrow> ll | DL \<Rightarrow> dl | CDL \<Rightarrow> cdl)"

lemma rest_path: "rest_from None H p xs \<longleftrightarrow> path H p xs None"
  by (induction xs arbitrary: p) simp_all

lemma rest_circular: "path H p xs (Some h) \<Longrightarrow> h \<notin> set (tl xs) \<Longrightarrow> xs \<noteq> [] \<Longrightarrow> rest_from (Some h) H p xs"
proof (induction xs arbitrary: p)
  case (Cons x xs)
  then show ?case by (cases xs) (auto simp: next_in_def)
qed simp

lemma list_of_rest:
  assumes "list_of kind H head xs"
  shows "distinct xs \<and> rest_from (if kind = CDL then head else None) H head xs"
proof (cases kind)
  case CDL
  show ?thesis
  proof (cases xs)
    case (Cons a as)
    with assms CDL have "path H head xs (Some a)" "head = Some a" "distinct xs"
      by (auto simp: list_of_def cdl_def)
    with CDL Cons rest_circular [of H head xs a] show ?thesis by simp
  qed (use assms CDL in \<open>simp add: list_of_def cdl_def\<close>)
qed (use assms in \<open>auto simp: list_of_def ll_def dl_path rest_path\<close>)

lemma path_fwd: "xs \<noteq> [] \<Longrightarrow> path H (Some (hd xs)) xs q \<longleftrightarrow> fwd H xs \<and> nxt H (last xs) = q"
  by (induction H xs rule: fwd.induct) auto

lemma prevs_bwd: "xs \<noteq> [] \<Longrightarrow> prevs H p xs \<longleftrightarrow> prv H (hd xs) = Some p \<and> bwd H xs"
  by (induction H xs arbitrary: p rule: bwd.induct) auto

lemma end_pass_built:
  assumes "built d H list tail xs" and "xs \<noteq> []" and "distinct xs"
  shows "\<exists>H'. end_pass d H list tail = Some H' \<and> list_of d H' list xs"
proof -
  have b: "list = Some (hd xs)" "tail = Some (last xs)" "fwd H xs" "d \<noteq> LL \<longrightarrow> bwd H xs"
    using assms by (simp_all add: built_def)
  define H' where "H' = set_nxt (last xs) (if d = CDL then list else None) (if d = LL then H else set_prv (hd xs) tail H)"
  have e: "end_pass d H list tail = Some H'"
    by (cases d) (simp_all add: end_pass_def b H'_def Let_def)
  have "fwd H' xs = fwd H xs"
    using distinct_not_last [OF assms(3)] by (intro fwd_cong) (auto simp: H'_def)
  moreover have "bwd H' xs = bwd H xs"
    using distinct_not_hd [OF assms(3)] by (intro bwd_cong) (auto simp: H'_def)
  moreover have "nxt H' (last xs) = (if d = CDL then list else None)" by (simp add: H'_def)
  moreover have "d \<noteq> LL \<Longrightarrow> prv H' (hd xs) = Some (last xs)" by (simp add: H'_def b)
  ultimately have "list_of d H' list xs"
    using b assms(2,3)
    by (cases d) (simp_all add: list_of_def ll_def dl_path cdl_def path_fwd prevs_bwd)
  with e show ?thesis by blast
qed

lemma sort_loop_sorts:
  assumes cmp: "preorder_cmp cmp"
  shows "\<lbrakk>k > 0; list_of d H head xs; xs \<noteq> []; sorted_runs cmp k xs;
      2 * k \<le> INT_MAX; length xs \<le> 2 ^ 30\<rbrakk> \<Longrightarrow>
    \<exists>H' head' ys. sort_loop d cmp k H head = Some (H', head') \<and> list_of d H' head' ys \<and> sorts cmp xs ys"
proof (induction "length xs - k" arbitrary: k H head xs rule: less_induct)
  case less
  let ?ys = "merge_runs cmp k xs" and ?old = "if d = CDL then head else None"
  have ms: "mset ?ys = mset xs" by (rule merge_runs_elements)
  have runs: "sorted_runs cmp (2 * k) ?ys" "\<And>a. filter (equal_by cmp a) ?ys = filter (equal_by cmp a) xs"
    using merge_runs_sorted [OF cmp less.prems(4)] by simp_all
  have ne: "?ys \<noteq> []" and len: "length ?ys = length xs"
    using ms less.prems(3) by (metis mset_zero_iff) (metis ms size_mset)
  have dis: "distinct ?ys" using ms list_of_rest [OF less.prems(2)] mset_eq_imp_distinct_iff by blast
  obtain H1 list1 tail1 n where
    p: "sort_pass d ?old cmp k H None None 0 head = Some (H1, list1, tail1, n)" and b: "built d H1 list1 tail1 ?ys"
    and n: "n \<le> 1 \<longleftrightarrow> length xs \<le> 2 * k"
    using sort_pass_merges [of k ?old H head xs d None None "[]" 0 cmp] less.prems list_of_rest [OF less.prems(2)]
    by (auto simp: built_def INT_MAX_def)
  from end_pass_built [OF b ne dis] obtain H2 where
    e: "end_pass d H1 list1 tail1 = Some H2" and s: "list_of d H2 list1 ?ys" by blast
  show ?case
  proof (cases "n \<le> 1")
    case True
    with n have "length ?ys \<le> 2 * k" by (simp add: len)
    then have "sorted_wrt (le_by cmp) ?ys"
      using runs(1) ne less.prems(1) by (simp add: sorted_runs.simps [of cmp "2 * k"])
    with ms runs(2) have "sorts cmp xs ?ys" by (simp add: sorts_def)
    with p e s True less.prems(5) show ?thesis by (auto simp: sort_loop.simps [of d cmp k] c_int_def)
  next
    case False
    with n less.prems(1) have "length ?ys - 2 * k < length xs - k" by (simp add: len)
    moreover have "2 * (2 * k) \<le> INT_MAX" "length ?ys \<le> 2 ^ 30"
      using False n less.prems(6) by (simp_all add: len INT_MAX_def)
    ultimately obtain H' head' ys where
      r: "sort_loop d cmp (2 * k) H2 list1 = Some (H', head')" "list_of d H' head' ys" "sorts cmp ?ys ys"
      using less.hyps [of ?ys "2 * k" H2 list1] s ne runs(1) less.prems(1) by auto
    from r(3) ms runs(2) have "sorts cmp xs ys" by (simp add: sorts_def)
    with r p e False less.prems(5) show ?thesis by (auto simp: sort_loop.simps [of d cmp k] c_int_def)
  qed
qed

lemma sorted_runs_one: "sorted_runs cmp 1 xs"
proof (induction xs)
  case (Cons x xs)
  then show ?case by (simp add: sorted_runs.simps [of cmp "Suc 0" "x # xs"])
qed (simp add: sorted_runs.simps)

lemma sorts_Nil: "sorts cmp [] []"
  by (simp add: sorts_def)

lemma list_sorted:
  assumes "list_of d H head xs" and "preorder_cmp cmp" and "length xs \<le> 2 ^ 30"
  shows "\<exists>H' head' ys. (if head \<noteq> None then sort_loop d cmp 1 H head else Some (H, head)) = Some (H', head') \<and>
    list_of d H' head' ys \<and> sorts cmp xs ys"
proof (cases head)
  case None
  with list_of_rest [OF assms(1)] have "xs = []" by (cases xs) auto
  with None assms(1) show ?thesis by (auto intro!: exI [of _ "[]"] sorts_Nil)
next
  case (Some h)
  have "xs \<noteq> []"
  proof
    assume "xs = []"
    with assms(1) Some show False by (cases d) (simp_all add: list_of_def ll_def cdl_def dl_Some)
  qed
  with assms sort_loop_sorts [OF assms(2) _ _ _ sorted_runs_one, of d H head xs] Some show ?thesis
    by (simp add: INT_MAX_def)
qed

section \<open>Properties\<close>

text \<open>
  C27: The three sort macros sort, for every comparison that is a total preorder
  and every list of at most 2^30 nodes: LL_SORT, DL_SORT and CDL_SORT end, never
  follow a NULL pointer, overflow none of their counters, and leave a well formed
  list of their kind with the same nodes, in the order of the comparison, in which
  nodes that compare equal keep their order.
\<close>

theorem macros_sort:
  assumes "list_of kind H head xs" and "preorder_cmp cmp" and "length xs \<le> 2 ^ 30"
  shows "\<exists>H' head' ys.
    (case kind of LL \<Rightarrow> ll_sort | DL \<Rightarrow> dl_sort | CDL \<Rightarrow> cdl_sort) cmp H head = Some (H', head') \<and>
    list_of kind H' head' ys \<and> sorts cmp xs ys"
proof -
  have "(case kind of LL \<Rightarrow> ll_sort | DL \<Rightarrow> dl_sort | CDL \<Rightarrow> cdl_sort) cmp H head =
    (if head \<noteq> None then sort_loop kind cmp 1 H head else Some (H, head))"
    by (cases kind) (simp_all add: ll_sort_def dl_sort_def cdl_sort_def)
  then show ?thesis using list_sorted [OF assms] by (simp only:)
qed

theorem macros_sort_witness:
  "\<exists>H' head'. dl_sort (\<lambda>a b. int b - int a) \<lparr>nxt = (\<lambda>_. None)(1 \<mapsto> 2), prv = (\<lambda>_. None)(1 \<mapsto> 2, 2 \<mapsto> 1)\<rparr> (Some 1) =
     Some (H', head') \<and> dl H' head' [2, 1]"
proof -
  let ?H = "\<lparr>nxt = (\<lambda>_. None)(1 \<mapsto> 2), prv = (\<lambda>_. None)(1 \<mapsto> 2, 2 \<mapsto> 1)\<rparr> :: nodes"
  have "dl ?H (Some 1) [1, 2]" by (simp add: dl_Some)
  moreover have "preorder_cmp (\<lambda>a b. int b - int a)" by (auto simp: preorder_cmp_def)
  ultimately obtain H' head' ys where r: "dl_sort (\<lambda>a b. int b - int a) ?H (Some 1) = Some (H', head')"
    "dl H' head' ys" "sorts (\<lambda>a b. int b - int a) [1, 2] ys" using macros_sort [of DL ?H "Some 1" "[1, 2]" "\<lambda>a b. int b - int a"]
    by (auto simp: list_of_def)
  moreover have "le_by (\<lambda>a b. int b - int a) = (\<lambda>a b. b \<le> a)" by (simp add: fun_eq_iff le_by_def)
  ultimately have "mset ys = mset [1, 2]" and s: "sorted_wrt (\<lambda>a b. b \<le> a) ys"
    by (simp_all add: sorts_def)
  then have "length ys = 2" "set ys = {1, 2}" by (metis length_Cons list.size(3) numeral_2_eq_2 size_mset) (metis \<open>mset ys = _\<close> set_mset_mset list.simps(15) empty_set)
  then obtain a b where "ys = [a, b]" by (auto simp: numeral_2_eq_2 length_Suc_conv)
  with \<open>set ys = {1, 2}\<close> s have "ys = [2, 1]" by (auto simp: doubleton_eq_iff)
  with r show ?thesis by auto
qed

text \<open>
  The bound is exact: with one node more the doubling of \<open>insize\<close> overflows, before
  the list is sorted.
\<close>

lemma sort_loop_overflows:
  "\<lbrakk>k * 2 ^ i = 2 ^ 30; list_of d H head xs; 2 ^ 30 < length xs; length xs \<le> INT_MAX\<rbrakk> \<Longrightarrow>
   sort_loop d cmp k H head = None"
proof (induction i arbitrary: k H head xs)
  case (0 k H head xs)
  have "c_int (2 * k) = None" using 0(1) by (simp add: c_int_def INT_MAX_def)
  then show ?case
    by (simp add: sort_loop.simps [of d cmp k] bind_eq_None_conv split: prod.split)
next
  case (Suc i k H head xs)
  let ?ys = "merge_runs cmp k xs" and ?old = "if d = CDL then head else None"
  have k: "k > 0" using Suc.prems(1) by (cases k) simp_all
  have "2 * k * 1 \<le> 2 * k * 2 ^ i" by (intro mult_le_mono2) simp
  moreover have "2 * k * 2 ^ i = k * 2 ^ Suc i" by simp
  ultimately have k2: "2 * k \<le> 2 ^ 30" unfolding Suc.prems(1) by simp
  have ms: "mset ?ys = mset xs" by (rule merge_runs_elements)
  have len: "length ?ys = length xs" using ms by (metis size_mset)
  have ne: "?ys \<noteq> []" using len Suc.prems(3) by auto
  have dis: "distinct ?ys" using ms list_of_rest [OF Suc.prems(2)] mset_eq_imp_distinct_iff by blast
  obtain H1 list1 tail1 n where
    p: "sort_pass d ?old cmp k H None None 0 head = Some (H1, list1, tail1, n)" and b: "built d H1 list1 tail1 ?ys"
    and n: "n \<le> 1 \<longleftrightarrow> length xs \<le> 2 * k"
    using sort_pass_merges [of k ?old H head xs d None None "[]" 0 cmp] k Suc.prems list_of_rest [OF Suc.prems(2)]
    by (auto simp: built_def)
  from end_pass_built [OF b ne dis] obtain H2 where
    e: "end_pass d H1 list1 tail1 = Some H2" and s: "list_of d H2 list1 ?ys" by blast
  have "sort_loop d cmp (2 * k) H2 list1 = None"
    using Suc.IH [OF _ s] Suc.prems by (simp add: len mult.assoc mult.left_commute)
  moreover have "\<not> n \<le> 1" using n k2 Suc.prems(3) by simp
  ultimately show ?case
    using p e by (simp add: sort_loop.simps [of d cmp k] c_int_def)
qed

end
