(* ===== verification/Clib.thy ===== *)
theory Clib
  imports Prelude "HOL-Library.Char_ord" "HOL-Library.List_Lexorder"
begin

text \<open>
  The functions of the C library that pflask computes with, as the C and POSIX
  standards define them: the string scanners strspn, strcspn, strtok_r, strncmp,
  strcasecmp and memcmp, the conversions \<open>%u\<close>/\<open>%d\<close>/\<open>%lu\<close> of the printf family,
  and strtoul.  Comparison functions return a sign, which is all the standard
  promises of their value.
\<close>

section \<open>Scanning\<close>

definition strspn :: "cstring \<Rightarrow> cstring \<Rightarrow> nat" where
  "strspn s accept = length (takeWhile (\<lambda>c. c \<in> set accept) s)"

definition strcspn :: "cstring \<Rightarrow> cstring \<Rightarrow> nat" where
  "strcspn s reject = length (takeWhile (\<lambda>c. c \<notin> set reject) s)"

lemma drop_strspn: "drop (strspn s d) s = dropWhile (\<lambda>c. c \<in> set d) s"
  unfolding strspn_def by (rule dropWhile_eq_drop [symmetric])

lemma drop_strcspn: "drop (strcspn s d) s = dropWhile (\<lambda>c. c \<notin> set d) s"
  unfolding strcspn_def by (rule dropWhile_eq_drop [symmetric])

lemma take_strcspn: "take (strcspn s d) s = takeWhile (\<lambda>c. c \<notin> set d) s"
  unfolding strcspn_def by (rule takeWhile_eq_take [symmetric])

text \<open>
  strtok_r: skip delimiters; NULL when nothing is left, otherwise the token and
  the string where the next call goes on.
\<close>

definition strtok :: "cstring \<Rightarrow> cstring \<Rightarrow> (cstring \<times> cstring) option" where
  "strtok s d =
     (let s' = dropWhile (\<lambda>c. c \<in> set d) s
      in if s' = [] then None
         else Some (takeWhile (\<lambda>c. c \<notin> set d) s',
                    drop 1 (dropWhile (\<lambda>c. c \<notin> set d) s')))"

lemma strtok_shorter: "strtok s d = Some (t, r) \<Longrightarrow> length r < length s"
proof -
  assume a: "strtok s d = Some (t, r)"
  define s' where "s' = dropWhile (\<lambda>c. c \<in> set d) s"
  have r: "r = drop 1 (dropWhile (\<lambda>c. c \<notin> set d) s')" and ne: "s' \<noteq> []"
    using a by (auto simp: strtok_def s'_def Let_def split: if_splits)
  have "length s' \<le> length s" by (simp add: s'_def length_dropWhile_le)
  moreover have "length (dropWhile (\<lambda>c. c \<notin> set d) s') \<le> length s'"
    by (rule length_dropWhile_le)
  moreover have "0 < length s'" using ne by simp
  ultimately show ?thesis unfolding r length_drop by linarith
qed

text \<open>All the tokens of a string, as successive calls return them.\<close>

function tokens :: "cstring \<Rightarrow> cstring \<Rightarrow> cstring list" where
  "tokens d s = (case strtok s d of None \<Rightarrow> [] | Some (t, r) \<Rightarrow> t # tokens d r)"
  by pat_completeness auto
termination
  by (relation "measure (\<lambda>(d, s). length s)") (auto dest: strtok_shorter)

declare tokens.simps [simp del]

lemma tokens_None: "strtok s d = None \<Longrightarrow> tokens d s = []"
  by (simp add: tokens.simps)

lemma tokens_Some: "strtok s d = Some (t, r) \<Longrightarrow> tokens d s = t # tokens d r"
  by (simp add: tokens.simps)

lemma strtok_Nil [simp]: "strtok [] d = None"
  by (simp add: strtok_def)

lemma tokens_Nil [simp]: "tokens d [] = []"
  by (simp add: tokens_None)

lemma strtok_None_iff: "strtok s d = None \<longleftrightarrow> set s \<subseteq> set d"
  by (auto simp: strtok_def Let_def dropWhile_eq_Nil_conv split: if_splits)

lemma strtok_token:
  "strtok s d = Some (t, r) \<Longrightarrow> t \<noteq> [] \<and> set t \<inter> set d = {} \<and> set t \<subseteq> set s"
proof -
  assume a: "strtok s d = Some (t, r)"
  define s' where "s' = dropWhile (\<lambda>c. c \<in> set d) s"
  have t: "t = takeWhile (\<lambda>c. c \<notin> set d) s'" and ne: "s' \<noteq> []"
    using a by (auto simp: strtok_def s'_def Let_def split: if_splits)
  have "hd s' \<notin> set d" using hd_dropWhile ne unfolding s'_def by fast
  with ne have "t \<noteq> []" by (cases s') (auto simp: t)
  moreover have "set t \<inter> set d = {}" by (auto simp: t dest: set_takeWhileD)
  moreover have "set t \<subseteq> set s"
    by (auto simp: t s'_def dest: set_takeWhileD set_dropWhileD)
  ultimately show ?thesis by blast
qed

lemma tokens_good: "t \<in> set (tokens d s) \<Longrightarrow> t \<noteq> [] \<and> set t \<inter> set d = {}"
proof (induction d s rule: tokens.induct)
  case (1 d s)
  show ?case
  proof (cases "strtok s d")
    case None
    with "1.prems" show ?thesis by (simp add: tokens_None)
  next
    case (Some p)
    then obtain u r where p: "strtok s d = Some (u, r)" by (cases p) auto
    with "1.prems" have "t = u \<or> t \<in> set (tokens d r)" by (simp add: tokens_Some)
    then show ?thesis using "1.IH" [OF p refl] strtok_token [OF p] by blast
  qed
qed

lemma strtok_delim: "c \<in> set d \<Longrightarrow> strtok (c # s) d = strtok s d"
  by (simp add: strtok_def)

lemma tokens_delim: "c \<in> set d \<Longrightarrow> tokens d (c # s) = tokens d s"
  by (subst (1 2) tokens.simps) (simp add: strtok_delim)

lemma strtok_field:
  assumes "t \<noteq> []" "set t \<inter> set d = {}" "c \<in> set d"
  shows "strtok (t @ c # s) d = Some (t, s)" and "strtok t d = Some (t, [])"
proof -
  have tw: "takeWhile (\<lambda>c. c \<notin> set d) (t @ c # s) = t"
    "dropWhile (\<lambda>c. c \<notin> set d) (t @ c # s) = c # s"
    using assms by (auto simp: takeWhile_append dropWhile_append)
  have sp: "dropWhile (\<lambda>c. c \<in> set d) (t @ u) = t @ u" for u
    using assms by (cases t) auto
  have sp0: "dropWhile (\<lambda>c. c \<in> set d) t = t" using sp [of "[]"] by simp
  have tk: "dropWhile (\<lambda>c. c \<notin> set d) t = []" "takeWhile (\<lambda>c. c \<notin> set d) t = t"
    using assms by (auto simp: dropWhile_eq_Nil_conv takeWhile_eq_all_conv)
  show "strtok (t @ c # s) d = Some (t, s)"
    unfolding strtok_def Let_def sp tw using assms(1) by simp
  show "strtok t d = Some (t, [])"
    unfolding strtok_def Let_def sp0 tk using assms(1) by simp
qed

text \<open>The token and the rest, in terms of strspn and strcspn.\<close>

lemma skipped:
  assumes "a = drop (strspn s d) s"
  shows "dropWhile (\<lambda>c. c \<in> set d) s = a" and "a \<noteq> [] \<Longrightarrow> hd a \<notin> set d"
proof -
  show e: "dropWhile (\<lambda>c. c \<in> set d) s = a" by (simp only: assms drop_strspn)
  show "a \<noteq> [] \<Longrightarrow> hd a \<notin> set d"
    using hd_dropWhile [of "\<lambda>c. c \<in> set d" s] unfolding e by blast
qed

lemma strcspn_pos:
  assumes "a = drop (strspn s d) s" "a \<noteq> []"
  shows "0 < strcspn a d"
proof -
  have "hd a \<notin> set d" using assms by (rule skipped(2))
  with \<open>a \<noteq> []\<close> show ?thesis by (cases a) (simp_all add: strcspn_def)
qed

lemma tokens_spn_Nil:
  assumes "drop (strspn s d) s = []"
  shows "tokens d s = []"
proof (rule tokens_None)
  have "dropWhile (\<lambda>c. c \<in> set d) s = []" using assms by (simp only: drop_strspn)
  then show "strtok s d = None" by (simp only: strtok_def Let_def if_True simp_thms)
qed

lemma strtok_spn:
  assumes "a = drop (strspn s d) s" "a \<noteq> []"
  shows "strtok s d = Some (takeWhile (\<lambda>c. c \<notin> set d) a,
                           drop 1 (dropWhile (\<lambda>c. c \<notin> set d) a))"
  unfolding strtok_def Let_def skipped(1) [OF assms(1)] using assms(2) by simp

lemma dropWhile_delim:
  "dropWhile (\<lambda>c. c \<notin> set d) a = [] \<or>
   (\<exists>c r. dropWhile (\<lambda>c. c \<notin> set d) a = c # r \<and> c \<in> set d)"
  using hd_dropWhile [of "\<lambda>c. c \<notin> set d" a] by (cases "dropWhile (\<lambda>c. c \<notin> set d) a") auto

lemma tokens_spn:
  assumes "a = drop (strspn s d) s" "a \<noteq> []"
  shows "tokens d s = take (strcspn a d) a # tokens d (drop (strcspn a d) a)"
proof -
  let ?r = "dropWhile (\<lambda>c. c \<notin> set d) a"
  have "tokens d (drop 1 ?r) = tokens d ?r"
    using dropWhile_delim [of d a] by (elim disjE exE conjE) (simp_all only: drop_Suc_Cons
      drop_0 One_nat_def drop_Nil tokens_delim)
  then show ?thesis
    using strtok_spn [OF assms] by (simp only: tokens_Some take_strcspn drop_strcspn)
qed

text \<open>A delimiter separates the tokens before it from the tokens after it.\<close>

lemma tokens_append:
  assumes "c \<in> set d"
  shows "tokens d (p @ c # q) = tokens d p @ tokens d q"
  using assms
proof (induction d p rule: tokens.induct)
  case (1 d p)
  define P where "P = (\<lambda>c. c \<in> set d)"
  define Q where "Q = (\<lambda>c. c \<notin> set d)"
  have Q: "Q x \<longleftrightarrow> \<not> P x" for x by (simp add: P_def Q_def)
  have strtok: "strtok s d = (let s' = dropWhile P s in if s' = [] then None
      else Some (takeWhile Q s', drop 1 (dropWhile Q s')))" for s
    by (simp only: strtok_def P_def Q_def)
  have c: "P c" using 1 by (simp add: P_def)
  show ?case
  proof (cases "dropWhile P p = []")
    case True
    then have "strtok (p @ c # q) d = strtok q d" "strtok p d = None"
      using c by (auto simp: strtok dropWhile_append)
    then show ?thesis by (subst (1 2 3) tokens.simps) (simp split: option.split)
  next
    case False
    define a where "a = dropWhile P p"
    have p: "strtok p d = Some (takeWhile Q a, drop 1 (dropWhile Q a))"
      using False unfolding strtok Let_def a_def [symmetric] by simp
    have ac: "dropWhile P (p @ c # q) = a @ c # q"
      using False by (auto simp: a_def dropWhile_append)
    show ?thesis
    proof (cases "dropWhile Q a = []")
      case True
      then have "takeWhile Q a = a" "dropWhile Q (a @ c # q) = c # q" "takeWhile Q (a @ c # q) = a"
        using c Q by (auto simp: takeWhile_eq_all_conv takeWhile_append dropWhile_append)
      then have "strtok (p @ c # q) d = Some (a, q)"
        using False unfolding strtok Let_def ac a_def [symmetric] by simp
      with p True \<open>takeWhile Q a = a\<close> show ?thesis by (simp add: tokens_Some)
    next
      case nz: False
      then obtain e r where e: "dropWhile Q a = e # r" by (cases "dropWhile Q a") auto
      have "\<not> (\<forall>x \<in> set a. Q x)" using nz by (auto simp: dropWhile_eq_Nil_conv)
      then have "takeWhile Q (a @ c # q) = takeWhile Q a"
        "dropWhile Q (a @ c # q) = dropWhile Q a @ c # q"
        by (auto simp: takeWhile_append dropWhile_append)
      then have "strtok (p @ c # q) d = Some (takeWhile Q a, r @ c # q)"
        using e unfolding strtok Let_def ac by simp
      moreover have p': "strtok p d = Some (takeWhile Q a, r)" using p e by simp
      moreover have "tokens d (r @ c # q) = tokens d r @ tokens d q"
        using "1.IH" [OF p' refl] "1.prems" by simp
      ultimately show ?thesis by (simp add: tokens_Some)
    qed
  qed
qed

text \<open>Fields joined by a separator.\<close>

fun join :: "char \<Rightarrow> cstring list \<Rightarrow> cstring" where
  "join c [] = []"
| "join c [t] = t"
| "join c (t # u # us) = t @ c # join c (u # us)"

lemma tokens_join:
  assumes "\<And>t. t \<in> set ts \<Longrightarrow> t \<noteq> [] \<and> c \<notin> set t"
  shows "tokens [c] (join c ts) = ts"
  using assms
proof (induction c ts rule: join.induct)
  case (2 c t)
  then show ?case using strtok_field(2) [of t "[c]" c] by (simp add: tokens_Some)
next
  case (3 c t u us)
  then show ?case using strtok_field(1) [of t "[c]" c "join c (u # us)"]
    by (simp add: tokens_Some)
qed simp

section \<open>Comparing\<close>

text \<open>The sign of a three-way comparison in a linear order.\<close>

definition cmp3 :: "'a::linorder \<Rightarrow> 'a \<Rightarrow> int" where
  "cmp3 x y = (if x < y then -1 else if x = y then 0 else 1)"

text \<open>memcmp over two blocks of the same length, byte by byte, unsigned.\<close>

fun memcmp :: "cstring \<Rightarrow> cstring \<Rightarrow> int" where
  "memcmp (a # as) (b # bs) =
     (if a = b then memcmp as bs
      else if (of_char a :: nat) < of_char b then -1 else 1)"
| "memcmp _ _ = 0"

text \<open>strncmp is 0 when the strings agree up to \<open>n\<close> characters or the NUL.\<close>

fun strneq :: "nat \<Rightarrow> cstring \<Rightarrow> cstring \<Rightarrow> bool" where
  "strneq 0 _ _ = True"
| "strneq (Suc n) [] [] = True"
| "strneq (Suc n) (a # as) (b # bs) = (a = b \<and> strneq n as bs)"
| "strneq (Suc n) _ _ = False"

lemma strneq_long: "length b < n \<Longrightarrow> strneq n a b \<longleftrightarrow> a = b"
  by (induction n a b rule: strneq.induct) auto

lemma strneq_prefix: "length b = n \<Longrightarrow> strneq n a b \<longleftrightarrow> take n a = b"
  by (induction n a b rule: strneq.induct) auto

definition tolower :: "char \<Rightarrow> char" where
  "tolower c = (let n = of_char c :: nat
                in if 65 \<le> n \<and> n \<le> 90 then char_of (n + 32) else c)"

definition strcaseeq :: "cstring \<Rightarrow> cstring \<Rightarrow> bool" where
  "strcaseeq a b \<longleftrightarrow> map tolower a = map tolower b"

section \<open>Numbers\<close>

definition digit :: "nat \<Rightarrow> char" where
  "digit n = char_of (48 + n)"

definition isdigit :: "char \<Rightarrow> bool" where
  "isdigit c \<longleftrightarrow> 48 \<le> (of_char c :: nat) \<and> (of_char c :: nat) \<le> 57"

definition digit_value :: "char \<Rightarrow> nat" where
  "digit_value c = of_char c - 48"

fun show_nat :: "nat \<Rightarrow> cstring" where
  "show_nat n = (if n < 10 then [digit n] else show_nat (n div 10) @ [digit (n mod 10)])"

declare show_nat.simps [simp del]

definition show_u32 :: "u32 \<Rightarrow> cstring" where
  "show_u32 w = show_nat (unat w)"

definition show_u64 :: "u64 \<Rightarrow> cstring" where
  "show_u64 w = show_nat (unat w)"

text \<open>\<open>%d\<close> of an int; pids are ints.\<close>

definition show_int :: "int \<Rightarrow> cstring" where
  "show_int i = (if i < 0 then ''-'' @ show_nat (nat (- i)) else show_nat (nat i))"

definition digits_value :: "cstring \<Rightarrow> nat" where
  "digits_value s = foldl (\<lambda>n c. 10 * n + digit_value c) 0 s"

lemma digit_simps [simp]:
  assumes "n < 10"
  shows "isdigit (digit n)" "digit_value (digit n) = n"
  using assms by (auto simp: digit_def isdigit_def digit_value_def)

lemma digit_eval:
  "digit 0 = CHR ''0''" "digit (Suc 0) = CHR ''1''" "digit 1 = CHR ''1''" "digit 2 = CHR ''2''"
  "digit 3 = CHR ''3''" "digit 4 = CHR ''4''" "digit 5 = CHR ''5''" "digit 6 = CHR ''6''"
  "digit 7 = CHR ''7''" "digit 8 = CHR ''8''" "digit 9 = CHR ''9''"
  by (simp_all add: digit_def char_of_def bit_iff_odd)

lemmas show_nat_eval = show_nat.simps digit_eval

lemma show_nat_digits: "set (show_nat n) \<subseteq> Collect isdigit"
proof (induction n rule: show_nat.induct)
  case (1 n)
  then show ?case by (subst show_nat.simps) auto
qed

lemma show_nat_nonempty [simp]: "show_nat n \<noteq> []"
  by (subst show_nat.simps) simp

lemma digits_value_snoc [simp]: "digits_value (s @ [c]) = 10 * digits_value s + digit_value c"
  by (simp add: digits_value_def)

lemma digits_value_show_nat [simp]: "digits_value (show_nat n) = n"
proof (induction n rule: show_nat.induct)
  case (1 n)
  show ?case
  proof (cases "n < 10")
    case True
    then show ?thesis by (subst show_nat.simps) (simp add: digits_value_def)
  next
    case False
    with 1 show ?thesis by (subst show_nat.simps) simp
  qed
qed

lemma show_nat_length: "n < 10 ^ Suc k \<Longrightarrow> length (show_nat n) \<le> Suc k"
proof (induction k arbitrary: n)
  case 0
  then show ?case by (subst show_nat.simps) simp
next
  case (Suc k)
  then have "n div 10 < 10 ^ Suc k" by (simp add: div_less_iff_less_mult mult.commute)
  with Suc.IH show ?case by (subst show_nat.simps) simp
qed

definition isspace :: "char \<Rightarrow> bool" where
  "isspace c \<longleftrightarrow> of_char c = (32::nat) \<or> (9 \<le> (of_char c :: nat) \<and> (of_char c :: nat) \<le> 13)"

text \<open>
  strtoul in base 10: white space, an optional sign, digits.  Without a digit
  the value is 0 and the end pointer is the start; a value that does not fit is
  ULONG_MAX; a minus sign negates modulo \<open>2 ^ 64\<close>.
\<close>

definition strtoul :: "cstring \<Rightarrow> u64 \<times> cstring" where
  "strtoul s =
     (let s1 = dropWhile isspace s;
          neg = (case s1 of c # _ \<Rightarrow> c = CHR ''-'' | [] \<Rightarrow> False);
          s2 = (case s1 of c # r \<Rightarrow> if c = CHR ''-'' \<or> c = CHR ''+'' then r else s1
                | [] \<Rightarrow> []);
          ds = takeWhile isdigit s2;
          n = digits_value ds
      in if ds = [] then (0, s)
         else (if 2 ^ 64 \<le> n then - 1 else if neg then - of_nat n else of_nat n,
               dropWhile isdigit s2))"

lemma isdigit_not_space: "isdigit c \<Longrightarrow> \<not> isspace c"
  by (auto simp: isdigit_def isspace_def)

lemma isdigit_not_sign: "isdigit c \<Longrightarrow> c \<noteq> CHR ''-'' \<and> c \<noteq> CHR ''+'' \<and> c \<noteq> CHR '':''"
  by (auto simp: isdigit_def)

lemma strtoul_show_nat:
  assumes "n < 2 ^ 64" and "r = [] \<or> \<not> isdigit (hd r)"
  shows "strtoul (show_nat n @ r) = (of_nat n, r)"
proof -
  obtain c cs where cs: "show_nat n = c # cs" by (cases "show_nat n") auto
  have dig: "isdigit x" if "x \<in> set (show_nat n)" for x using show_nat_digits that by blast
  then have c: "isdigit c" by (simp add: cs)
  have tw: "takeWhile isdigit (show_nat n @ r) = show_nat n"
    "dropWhile isdigit (show_nat n @ r) = r"
    using assms(2) dig by (cases r; auto simp: takeWhile_append dropWhile_append)+
  have sp: "dropWhile isspace (show_nat n @ r) = show_nat n @ r"
    using c isdigit_not_space by (simp add: cs)
  show ?thesis
    unfolding strtoul_def Let_def sp
    using tw assms(1) c isdigit_not_sign [of c] by (simp add: cs) (simp flip: cs)
qed

lemma strtoul_no_digit: "s = [] \<or> hd s = CHR '':'' \<Longrightarrow> strtoul s = (0, s)"
  by (cases s) (auto simp: strtoul_def isspace_def isdigit_def)

end
