(* ===== verification/Util.thy ===== *)
theory Util
  imports Clib
begin

text \<open>
  util.c: split_str, the splitter behind every colon-separated option, and its
  first client, validate_optlist of pflask.c.  split_str collects the pointers
  that strtok returns; NULL is None.
\<close>

section \<open>split_str\<close>

text \<open>
  \<open>mem n\<close> tells whether the allocation for \<open>n\<close> pointers succeeds.  The loop is
  a do-while: the first pointer is stored before strtok's result is tested.
  The result is the array up to the returned size; the empty list is size 0.
\<close>

function split_loop ::
  "(nat \<Rightarrow> bool) \<Rightarrow> cstring \<Rightarrow> cstring option list \<Rightarrow> cstring option \<Rightarrow> cstring \<Rightarrow>
   cstring option list" where
  "split_loop mem needle dest token rest =
     (if \<not> mem (length dest + 1) then []
      else let dest' = dest @ [token]
           in case strtok rest needle of
                None \<Rightarrow> dest'
              | Some (t, r) \<Rightarrow> split_loop mem needle dest' (Some t) r)"
  by pat_completeness auto
termination
  by (relation "measure (\<lambda>(mem, needle, dest, token, rest). length rest)")
     (auto dest: strtok_shorter)

declare split_loop.simps [simp del]

definition split_str ::
  "(nat \<Rightarrow> bool) \<Rightarrow> cstring option \<Rightarrow> cstring \<Rightarrow> cstring option list" where
  "split_str mem orig needle =
     (case orig of
        None \<Rightarrow> []
      | Some s \<Rightarrow>
          (case strtok s needle of
             None \<Rightarrow> split_loop mem needle [] None []
           | Some (t, r) \<Rightarrow> split_loop mem needle [] (Some t) r))"

text \<open>Memory that never runs out.\<close>

abbreviation plenty :: "nat \<Rightarrow> bool" where
  "plenty \<equiv> (\<lambda>_. True)"

lemma split_loop_tokens:
  "split_loop plenty d dest tok rest = dest @ tok # map Some (tokens d rest)"
proof (induction plenty d dest tok rest rule: split_loop.induct)
  case (1 d dest tok rest)
  then show ?case
    by (cases "strtok rest d")
       (auto simp: split_loop.simps [of plenty d dest tok rest] tokens_None tokens_Some Let_def)
qed

lemma split_str_tokens:
  "split_str plenty (Some s) d =
     (if set s \<subseteq> set d then [None] else map Some (tokens d s))"
proof (cases "strtok s d")
  case None
  then show ?thesis using strtok_None_iff [of s d]
    by (simp add: split_str_def split_loop_tokens)
next
  case (Some p)
  then show ?thesis using strtok_None_iff [of s d]
    by (cases p) (simp add: split_str_def split_loop_tokens tokens_Some)
qed

lemma split_str_size: "split_str plenty (Some s) d \<noteq> []"
  by (auto simp: split_str_tokens strtok_None_iff [symmetric] tokens_Some)

lemma split_loop_oom: "\<not> mem (Suc (length dest)) \<Longrightarrow> split_loop mem d dest tok rest = []"
  by (simp add: split_loop.simps)

text \<open>
  The fields of a colon-separated specification, as the option handlers read
  them: None when split_str returned the single NULL pointer.
\<close>

definition opt_fields :: "cstring \<Rightarrow> cstring list option" where
  "opt_fields s = (if set s \<subseteq> {CHR '':''} then None else Some (tokens '':'' s))"

lemma split_str_fields:
  "split_str plenty (Some s) '':'' =
     (case opt_fields s of None \<Rightarrow> [None] | Some ts \<Rightarrow> map Some ts)"
  by (simp add: split_str_tokens opt_fields_def)

lemma fields_nonempty: "opt_fields s = Some ts \<Longrightarrow> ts \<noteq> []"
  using strtok_None_iff [of s "'':''"]
  by (cases "strtok s '':''") (auto simp: opt_fields_def tokens_Some split: if_splits)

lemma fields_join:
  assumes "ts \<noteq> []" "\<And>t. t \<in> set ts \<Longrightarrow> t \<noteq> [] \<and> CHR '':'' \<notin> set t"
  shows "opt_fields (join CHR '':'' ts) = Some ts"
proof -
  have tok: "tokens '':'' (join CHR '':'' ts) = ts" using tokens_join assms(2) by simp
  then have "strtok (join CHR '':'' ts) '':'' \<noteq> None"
    using assms(1) tokens_None by metis
  with tok show ?thesis by (auto simp: opt_fields_def strtok_None_iff)
qed

section \<open>validate_optlist\<close>

text \<open>
  Returns the number of fields of an option, or stops the process.  The read
  of \<open>*vars[i]\<close> through a NULL pointer is a crash.
\<close>

fun check_vars :: "cstring option list \<Rightarrow> failure option" where
  "check_vars [] = None"
| "check_vars (None # vs) = Some (Crash ''*vars[i]'')"
| "check_vars (Some v # vs) =
     (if v = [] then Some (Fail ''Invalid value %s for %s'') else check_vars vs)"

definition validate_optlist ::
  "(nat \<Rightarrow> bool) \<Rightarrow> cstring option \<Rightarrow> failure + nat" where
  "validate_optlist mem opts =
     (if opts = None \<or> opts = Some [] then Inr 0
      else let vars = split_str mem opts '':'' in
        if vars = [] then Inl (Fail ''Invalid value %s for %s'')
        else case check_vars vars of Some e \<Rightarrow> Inl e | None \<Rightarrow> Inr (length vars))"

lemma check_vars_tokens: "[] \<notin> set ts \<Longrightarrow> check_vars (map Some ts) = None"
  by (induction ts) auto

lemma validate_optlist_cases:
  assumes "s \<noteq> []"
  shows "validate_optlist plenty (Some s) =
    (case opt_fields s of None \<Rightarrow> Inl (Crash ''*vars[i]'') | Some ts \<Rightarrow> Inr (length ts))"
proof (cases "opt_fields s")
  case None
  with assms show ?thesis
    by (simp add: validate_optlist_def split_str_fields)
next
  case (Some ts)
  have "[] \<notin> set ts" using Some tokens_good [of "[]" "'':''" s]
    by (auto simp: opt_fields_def split: if_splits)
  with Some assms show ?thesis
    by (simp add: validate_optlist_def split_str_fields check_vars_tokens fields_nonempty)
qed

section \<open>Properties\<close>

text \<open>
  C36: Splitting an option undoes joining its fields: split_str applied to
  non-empty, colon-free fields joined by colons returns exactly these fields.
\<close>

theorem split_str_join:
  assumes "ts \<noteq> []" and "\<forall>t \<in> set ts. t \<noteq> [] \<and> CHR '':'' \<notin> set t"
  shows "split_str plenty (Some (join CHR '':'' ts)) '':'' = map Some ts"
  using fields_join [of ts] assms by (simp add: split_str_fields)

theorem split_str_join_witness:
  "split_str plenty (Some (join CHR '':'' [''bind'', ''/a'', ''/b''])) '':''
     = [Some ''bind'', Some ''/a'', Some ''/b'']"
  using split_str_join [of "[''bind'', ''/a'', ''/b'']"] by simp

text \<open>
  validate_optlist never rejects an option for an empty field: strtok merges
  adjacent colons, so every option with a character other than a colon passes,
  with the number of its non-empty fields, and an option of colons only makes
  the check read through a NULL pointer.
\<close>

lemma validate_optlist_never_rejects:
  assumes "s \<noteq> []"
  shows "validate_optlist plenty (Some s) =
    (if set s \<subseteq> {CHR '':''} then Inl (Crash ''*vars[i]'')
     else Inr (length (tokens '':'' s)))"
  using validate_optlist_cases [OF assms] by (simp add: opt_fields_def)

lemma validate_optlist_never_rejects_example:
  "validate_optlist plenty (Some ''0::1'') = Inr 2 \<and>
   validate_optlist plenty (Some ''::'') = Inl (Crash ''*vars[i]'')"
proof -
  have "tokens '':'' ''0::1'' = [''0'', ''1'']" by (simp add: tokens.simps strtok_def)
  then show ?thesis
    using validate_optlist_never_rejects [of "''0::1''"]
      validate_optlist_never_rejects [of "''::''"] by simp
qed

end
