(* ===== verification/Path.thy ===== *)
theory Path
  imports Clib
begin

text \<open>
  path.c: comparing paths by component, prefixing a path with a root, and
  searching \<open>PATH\<close>.  The specification side is the normalised path: whether it
  is absolute, and its components.  Normalised paths are linearly ordered, and
  path_compare is shown to compute exactly that order.
\<close>

section \<open>Normalised paths\<close>

datatype npath = NPath (absolute: bool) (comps: "cstring list")

instantiation npath :: linorder
begin

definition less_eq_npath :: "npath \<Rightarrow> npath \<Rightarrow> bool" where
  "p \<le> q \<longleftrightarrow> absolute p < absolute q \<or> (absolute p = absolute q \<and> comps p \<le> comps q)"

definition less_npath :: "npath \<Rightarrow> npath \<Rightarrow> bool" where
  "p < q \<longleftrightarrow> absolute p < absolute q \<or> (absolute p = absolute q \<and> comps p < comps q)"

instance
  by standard (auto simp: less_eq_npath_def less_npath_def intro: npath.expand)

end

definition path_is_absolute :: "path \<Rightarrow> bool" where
  "path_is_absolute p = (case p of [] \<Rightarrow> False | c # _ \<Rightarrow> c = CHR ''/'')"

definition components :: "path \<Rightarrow> cstring list" where
  "components s = tokens ''/'' s"

definition npath :: "path \<Rightarrow> npath" where
  "npath s = NPath (path_is_absolute s) (components s)"

section \<open>path_compare\<close>

text \<open>The loop: skip slashes on both sides, compare one component, go on.\<close>

function path_compare_loop :: "path \<Rightarrow> path \<Rightarrow> int" where
  "path_compare_loop a0 b0 =
     (let a = drop (strspn a0 ''/'') a0; b = drop (strspn b0 ''/'') b0 in
      if a = [] \<and> b = [] then 0
      else if a = [] then -1
      else if b = [] then 1
      else
        let j = strcspn a ''/''; k = strcspn b ''/'';
            d = memcmp (take (min j k) a) (take (min j k) b)
        in if d \<noteq> 0 then of_bool (0 < d) - of_bool (d < 0)
           else let d = of_bool (k < j) - of_bool (j < k) in
             if d \<noteq> 0 then d else path_compare_loop (drop j a) (drop k b))"
  by pat_completeness auto
termination
proof (relation "measure (\<lambda>(a, b). length a)", goal_cases)
  case (2 a0 b0 a b j k d d')
  then have "0 < j" "a \<noteq> []" by (auto intro: strcspn_pos)
  moreover have "length a \<le> length a0" using 2 by simp
  moreover have "0 < length a" using \<open>a \<noteq> []\<close> by simp
  ultimately show ?case by (simp del: length_greater_0_conv)
qed simp

declare path_compare_loop.simps [simp del]

definition path_compare :: "path \<Rightarrow> path \<Rightarrow> int" where
  "path_compare a b =
     (let d = of_bool (path_is_absolute a) - of_bool (path_is_absolute b)
      in if d \<noteq> 0 then d else path_compare_loop a b)"

lemma cmp3_simps [simp]:
  "cmp3 ([] :: 'a::linorder list) [] = 0"
  "cmp3 [] (y # ys) = -1"
  "cmp3 (x # xs) [] = 1"
  "cmp3 (x # xs) (y # ys) = (if cmp3 x y \<noteq> 0 then cmp3 x y else cmp3 xs ys)"
  by (auto simp: cmp3_def)

lemma cmp3_eq_0 [simp]: "cmp3 x y = 0 \<longleftrightarrow> x = y"
  by (auto simp: cmp3_def)

lemma cmp3_flip: "cmp3 y x = - cmp3 x y"
  by (auto simp: cmp3_def)

lemma memcmp_sign: "memcmp x y \<in> {-1, 0, 1}"
  by (induction x y rule: memcmp.induct) auto

text \<open>One round of the loop is the three-way comparison of two components.\<close>

lemma memcmp_take:
  "memcmp (take (min (length x) (length y)) x) (take (min (length x) (length y)) y) = memcmp x y"
  by (induction x y rule: memcmp.induct) simp_all

text \<open>The value of a round, from memcmp's result and the component lengths.\<close>

definition round_sign :: "int \<Rightarrow> nat \<Rightarrow> nat \<Rightarrow> int" where
  "round_sign d j k =
     (if d \<noteq> 0 then of_bool (0 < d) - of_bool (d < 0) else of_bool (k < j) - of_bool (j < k))"

lemma round_sign_Suc [simp]: "round_sign d (Suc j) (Suc k) = round_sign d j k"
  by (simp add: round_sign_def)

lemma round_sign_Nil:
  "round_sign 0 0 (length y) = cmp3 [] y" "round_sign 0 (length x) 0 = cmp3 x []"
  by (cases y; auto simp: round_sign_def) (cases x; auto simp: round_sign_def)

lemma memcmp_cmp3: "round_sign (memcmp x y) (length x) (length y) = cmp3 x y"
proof (induction x y rule: memcmp.induct)
  case (1 a as b bs)
  show ?case
  proof (cases "a = b")
    case True
    then show ?thesis using 1 by simp
  next
    case False
    then have "(of_char a :: nat) \<noteq> of_char b" by simp
    with False show ?thesis by (auto simp: round_sign_def cmp3_def less_char_def)
  qed
qed (simp_all add: round_sign_Nil)

lemma path_compare_loop_cmp3:
  "path_compare_loop a0 b0 = cmp3 (components a0) (components b0)"
proof (induction a0 b0 rule: path_compare_loop.induct)
  case (1 a0 b0)
  define a where "a = drop (strspn a0 ''/'') a0"
  define b where "b = drop (strspn b0 ''/'') b0"
  define j where "j = strcspn a ''/''"
  define k where "k = strcspn b ''/''"
  have ca: "components a0 = (if a = [] then [] else take j a # components (drop j a))"
    using tokens_spn [OF a_def] tokens_spn_Nil [of a0 "''/''"]
    by (simp add: components_def j_def flip: a_def)
  have cb: "components b0 = (if b = [] then [] else take k b # components (drop k b))"
    using tokens_spn [OF b_def] tokens_spn_Nil [of b0 "''/''"]
    by (simp add: components_def k_def flip: b_def)
  show ?case
  proof (cases "a = [] \<or> b = []")
    case True
    then show ?thesis
      by (subst path_compare_loop.simps) (auto simp: ca cb Let_def simp flip: a_def b_def)
  next
    case False
    define x where "x = take j a"
    define y where "y = take k b"
    have jk: "length x = j" "length y = k"
      by (simp_all add: x_def y_def j_def k_def strcspn_def length_takeWhile_le min_absorb2)
    have tk: "take (min j k) a = take (min (length x) (length y)) x"
      "take (min j k) b = take (min (length x) (length y)) y"
      unfolding jk by (simp_all add: x_def y_def min_def)
    define d where "d = memcmp (take (min j k) a) (take (min j k) b)"
    have d: "d = memcmp x y" unfolding d_def tk by (rule memcmp_take)
    have xy: "round_sign d j k = cmp3 x y"
      using memcmp_cmp3 [of x y] unfolding d jk .
    have unf: "path_compare_loop a0 b0 =
        (if round_sign d j k \<noteq> 0 then round_sign d j k
         else path_compare_loop (drop j a) (drop k b))"
      using False
      by (subst path_compare_loop.simps)
         (simp add: Let_def round_sign_def flip: a_def b_def j_def k_def d_def)
    show ?thesis
    proof (cases "round_sign d j k = 0")
      case True
      then have "d = 0" "of_bool (k < j) - of_bool (j < k) = (0 :: int)"
        by (cases "0 < d"; auto simp: round_sign_def split: if_splits)+
      then have "path_compare_loop (drop j a) (drop k b)
          = cmp3 (components (drop j a)) (components (drop k b))"
        using False "1.IH" [OF a_def b_def _ _ _ j_def k_def d_def _ refl] by blast
      with True False unf xy show ?thesis by (simp add: ca cb flip: x_def y_def)
    next
      case nz: False
      with False unf xy show ?thesis by (simp add: ca cb flip: x_def y_def)
    qed
  qed
qed

lemma path_compare_cmp3: "path_compare a b = cmp3 (npath a) (npath b)"
proof (cases "path_is_absolute a = path_is_absolute b")
  case True
  then show ?thesis
    by (simp add: path_compare_def path_compare_loop_cmp3 npath_def cmp3_def less_npath_def)
next
  case False
  then show ?thesis
    by (auto simp: path_compare_def npath_def cmp3_def less_npath_def Let_def)
qed

section \<open>Three-way comparison as an interface\<close>

text \<open>
  What a client of a C comparison function relies on: the sign of the result
  orders the values through some key.  path_prefix_root only asks whether the
  result is 0, and the lemmas below say what that means.
\<close>

locale three_way =
  fixes compare :: "'a \<Rightarrow> 'a \<Rightarrow> int" and key :: "'a \<Rightarrow> 'k::linorder"
  assumes compare_key: "compare a b = cmp3 (key a) (key b)"
begin

lemma compare_eq: "compare a b = 0 \<longleftrightarrow> key a = key b"
  by (simp add: compare_key)

lemma compare_refl: "compare a a = 0"
  by (simp add: compare_key)

lemma compare_flip: "compare b a = - compare a b"
  unfolding compare_key by (rule cmp3_flip)

lemma compare_trans:
  assumes "compare a b \<le> 0" "compare b c \<le> 0"
  shows "compare a c \<le> 0" and "compare a b < 0 \<or> compare b c < 0 \<Longrightarrow> compare a c < 0"
  using assms by (auto simp: compare_key cmp3_def split: if_splits)

lemma compare_range: "compare a b \<in> {-1, 0, 1}"
  by (simp add: compare_key cmp3_def)

end

interpretation pc: three_way path_compare npath
  by unfold_locales (rule path_compare_cmp3)

section \<open>path_prefix_root\<close>

fun drop_dup_slashes :: "path \<Rightarrow> path" where
  "drop_dup_slashes (a # b # s) =
     (if a = CHR ''/'' \<and> b = CHR ''/'' then drop_dup_slashes (b # s) else a # b # s)"
| "drop_dup_slashes s = s"

definition strip_slashes :: "path \<Rightarrow> path" where
  "strip_slashes s = rev (dropWhile (\<lambda>c. c = CHR ''/'') (rev s))"

text \<open>\<open>mem n\<close> tells whether an allocation of \<open>n\<close> bytes succeeds; None is NULL.\<close>

definition path_prefix_root :: "(nat \<Rightarrow> bool) \<Rightarrow> path option \<Rightarrow> path \<Rightarrow> path option" where
  "path_prefix_root mem root path0 =
     (let path = drop_dup_slashes path0;
          copy = (if mem (length path + 1) then Some path else None)
      in case root of
           None \<Rightarrow> copy
         | Some r \<Rightarrow>
             if r = [] \<or> path_compare r ''/'' = 0 \<or> path_compare r path = 0 then copy
             else if \<not> mem (length r + 1 + length path + 1) then None
             else let p = strip_slashes r;
                      p = (if path_is_absolute path then p else p @ ''/'')
                  in Some (p @ path))"

text \<open>The path that the function computes when memory suffices.\<close>

definition prefixed :: "path option \<Rightarrow> path \<Rightarrow> path" where
  "prefixed root path = the (path_prefix_root (\<lambda>_. True) root path)"

lemma path_prefix_root_prefixed: "path_prefix_root (\<lambda>_. True) root path = Some (prefixed root path)"
  by (simp add: prefixed_def path_prefix_root_def Let_def split: option.split)

lemma drop_dup_slashes_npath: "npath (drop_dup_slashes s) = npath s"
proof (induction s rule: drop_dup_slashes.induct)
  case (1 a b s)
  then show ?case by (auto simp: npath_def components_def tokens_delim path_is_absolute_def)
qed (auto simp: npath_def)

lemma tokens_snoc_delim: "c \<in> set d \<Longrightarrow> tokens d (p @ [c]) = tokens d p"
  using tokens_append [of c d p "[]"] by simp

lemma strip_slashes_snoc: "strip_slashes (s @ [c]) = (if c = CHR ''/'' then strip_slashes s else s @ [c])"
  by (simp add: strip_slashes_def)

lemma strip_slashes_components: "components (strip_slashes s) = components s"
proof (induction s rule: rev_induct)
  case (snoc c s)
  then show ?case by (simp add: strip_slashes_snoc components_def tokens_snoc_delim)
qed (simp add: strip_slashes_def)

lemma strip_slashes_length: "length (strip_slashes s) \<le> length s"
  using length_dropWhile_le [of "\<lambda>c. c = CHR ''/''" "rev s"] by (simp add: strip_slashes_def)

lemma components_slash: "components (p @ CHR ''/'' # q) = components p @ components q"
  by (simp add: components_def tokens_append)

lemma components_absolute: "path_is_absolute q \<Longrightarrow> components (p @ q) = components p @ components q"
  by (cases q) (auto simp: path_is_absolute_def components_def tokens_append tokens_delim)

lemma strip_slashes_prefix: "strip_slashes s \<noteq> [] \<Longrightarrow> hd (strip_slashes s) = hd s"
proof (induction s rule: rev_induct)
  case (snoc c s)
  then show ?case by (cases s) (auto simp: strip_slashes_snoc strip_slashes_def split: if_splits)
qed (simp add: strip_slashes_def)

lemma strip_slashes_Nil: "strip_slashes s = [] \<longleftrightarrow> set s \<subseteq> {CHR ''/''}"
  by (auto simp: strip_slashes_def dropWhile_eq_Nil_conv)

lemma absolute_append: "p \<noteq> [] \<Longrightarrow> path_is_absolute (p @ q) = path_is_absolute p"
  by (cases p) (auto simp: path_is_absolute_def)

lemma absolute_hd: "p \<noteq> [] \<Longrightarrow> path_is_absolute p = (hd p = CHR ''/'')"
  by (cases p) (auto simp: path_is_absolute_def)

lemma npath_root_iff: "npath r = npath ''/'' \<longleftrightarrow> path_is_absolute r \<and> components r = []"
  by (auto simp: npath_def path_is_absolute_def components_def tokens_delim)

lemma components_empty_iff: "components r = [] \<longleftrightarrow> set r \<subseteq> {CHR ''/''}"
proof -
  have "components r = [] \<longleftrightarrow> strtok r ''/'' = None"
    by (cases "strtok r ''/''") (auto simp: components_def tokens_None tokens_Some)
  then show ?thesis using strtok_None_iff [of r "''/''"] by simp
qed

text \<open>
  The normalised result: the path alone when there is no root, or the root is
  \<open>/\<close>, or both are the same path; otherwise the path below the root.
\<close>

definition below_root :: "path option \<Rightarrow> path \<Rightarrow> npath" where
  "below_root root p =
     (case root of
        None \<Rightarrow> npath p
      | Some r \<Rightarrow>
          if r = [] \<or> npath r = npath ''/'' \<or> npath r = npath p then npath p
          else NPath (path_is_absolute r) (components r @ components p))"

lemma prefixed_no_root:
  "root = None \<or> root = Some [] \<Longrightarrow> npath (prefixed root p) = npath p"
  by (auto simp: prefixed_def path_prefix_root_def drop_dup_slashes_npath Let_def)

lemma prefixed_npath: "npath (prefixed root p) = below_root root p"
proof (cases "root = None \<or> root = Some []")
  case True
  with prefixed_no_root [OF True] show ?thesis by (auto simp: below_root_def)
next
  case False
  then obtain r where Some: "root = Some r" and r: "r \<noteq> []" by auto
  define q where "q = drop_dup_slashes p"
  have q: "npath q = npath p" by (simp add: q_def drop_dup_slashes_npath)
  show ?thesis
  proof (cases "npath r = npath ''/'' \<or> npath r = npath q")
    case True
    with Some r q show ?thesis
      by (auto simp: prefixed_def path_prefix_root_def below_root_def pc.compare_eq Let_def
          simp flip: q_def)
  next
    case False
    define s where "s = strip_slashes r"
    define n where "n = (if path_is_absolute q then s else s @ ''/'') @ q"
    have n: "prefixed root p = n"
      using Some r False
      by (simp add: prefixed_def path_prefix_root_def pc.compare_eq Let_def n_def s_def flip: q_def)
    have s: "components s = components r" by (simp add: s_def strip_slashes_components)
    have abs: "path_is_absolute n = path_is_absolute r"
    proof (cases "s = []")
      case True
      then have "set r \<subseteq> {CHR ''/''}" by (simp add: s_def strip_slashes_Nil)
      with r have "path_is_absolute r" "components r = []"
        by (auto simp: components_empty_iff path_is_absolute_def split: list.split)
      with False show ?thesis by (simp add: npath_root_iff)
    next
      case sn: False
      then have "path_is_absolute n = path_is_absolute s"
        by (simp add: n_def absolute_append)
      also have "\<dots> = path_is_absolute r"
        using sn r strip_slashes_prefix [of r] by (simp add: absolute_hd s_def)
      finally show ?thesis .
    qed
    have "components n = components r @ components q"
      by (simp add: n_def s components_absolute components_slash)
    with abs n Some False r q show ?thesis
      by (auto simp: below_root_def npath_def)
  qed
qed

text \<open>The string written never exceeds the block that was allocated for it.\<close>

lemma drop_dup_slashes_length: "length (drop_dup_slashes s) \<le> length s"
  by (induction s rule: drop_dup_slashes.induct) auto

lemma path_prefix_root_fits:
  assumes "path_prefix_root (\<lambda>n. n = sz) root p = Some n"
  shows "length n + 1 \<le> sz"
proof (cases root)
  case None
  with assms show ?thesis by (auto simp: path_prefix_root_def Let_def split: if_splits)
next
  case (Some r)
  have "length (strip_slashes r) \<le> length r" by (rule strip_slashes_length)
  with assms Some show ?thesis by (auto simp: path_prefix_root_def Let_def split: if_splits)
qed

section \<open>on_path\<close>

definition candidate :: "cstring \<Rightarrow> path option \<Rightarrow> cstring \<Rightarrow> path" where
  "candidate cmd rootfs entry =
     (case rootfs of
        Some r \<Rightarrow> r @ ''/'' @ entry @ ''/'' @ cmd
      | None \<Rightarrow> entry @ ''/'' @ cmd)"

fun on_path_loop :: "cstring \<Rightarrow> path option \<Rightarrow> cstring list \<Rightarrow> path option io" where
  "on_path_loop cmd rootfs [] = io_ret None"
| "on_path_loop cmd rootfs (entry # es) =
     io_bind (sys (Access (candidate cmd rootfs entry))) (\<lambda>r.
       if rc r = 0 then io_ret (Some (candidate cmd rootfs entry))
       else on_path_loop cmd rootfs es)"

definition on_path :: "cstring \<Rightarrow> path option \<Rightarrow> path option io" where
  "on_path cmd rootfs =
     io_bind (sys (Getenv ''PATH'')) (\<lambda>r.
       case sdata r of
         None \<Rightarrow> io_ret None
       | Some p \<Rightarrow> on_path_loop cmd rootfs (tokens '':'' p))"

lemma on_path_loop_result:
  "on_path_loop cmd rootfs es k h = (r, h') \<Longrightarrow>
   (\<exists>pre post.
      (\<forall>i < length pre. rc (k (h @ map (\<lambda>e. Access (candidate cmd rootfs e)) (take i pre))
                             (Access (candidate cmd rootfs (pre ! i)))) \<noteq> 0) \<and>
      (case r of
         Inr (Some q) \<Rightarrow> \<exists>e. es = pre @ e # post \<and> q = candidate cmd rootfs e
             \<and> h' = h @ map (\<lambda>e. Access (candidate cmd rootfs e)) (pre @ [e])
             \<and> rc (k (h @ map (\<lambda>e. Access (candidate cmd rootfs e)) pre)
                     (Access (candidate cmd rootfs e))) = 0
       | Inr None \<Rightarrow> es = pre \<and> h' = h @ map (\<lambda>e. Access (candidate cmd rootfs e)) pre
       | Inl f \<Rightarrow> False))"
proof (induction es arbitrary: h)
  case Nil
  then show ?case by (intro exI [of _ "[]"]) (auto simp: io_ret_def)
next
  case (Cons e es)
  let ?A = "\<lambda>e. Access (candidate cmd rootfs e)"
  show ?case
  proof (cases "rc (k h (?A e)) = 0")
    case True
    with Cons.prems show ?thesis
      by (intro exI [of _ "[]"] exI [of _ es]) (auto simp: io_bind_def sys_def io_ret_def)
  next
    case False
    with Cons.prems have "on_path_loop cmd rootfs es k (h @ [?A e]) = (r, h')"
      by (simp add: io_bind_def sys_def)
    from Cons.IH [OF this] obtain pre post where IH:
      "\<forall>i < length pre. rc (k ((h @ [?A e]) @ map ?A (take i pre)) (?A (pre ! i))) \<noteq> 0"
      "case r of
         Inr (Some q) \<Rightarrow> \<exists>e'. es = pre @ e' # post \<and> q = candidate cmd rootfs e'
             \<and> h' = (h @ [?A e]) @ map ?A (pre @ [e'])
             \<and> rc (k ((h @ [?A e]) @ map ?A pre) (?A e')) = 0
       | Inr None \<Rightarrow> es = pre \<and> h' = (h @ [?A e]) @ map ?A pre
       | Inl f \<Rightarrow> False" by blast
    have "rc (k (h @ map ?A (take i (e # pre))) (?A ((e # pre) ! i))) \<noteq> 0"
      if "i < length (e # pre)" for i
      using that False IH(1) by (cases i) auto
    with IH(2) show ?thesis
      by (intro exI [of _ "e # pre"] exI [of _ post]) (auto split: sum.splits option.splits)
  qed
qed

section \<open>Properties\<close>

text \<open>
  C10: path_compare is the linear order of normalised paths: its sign says
  whether the first path is before, the same as, or after the second, where
  relative paths come before absolute ones, repeated and trailing slashes do
  not count, and components are compared as strings, prefixes first.
\<close>

theorem path_compare_is_order:
  "(path_compare a b < 0 \<longleftrightarrow> npath a < npath b) \<and>
   (path_compare a b = 0 \<longleftrightarrow> npath a = npath b) \<and>
   (path_compare a b > 0 \<longleftrightarrow> npath b < npath a)"
  by (auto simp: path_compare_cmp3 cmp3_def)

text \<open>
  C23: Where path_prefix_root puts a path, for every root and path, when memory
  suffices: without a root, and also when the root names \<open>/\<close> or is itself the
  same path, the result names the path as it is; otherwise it is absolute exactly
  if the root is, and its components are those of the root followed by those of
  the path.
\<close>

theorem path_prefix_root_below:
  "\<exists>n. path_prefix_root (\<lambda>_. True) root p = Some n \<and>
    npath n =
      (case root of
         None \<Rightarrow> npath p
       | Some r \<Rightarrow>
           if r = [] \<or> path_is_absolute r \<and> components r = [] \<or>
              path_is_absolute r = path_is_absolute p \<and> components r = components p
           then npath p
           else NPath (path_is_absolute r) (components r @ components p))"
proof -
  have "npath r = npath p \<longleftrightarrow> path_is_absolute r = path_is_absolute p \<and> components r = components p" for r
    by (simp add: npath_def)
  then show ?thesis
    using prefixed_npath [of root p]
    by (simp add: path_prefix_root_prefixed below_root_def npath_root_iff split: option.split)
qed

text \<open>
  The exception of the previous property: a path that names the root
  directory itself is returned unchanged, not placed below the root.
\<close>

lemma path_prefix_root_same:
  assumes "path_compare r p = 0"
  shows "npath (prefixed (Some r) p) = npath p"
  using assms by (simp add: prefixed_npath below_root_def pc.compare_eq)

lemma path_prefix_root_same_example:
  "npath (prefixed (Some ''/srv'') ''/srv/'') = npath ''/srv/''"
  by (rule path_prefix_root_same)
     (simp add: path_compare_cmp3 npath_def components_def path_is_absolute_def
        tokens.simps strtok_def)

text \<open>
  on_path returns the first directory of PATH in which the command is
  executable: it asks for the directories in order, every earlier one was not
  accessible, and it asks no further.
\<close>

lemma on_path_first:
  assumes "outcome (on_path cmd rootfs) k = Inr (Some q)"
    and "sdata (k [] (Getenv ''PATH'')) = Some p"
  shows "\<exists>pre e post. tokens '':'' p = pre @ e # post \<and> q = candidate cmd rootfs e \<and>
    trace (on_path cmd rootfs) k =
      Getenv ''PATH'' # map (\<lambda>e. Access (candidate cmd rootfs e)) (pre @ [e]) \<and>
    (\<forall>i < length pre.
       rc (k (Getenv ''PATH'' # map (\<lambda>e. Access (candidate cmd rootfs e)) (take i pre))
             (Access (candidate cmd rootfs (pre ! i)))) \<noteq> 0) \<and>
    rc (k (Getenv ''PATH'' # map (\<lambda>e. Access (candidate cmd rootfs e)) pre) (Access q)) = 0"
proof -
  obtain h' where run: "on_path_loop cmd rootfs (tokens '':'' p) k [Getenv ''PATH''] = (Inr (Some q), h')"
    "trace (on_path cmd rootfs) k = h'"
    using assms by (cases "on_path_loop cmd rootfs (tokens '':'' p) k [Getenv ''PATH'']")
      (auto simp: on_path_def outcome_def trace_def io_bind_def sys_def)
  from on_path_loop_result [OF run(1)] run(2) show ?thesis by auto
qed

definition on_path_kernel :: kernel where
  "on_path_kernel h c =
     (case c of Getenv _ \<Rightarrow> ok\<lparr>sdata := Some ''/bin:/sbin''\<rparr>
      | Access p \<Rightarrow> if p = ''/sbin/ip'' then ok else failed ENOENT
      | _ \<Rightarrow> ok)"

lemma on_path_first_example:
  "\<exists>pre e post. tokens '':'' ''/bin:/sbin'' = pre @ e # post \<and>
     ''/sbin/ip'' = candidate ''ip'' None e"
proof -
  have tok: "tokens '':'' ''/bin:/sbin'' = [''/bin'', ''/sbin'']"
    by (simp add: tokens.simps strtok_def)
  have "outcome (on_path ''ip'' None) on_path_kernel = Inr (Some ''/sbin/ip'')"
    by (simp add: io_simps on_path_def on_path_kernel_def tok candidate_def)
  then show ?thesis
    using on_path_first [of "''ip''" None on_path_kernel "''/sbin/ip''" "''/bin:/sbin''"]
    by (auto simp: on_path_kernel_def)
qed

end
