(* ===== verification/User.thy ===== *)
theory User
  imports Util Path
begin

text \<open>
  user.c, and the parsing of \<open>--user-map\<close> in pflask.c: the list of user and
  group mappings, the text handed to the kernel (or to newuidmap) for it, the
  lookup of the container's root, and the change of credentials in the child.
\<close>

section \<open>The mappings\<close>

record user =
  u_type :: char
  u_id :: u32
  u_host_id :: u32
  u_count :: u64

definition user_add_map :: "user list \<Rightarrow> char \<Rightarrow> u32 \<Rightarrow> u32 \<Rightarrow> u64 \<Rightarrow> user list" where
  "user_add_map users type i host_id n =
     users @ [\<lparr>u_type = type, u_id = i, u_host_id = host_id, u_count = n\<rparr>]"

fun user_get_mapped_root :: "user list \<Rightarrow> char \<Rightarrow> u32 option" where
  "user_get_mapped_root [] type = None"
| "user_get_mapped_root (u # us) type =
     (if u_type u \<noteq> type then user_get_mapped_root us type
      else if u_id u \<noteq> 0 then user_get_mapped_root us type
      else Some (u_host_id u))"

section \<open>Writing the map\<close>

definition newline :: char where
  "newline = CHR 0x0A"

definition map_entry :: "char \<Rightarrow> user \<Rightarrow> cstring" where
  "map_entry sep u =
     show_u32 (u_id u) @ '' '' @ show_u32 (u_host_id u) @ '' '' @ show_u64 (u_count u) @ [sep]"

fun map_text :: "char \<Rightarrow> char \<Rightarrow> user list \<Rightarrow> cstring \<Rightarrow> cstring" where
  "map_text sep type [] acc = acc"
| "map_text sep type (u # us) acc =
     (if u_type u \<noteq> type then map_text sep type us acc
      else map_text sep type us (acc @ map_entry sep u))"

definition setup_user_map2 :: "user list \<Rightarrow> char \<Rightarrow> u32 \<Rightarrow> unit io" where
  "setup_user_map2 users type pid =
     io_bind (on_path ''newuidmap'' None) (\<lambda>have_cmd.
     io_seq
       (if have_cmd = None
        then io_bind (sys Geteuid) (\<lambda>r. fail_if (rc r \<noteq> 0)
          ''Unprivileged containers need the newuidmap/newgidmap executables'')
        else io_ret ())
       (let m = map_text (if have_cmd = None then newline else CHR '' '') type users []
        in if have_cmd \<noteq> None
           then io_bind (sys (System (''new'' @ [type] @ ''idmap '' @ show_u32 pid @ '' '' @ m)))
                  (\<lambda>r. fail_if (rc r \<noteq> 0) ''new%cidmap returned %d'')
           else io_seq (checked (Open (''/proc/'' @ show_int (sint pid) @ ''/'' @ [type] @ ''id_map'') 2 0)
                          ''Error opening file %s'')
               (io_seq (checked (Write m) ''Error writing to file %s'')
                 (checked Close ''Error closing fd''))))"

definition setup_user_map :: "user list \<Rightarrow> u32 \<Rightarrow> unit io" where
  "setup_user_map users pid =
     io_seq (setup_user_map2 users CHR ''u'' pid) (setup_user_map2 users CHR ''g'' pid)"

section \<open>Credentials\<close>

text \<open>
  getpwnam's reply: \<open>rc\<close> is 0 for a result, with the uid and gid of the entry,
  and negative for NULL, with \<open>Eother 0\<close> when errno was left at 0.
\<close>

definition user_get_uid_gid :: "cstring \<Rightarrow> (bool \<times> u32 \<times> u32) io" where
  "user_get_uid_gid user =
     (if \<not> strneq 5 user ''root''
      then io_bind (sys (Getpwnam user)) (\<lambda>pwd.
             if rc pwd < 0 \<and> errno pwd = Eother 0 then io_ret (False, 0, 0)
             else io_seq (sys_fail_if (rc pwd < 0 \<and> errno pwd \<noteq> Eother 0) ''Error getting user'')
                    (io_ret (True, st_uid pwd, st_gid pwd)))
      else io_ret (True, 0, 0))"

definition setup_user :: "cstring \<Rightarrow> unit io" where
  "setup_user user =
     io_bind (user_get_uid_gid user) (\<lambda>(found, pw_uid, pw_gid).
       if \<not> found then io_ret ()
       else io_seq (checked (Setresgid pw_gid pw_gid pw_gid) ''Error settign GID'')
           (io_seq (checked (Setresuid pw_uid pw_uid pw_uid) ''Error setting UID'')
             (checked (Setgroups 0) ''Error setting groups'')))"

section \<open>Parsing \<open>--user-map\<close>\<close>

text \<open>The loop body of main: three numbers separated by colons.\<close>

definition invalid_user_map :: failure where
  "invalid_user_map = Fail ''Invalid value %s for --user-map''"

definition parse_user_map :: "cstring \<Rightarrow> failure + u32 \<times> u32 \<times> u64" where
  "parse_user_map arg =
     (case strtoul arg of (i, e1) \<Rightarrow>
        if e1 = [] \<or> hd e1 \<noteq> CHR '':'' then Inl invalid_user_map
        else case strtoul (tl e1) of (host_id, e2) \<Rightarrow>
          if e2 = [] \<or> hd e2 \<noteq> CHR '':'' then Inl invalid_user_map
          else case strtoul (tl e2) of (n, e3) \<Rightarrow>
            if e3 \<noteq> [] then Inl invalid_user_map
            else Inr (ucast i, ucast host_id, n))"

definition handle_user_map :: "user list \<Rightarrow> cstring \<Rightarrow> failure + user list" where
  "handle_user_map users arg =
     (case validate_optlist plenty (Some arg) of
        Inl e \<Rightarrow> Inl e
      | Inr _ \<Rightarrow>
          (case parse_user_map arg of
             Inl e \<Rightarrow> Inl e
           | Inr (i, host_id, n) \<Rightarrow>
               Inr (user_add_map (user_add_map users CHR ''u'' i host_id n)
                      CHR ''g'' i host_id n)))"

section \<open>Reading the map back\<close>

text \<open>
  The format of /proc/PID/uid_map (user_namespaces(7)): lines of three numbers
  separated by white space; and newuidmap's arguments after the pid: the
  numbers of all ranges in a row.
\<close>

definition read_numbers :: "cstring \<Rightarrow> nat list" where
  "read_numbers s = map (\<lambda>t. unat (fst (strtoul t))) (tokens '' '' s)"

definition read_id_map :: "cstring \<Rightarrow> nat list list" where
  "read_id_map s = map read_numbers (tokens [newline] s)"

definition range_of :: "user \<Rightarrow> nat list" where
  "range_of u = [unat (u_id u), unat (u_host_id u), unat (u_count u)]"

definition of_type :: "char \<Rightarrow> user list \<Rightarrow> user list" where
  "of_type type = filter (\<lambda>u. u_type u = type)"

lemma isdigit_not_sep: "isdigit c \<Longrightarrow> c \<noteq> newline \<and> c \<noteq> CHR '' ''"
  by (auto simp: isdigit_def newline_def)

lemma show_nat_clean:
  "newline \<notin> set (show_nat n)" "CHR '' '' \<notin> set (show_nat n)" "CHR '':'' \<notin> set (show_nat n)"
  using show_nat_digits [of n] isdigit_not_sep isdigit_not_sign by blast+

lemma strtoul_show_nat_end: "n < 2 ^ 64 \<Longrightarrow> strtoul (show_nat n) = (of_nat n, [])"
  using strtoul_show_nat [of n "[]"] by simp

lemma number_back: "n < 2 ^ 64 \<Longrightarrow> unat (fst (strtoul (show_nat n))) = n"
  by (simp only: strtoul_show_nat_end fst_conv unat_of_nat) simp

lemma number_back_u32 [simp]: "unat (fst (strtoul (show_nat (unat (w :: u32))))) = unat w"
proof (rule number_back)
  have "unat w < 2 ^ LENGTH(32)" by (rule unsigned_less)
  then show "unat w < 2 ^ 64" by simp
qed

lemma number_back_u64 [simp]: "unat (fst (strtoul (show_nat (unat (w :: u64))))) = unat w"
proof (rule number_back)
  have "unat w < 2 ^ LENGTH(64)" by (rule unsigned_less)
  then show "unat w < 2 ^ 64" by simp
qed

lemma tokens_number: "tokens '' '' (show_nat n @ CHR '' '' # s) = show_nat n # tokens '' '' s"
  using strtok_field(1) [of "show_nat n" "'' ''" "CHR '' ''" s] show_nat_clean
  by (simp add: tokens_Some)

lemma tokens_number_end: "tokens '' '' (show_nat n) = [show_nat n]"
  using strtok_field(2) [of "show_nat n" "'' ''" "CHR '' ''"] show_nat_clean
  by (simp add: tokens_Some)

lemma map_text_acc:
  "map_text sep type us acc = acc @ concat (map (map_entry sep) (of_type type us))"
  by (induction us arbitrary: acc) (simp_all add: of_type_def)

lemma read_numbers_entry:
  "read_numbers (map_entry CHR '' '' u @ s) = range_of u @ read_numbers s"
  by (simp add: read_numbers_def map_entry_def show_u32_def show_u64_def tokens_number range_of_def)

lemma read_newuidmap_args:
  "read_numbers (map_text CHR '' '' type us []) = concat (map range_of (of_type type us))"
proof -
  have "read_numbers (concat (map (map_entry CHR '' '') us)) = concat (map range_of us)" for us
    by (induction us) (simp_all add: read_numbers_entry, simp add: read_numbers_def)
  then show ?thesis by (simp add: map_text_acc)
qed

lemma read_numbers_line:
  "read_numbers (show_u32 (u_id u) @ '' '' @ show_u32 (u_host_id u) @ '' '' @ show_u64 (u_count u))
   = range_of u"
  by (simp add: read_numbers_def show_u32_def show_u64_def tokens_number tokens_number_end
      range_of_def)

lemma read_id_map_entry:
  "read_id_map (map_entry newline u @ s) = range_of u # read_id_map s"
proof -
  let ?l = "show_u32 (u_id u) @ '' '' @ show_u32 (u_host_id u) @ '' '' @ show_u64 (u_count u)"
  have "newline \<notin> set ?l"
    using show_nat_clean(1) by (auto simp: show_u32_def show_u64_def newline_def)
  then have "strtok (?l @ newline # s) [newline] = Some (?l, s)"
    by (intro strtok_field) auto
  then show ?thesis
    using read_numbers_line [of u] by (simp add: read_id_map_def map_entry_def tokens_Some)
qed

lemma read_id_map_text:
  "read_id_map (map_text newline type us []) = map range_of (of_type type us)"
proof -
  have "read_id_map (concat (map (map_entry newline) us)) = map range_of us" for us
    by (induction us) (simp_all add: read_id_map_entry, simp add: read_id_map_def)
  then show ?thesis by (simp add: map_text_acc)
qed

text \<open>on_path never stops the process and only looks at the environment and the disk.\<close>

lemma on_path_loop_run: "\<exists>r es. on_path_loop cmd rootfs ds k h = (Inr r, h @ map Access es)"
proof (induction ds arbitrary: h)
  case Nil
  then show ?case by (simp add: io_simps)
next
  case (Cons d ds)
  let ?c = "candidate cmd rootfs d"
  show ?case
  proof (cases "rc (k h (Access ?c)) = 0")
    case True
    then show ?thesis
      by (intro exI [of _ "Some ?c"] exI [of _ "[?c]"]) (simp add: io_simps)
  next
    case False
    from Cons.IH [of "h @ [Access ?c]"] obtain r es
      where "on_path_loop cmd rootfs ds k (h @ [Access ?c]) = (Inr r, (h @ [Access ?c]) @ map Access es)"
      by blast
    with False show ?thesis
      by (intro exI [of _ r] exI [of _ "?c # es"]) (simp add: io_simps)
  qed
qed

lemma on_path_run:
  "\<exists>r es. on_path cmd rootfs k h = (Inr r, h @ Getenv ''PATH'' # map Access es)"
proof (cases "sdata (k h (Getenv ''PATH''))")
  case None
  then show ?thesis
    by (intro exI [of _ None] exI [of _ "[]"]) (simp add: on_path_def io_simps)
next
  case (Some p)
  from on_path_loop_run [of cmd rootfs "tokens '':'' p" k "h @ [Getenv ''PATH'']"] obtain r es
    where "on_path_loop cmd rootfs (tokens '':'' p) k (h @ [Getenv ''PATH''])
             = (Inr r, (h @ [Getenv ''PATH'']) @ map Access es)" by blast
  with Some show ?thesis
    by (intro exI [of _ r] exI [of _ es]) (simp add: on_path_def io_simps)
qed

lemma strtoul_field: "n < 2 ^ 64 \<Longrightarrow> strtoul (show_nat n @ CHR '':'' # r) = (of_nat n, CHR '':'' # r)"
  using strtoul_show_nat [of n "CHR '':'' # r"] by (simp add: isdigit_def)

section \<open>Properties\<close>

text \<open>
  C12: Installing a mapping: when setup_user_map2 returns, the kernel was given
  exactly the ranges of the requested type, in the order in which they were
  added, either through newuidmap's arguments or, for a process with uid 0,
  through /proc/PID/uid_map; reading the text back gives the numbers.
\<close>

theorem setup_user_map2_installs:
  assumes "setup_user_map2 users type pid k h = (Inr (), h')"
  shows "\<exists>es. let look = Getenv ''PATH'' # map Access es in
    (\<exists>text. h' = h @ look @ [System (''new'' @ [type] @ ''idmap '' @ show_u32 pid @ '' '' @ text)] \<and>
       read_numbers text = concat (map range_of (of_type type users))) \<or>
    (\<exists>text. h' = h @ look @ [Geteuid,
         Open (''/proc/'' @ show_int (sint pid) @ ''/'' @ [type] @ ''id_map'') 2 0, Write text, Close] \<and>
       rc (k (h @ look) Geteuid) = 0 \<and>
       read_id_map text = map range_of (of_type type users))"
proof -
  obtain r es where op: "on_path ''newuidmap'' None k h = (Inr r, h @ Getenv ''PATH'' # map Access es)"
    using on_path_run by blast
  show ?thesis
  proof (cases r)
    case None
    with assms op show ?thesis
      by (intro exI [of _ es] , unfold Let_def, intro disjI2 exI [of _ "map_text newline type users []"])
         (auto simp: setup_user_map2_def Let_def io_Inr_iffs read_id_map_text)
  next
    case (Some c)
    with assms op show ?thesis
      by (intro exI [of _ es] , unfold Let_def, intro disjI1 exI [of _ "map_text CHR '' '' type users []"])
         (auto simp: setup_user_map2_def Let_def io_Inr_iffs read_newuidmap_args)
  qed
qed

text \<open>A kernel for the witnesses: uid 0, no PATH, every call succeeds.\<close>

definition root_kernel :: kernel where
  "root_kernel h c = ok"

theorem setup_user_map2_installs_witness:
  "\<exists>text. trace (setup_user_map2 [\<lparr>u_type = CHR ''u'', u_id = 0, u_host_id = 1000, u_count = 1\<rparr>]
       CHR ''u'' 42) root_kernel =
     [Getenv ''PATH'', Geteuid, Open ''/proc/42/uid_map'' 2 0, Write text, Close] \<and>
     read_id_map text = [[0, 1000, 1]]"
proof -
  let ?us = "[\<lparr>u_type = CHR ''u'', u_id = 0, u_host_id = 1000, u_count = 1\<rparr>]"
  have pid: "show_int 42 = ''42''"
    by (simp add: show_int_def show_nat_eval)
  obtain h' where run: "setup_user_map2 ?us CHR ''u'' 42 root_kernel [] = (Inr (), h')"
    by (simp add: setup_user_map2_def on_path_def io_simps root_kernel_def)
  moreover have "h' = [Getenv ''PATH'', Geteuid, Open ''/proc/42/uid_map'' 2 0,
      Write (map_text newline CHR ''u'' ?us []), Close]"
    using run by (auto simp: setup_user_map2_def on_path_def io_simps root_kernel_def pid)
  ultimately show ?thesis
    using setup_user_map2_installs [OF run]
    by (auto simp: trace_def of_type_def range_of_def Cons_eq_append_conv)
qed

text \<open>
  C34: A \<open>--user-map\<close> argument made of three printed numbers is read back: the
  count exactly, the two ids modulo \<open>2 ^ 32\<close>, since the code assigns strtoul's
  64-bit result to a 32-bit uid_t without a range check.
\<close>

theorem parse_user_map_show:
  assumes "a < 2 ^ 64" "b < 2 ^ 64" "c < 2 ^ 64"
  shows "\<exists>i j n. parse_user_map (show_nat a @ '':'' @ show_nat b @ '':'' @ show_nat c) = Inr (i, j, n) \<and>
    unat i = a mod 2 ^ 32 \<and> unat j = b mod 2 ^ 32 \<and> unat n = c"
proof -
  have "unat (ucast (of_nat m :: u64) :: u32) = m mod 2 ^ 32" if "m < 2 ^ 64" for m
    using that by (simp add: unsigned_ucast_eq unat_of_nat take_bit_eq_mod)
  with assms show ?thesis
    by (simp add: parse_user_map_def strtoul_field strtoul_show_nat_end unat_of_nat)
qed

theorem parse_user_map_show_witness:
  "\<exists>i j n. parse_user_map ''4294967296:1000:1'' = Inr (i, j, n) \<and>
     unat i = 0 \<and> unat j = 1000 \<and> unat n = 1"
proof -
  have "show_nat 4294967296 @ '':'' @ show_nat 1000 @ '':'' @ show_nat 1 = ''4294967296:1000:1''"
    by (simp add: show_nat_eval)
  then show ?thesis
    using parse_user_map_show [of 4294967296 1000 1] by simp
qed

text \<open>
  A \<open>--user-map\<close> argument with an empty host field is not rejected: it maps
  to host id 0, once as a user and once as a group.
\<close>

lemma empty_host_id_is_root:
  assumes "a < 2 ^ 64" "c < 2 ^ 64"
  shows "handle_user_map users (show_nat a @ ''::'' @ show_nat c) =
    Inr (users @ [\<lparr>u_type = CHR ''u'', u_id = ucast (of_nat a :: u64), u_host_id = 0, u_count = of_nat c\<rparr>,
                  \<lparr>u_type = CHR ''g'', u_id = ucast (of_nat a :: u64), u_host_id = 0, u_count = of_nat c\<rparr>])"
proof -
  let ?arg = "show_nat a @ ''::'' @ show_nat c"
  have "opt_fields ?arg \<noteq> None"
    using show_nat_clean(3) [of a] show_nat_nonempty [of a]
    by (cases "show_nat a") (auto simp: opt_fields_def)
  then have "validate_optlist plenty (Some ?arg) = Inr (length (the (opt_fields ?arg)))"
    by (subst validate_optlist_cases) auto
  moreover have "parse_user_map ?arg = Inr (ucast (of_nat a :: u64), 0, of_nat c)"
    using assms by (simp add: parse_user_map_def strtoul_field strtoul_show_nat_end strtoul_no_digit)
  ultimately show ?thesis by (simp add: handle_user_map_def user_add_map_def)
qed

lemma empty_host_id_is_root_example:
  "handle_user_map [] ''5::1'' =
     Inr [\<lparr>u_type = CHR ''u'', u_id = 5, u_host_id = 0, u_count = 1\<rparr>,
          \<lparr>u_type = CHR ''g'', u_id = 5, u_host_id = 0, u_count = 1\<rparr>]"
proof -
  have "show_nat 5 @ ''::'' @ show_nat 1 = ''5::1''" by (simp add: show_nat_eval)
  then show ?thesis using empty_host_id_is_root [of 5 1 "[]"] by simp
qed

text \<open>
  user_get_mapped_root returns the host id of the first mapping of the type
  whose range starts at container id 0, and reports a failure exactly when
  there is none.
\<close>

lemma user_get_mapped_root_first:
  "user_get_mapped_root users type =
     map_option u_host_id (find (\<lambda>u. u_type u = type \<and> u_id u = 0) users)"
  by (induction users) auto

text \<open>
  credentials(7), capabilities(7): the three uids of a process and whether it has
  CAP_SETGID, permitted and effective.  A successful setresuid sets the uids that
  are not -1.  If one of the three was 0 and none is afterwards, all capabilities
  are cleared; if only the effective one changes from 0 or to 0, the effective
  capabilities are cleared, or become the permitted ones.
\<close>

record creds =
  ruid :: u32
  euid :: u32
  suid :: u32
  permitted :: bool
  effective :: bool

definition new_uid :: "u32 \<Rightarrow> u32 \<Rightarrow> u32" where
  "new_uid old u = (if u = -1 then old else u)"

definition set_uids :: "u32 \<Rightarrow> u32 \<Rightarrow> u32 \<Rightarrow> creds \<Rightarrow> creds" where
  "set_uids r e s c =
     (let r' = new_uid (ruid c) r; e' = new_uid (euid c) e; s' = new_uid (suid c) s;
          cleared = (0 \<in> {ruid c, euid c, suid c} \<and> 0 \<notin> {r', e', s'});
          p = (permitted c \<and> \<not> cleared)
      in \<lparr>ruid = r', euid = e', suid = s', permitted = p,
          effective = (if cleared \<or> euid c = 0 \<and> e' \<noteq> 0 then False
                       else if euid c \<noteq> 0 \<and> e' = 0 then p else effective c)\<rparr>)"

fun creds_step :: "call \<Rightarrow> reply \<Rightarrow> creds \<Rightarrow> creds" where
  "creds_step (Setresuid r e s) x c = (if rc x \<ge> 0 then set_uids r e s c else c)"
| "creds_step _ x c = c"

text \<open>
  setgroups(2): without CAP_SETGID it fails.  Only histories of the calls below are
  considered; others could change the capabilities, too.
\<close>

fun user_call :: "call \<Rightarrow> bool" where
  "user_call (Getpwnam u) = True"
| "user_call (Setresgid r e s) = True"
| "user_call (Setresuid r e s) = True"
| "user_call (Setgroups n) = True"
| "user_call _ = False"

definition setgroups_privileged :: "kernel \<Rightarrow> creds \<Rightarrow> bool" where
  "setgroups_privileged k c \<longleftrightarrow>
     (\<forall>h n. list_all user_call h \<longrightarrow> \<not> effective (replay creds_step k [] h c) \<longrightarrow>
        rc (k h (Setgroups n)) < 0)"

text \<open>
  C37: setup_user changes the uids before the groups.  For a process with a uid 0
  and every user of the password file with a uid other than 0 (and -1), it
  therefore never succeeds: where setresgid and setresuid do, the setgroups that
  comes last is refused, and the container does not start.
\<close>

theorem setup_user_setgroups_refused:
  assumes "setgroups_privileged k c" and "0 \<in> {ruid c, euid c, suid c}"
    and "user \<noteq> ''root''" and "0 \<le> rc (k [] (Getpwnam user))"
    and "st_uid (k [] (Getpwnam user)) \<notin> {0, -1}"
  shows "let u = st_uid (k [] (Getpwnam user)); g = st_gid (k [] (Getpwnam user));
      h = [Getpwnam user]; h1 = h @ [Setresgid g g g] in
    outcome (setup_user user) k = Inl (Sysf
      (if rc (k h (Setresgid g g g)) < 0 then ''Error settign GID''
       else if rc (k h1 (Setresuid u u u)) < 0 then ''Error setting UID''
       else ''Error setting groups''))"
proof -
  have nr: "\<not> strneq 5 user ''root''" using assms(3) strneq_long [of "''root''" 5 user] by simp
  let ?u = "st_uid (k [] (Getpwnam user))" and ?g = "st_gid (k [] (Getpwnam user))"
  let ?h1 = "[Getpwnam user, Setresgid ?g ?g ?g]"
  let ?h = "?h1 @ [Setresuid ?u ?u ?u]"
  have u: "?u \<noteq> 0" "?u \<noteq> -1" using assms(5) by simp_all
  have "rc (k ?h (Setgroups 0)) < 0" if "0 \<le> rc (k ?h1 (Setresuid ?u ?u ?u))"
  proof -
    have "\<not> effective (set_uids ?u ?u ?u c)"
      using assms(2) u by (simp add: set_uids_def new_uid_def Let_def)
    then have "\<not> effective (replay creds_step k [] ?h c)" using that by simp
    moreover have "list_all user_call ?h" by simp
    ultimately show ?thesis using assms(1) unfolding setgroups_privileged_def by blast
  qed
  with nr assms(4) show ?thesis
    by (simp add: setup_user_def user_get_uid_gid_def io_simps Let_def)
qed

text \<open>A kernel that keeps to these rules, for a process that starts as root.\<close>

definition root_creds :: creds where
  "root_creds = \<lparr>ruid = 0, euid = 0, suid = 0, permitted = True, effective = True\<rparr>"

definition cred_kernel :: kernel where
  "cred_kernel h c =
     (case c of
        Getpwnam _ \<Rightarrow> ok\<lparr>st_uid := 1000, st_gid := 1000\<rparr>
      | Setgroups _ \<Rightarrow>
          if effective (replay creds_step (\<lambda>_ _. ok) [] h root_creds) then ok else failed EPERM
      | _ \<Rightarrow> ok)"

lemma cred_kernel_creds: "replay creds_step cred_kernel h0 h c = replay creds_step (\<lambda>_ _. ok) h0 h c"
proof (induction h arbitrary: h0 c)
  case (Cons d h)
  have "creds_step d (cred_kernel h0 d) c = creds_step d ok c"
    by (cases d) (simp_all add: cred_kernel_def)
  with Cons show ?case by simp
qed simp

theorem setup_user_setgroups_refused_witness:
  "outcome (setup_user ''ghedo'') cred_kernel = Inl (Sysf ''Error setting groups'')"
proof -
  have "setgroups_privileged cred_kernel root_creds"
    unfolding setgroups_privileged_def cred_kernel_creds by (simp add: cred_kernel_def)
  from setup_user_setgroups_refused [OF this, of "''ghedo''"] show ?thesis
    by (simp add: root_creds_def cred_kernel_def Let_def)
qed

end
