(* ===== verification/Sync.thy ===== *)
theory Sync
  imports Prelude
begin

text \<open>
  sync.c: the socket pair on which parent and child wait for each other, and the
  protocol that main runs on it.  Index 0 of the pair is the child's end and 1
  the parent's; what is written to one is read from the other.  After the clone
  both processes hold both ends.

  The first part models the functions as programs.  The second models the two
  processes of main as a transition system over the operations of the first,
  with an explicit queue per end, the set of ends that each process holds, and
  crashes at any moment.
\<close>

section \<open>The functions\<close>

definition SYNC_START :: int where "SYNC_START = 0"
definition SYNC_DONE :: int where "SYNC_DONE = 1"

text \<open>
  The array of the two descriptors: the child's end and the parent's end, each -1
  once it is closed.
\<close>

type_synonym sync_fds = "int \<times> int"

definition sync_init :: "sync_fds io" where
  "sync_init =
     io_bind (sys (Sync Socketpair)) (\<lambda>r.
     io_seq (sys_fail_if (rc r < 0) ''Error creating socket pair'')
     (let fd = fd_pair r in
      io_seq (checked (Sync (Fcntl_cloexec (fst fd))) ''Error setting FD_CLOEXEC'') (io_ret fd)))"

text \<open>What sync_wait makes of read's result and of the integer that it read.\<close>

definition sync_check :: "int \<Rightarrow> int \<Rightarrow> int \<Rightarrow> failure + unit" where
  "sync_check seq r sync =
     (if r < 0 then Inl (Sysf ''Error reading from socket'')
      else if r = 0 then Inr ()
      else if sync \<noteq> seq then Inl (Fail ''Invalid sync sequence: %d != %d'')
      else Inr ())"

definition sync_wait :: "int \<Rightarrow> int \<Rightarrow> unit io" where
  "sync_wait fd seq = io_bind (sys (Sync (Read_int fd))) (\<lambda>r. io_lift (sync_check seq (rc r) (num r)))"

definition sync_wake :: "int \<Rightarrow> int \<Rightarrow> unit io" where
  "sync_wake fd seq = checked (Sync (Write_int fd seq)) ''Error waking process''"

definition sync_barrier :: "int \<Rightarrow> int \<Rightarrow> unit io" where
  "sync_barrier fd seq = io_seq (sync_wake fd seq) (sync_wait fd (seq + 1))"

definition sync_wait_child :: "sync_fds \<Rightarrow> int \<Rightarrow> unit io" where
  "sync_wait_child fd seq = sync_wait (snd fd) seq"

definition sync_wait_parent :: "sync_fds \<Rightarrow> int \<Rightarrow> unit io" where
  "sync_wait_parent fd seq = sync_wait (fst fd) seq"

definition sync_wake_child :: "sync_fds \<Rightarrow> int \<Rightarrow> unit io" where
  "sync_wake_child fd seq = sync_wake (snd fd) seq"

definition sync_wake_parent :: "sync_fds \<Rightarrow> int \<Rightarrow> unit io" where
  "sync_wake_parent fd seq = sync_wake (fst fd) seq"

definition sync_barrier_child :: "sync_fds \<Rightarrow> int \<Rightarrow> unit io" where
  "sync_barrier_child fd seq = sync_barrier (snd fd) seq"

definition sync_barrier_parent :: "sync_fds \<Rightarrow> int \<Rightarrow> unit io" where
  "sync_barrier_parent fd seq = sync_barrier (fst fd) seq"

definition sync_close_child :: "sync_fds \<Rightarrow> sync_fds io" where
  "sync_close_child fd =
     (if fst fd \<noteq> -1
      then io_seq (checked (Sync (Close_fd (fst fd))) ''Error closing fd'') (io_ret (-1, snd fd))
      else io_ret fd)"

definition sync_close_parent :: "sync_fds \<Rightarrow> sync_fds io" where
  "sync_close_parent fd =
     (if snd fd \<noteq> -1
      then io_seq (checked (Sync (Close_fd (snd fd))) ''Error closing fd'') (io_ret (fst fd, -1))
      else io_ret fd)"

definition sync_close :: "sync_fds \<Rightarrow> sync_fds io" where
  "sync_close fd = io_bind (sync_close_child fd) sync_close_parent"

section \<open>The protocol\<close>

text \<open>
  The operations of main between the clone and the end of the
  synchronisation.  \<open>Do\<close> stands for the work that is synchronised: the child's
  prctl (to be killed when its parent ends), its setsid and its setup with the
  command; the parent's setup of control groups, interfaces and user maps, and
  its relaying of the terminal.
\<close>

datatype proc = Parent | Child

datatype act = A_prctl | A_setsid | A_run | A_setup | A_serve

datatype op = Do act | Wake nat int | Wait nat int | Close_ends

definition barrier_ops :: "nat \<Rightarrow> int \<Rightarrow> op list" where
  "barrier_ops fd seq = [Wake fd seq, Wait fd (seq + 1)]"

fun program :: "proc \<Rightarrow> op list" where
  "program Child =
     [Do A_prctl, Do A_setsid] @ barrier_ops 0 SYNC_START @ [Close_ends, Do A_run]"
| "program Parent =
     [Wait 1 SYNC_START, Do A_setup, Wake 1 SYNC_DONE, Close_ends, Do A_serve]"

record world =
  pos :: "proc \<Rightarrow> nat"
  queue :: "nat \<Rightarrow> int list"
  held :: "proc \<Rightarrow> nat set"
  alive :: "proc \<Rightarrow> bool"
  log :: "(proc \<times> act) list"

definition cloned :: world where
  "cloned = \<lparr>pos = (\<lambda>_. 0), queue = (\<lambda>_. []), held = (\<lambda>_. {0, 1}), alive = (\<lambda>_. True), log = []\<rparr>"

definition next_op :: "world \<Rightarrow> proc \<Rightarrow> op option" where
  "next_op s p = (if alive s p \<and> pos s p < length (program p) then Some (program p ! pos s p) else None)"

definition advance :: "proc \<Rightarrow> world \<Rightarrow> world" where
  "advance p s = s\<lparr>pos := (pos s)(p := pos s p + 1)\<rparr>"

text \<open>Does a living process hold the end opposite to \<open>e\<close>?\<close>

definition peer_open :: "world \<Rightarrow> nat \<Rightarrow> bool" where
  "peer_open s e \<longleftrightarrow>
     alive s Parent \<and> 1 - e \<in> held s Parent \<or> alive s Child \<and> 1 - e \<in> held s Child"

text \<open>The end of a process; the kernel kills the child with its parent after prctl.\<close>

definition end_proc :: "proc \<Rightarrow> world \<Rightarrow> world" where
  "end_proc p s =
     s\<lparr>alive := (if p = Parent \<and> (Child, A_prctl) \<in> set (log s) then (\<lambda>_. False)
                else (alive s)(p := False))\<rparr>"

text \<open>
  One operation of a process.  Reading from an empty queue blocks while the
  other end is open somewhere and is an end of file otherwise; writing with no
  reader ends the process.
\<close>

inductive step :: "world \<Rightarrow> world \<Rightarrow> bool" where
  step_do: "next_op s p = Some (Do a) \<Longrightarrow> step s (advance p (s\<lparr>log := log s @ [(p, a)]\<rparr>))"
| step_wake: "next_op s p = Some (Wake e v) \<Longrightarrow> peer_open s e \<Longrightarrow>
    step s (advance p (s\<lparr>queue := (queue s)(1 - e := queue s (1 - e) @ [v])\<rparr>))"
| step_broken: "next_op s p = Some (Wake e v) \<Longrightarrow> \<not> peer_open s e \<Longrightarrow> step s (end_proc p s)"
| step_wait: "next_op s p = Some (Wait e v) \<Longrightarrow> queue s e = x # xs \<Longrightarrow>
    step s (if sync_check v 4 x = Inr () then advance p (s\<lparr>queue := (queue s)(e := xs)\<rparr>)
            else end_proc p s)"
| step_eof: "next_op s p = Some (Wait e v) \<Longrightarrow> queue s e = [] \<Longrightarrow> \<not> peer_open s e \<Longrightarrow>
    step s (if sync_check v 0 (-1) = Inr () then advance p s else end_proc p s)"
| step_close: "next_op s p = Some Close_ends \<Longrightarrow>
    step s (advance p (s\<lparr>held := (held s)(p := {})\<rparr>))"

text \<open>A process may fail or be killed at any moment.\<close>

inductive crash :: "world \<Rightarrow> world \<Rightarrow> bool" where
  "alive s p \<Longrightarrow> crash s (end_proc p s)"

inductive reach :: "world \<Rightarrow> bool" where
  reach_init: "reach cloned"
| reach_step: "reach s \<Longrightarrow> step s t \<Longrightarrow> reach t"
| reach_crash: "reach s \<Longrightarrow> crash s t \<Longrightarrow> reach t"

inductive_cases crashE: "crash s t"

section \<open>The invariant\<close>

lemma program_simps:
  "program Child = [Do A_prctl, Do A_setsid, Wake 0 0, Wait 0 1, Close_ends, Do A_run]"
  "program Parent = [Wait 1 0, Do A_setup, Wake 1 1, Close_ends, Do A_serve]"
  by (simp_all add: barrier_ops_def SYNC_START_def SYNC_DONE_def)

lemma next_op_cases:
  "next_op s Child = Some o1 \<longleftrightarrow> alive s Child \<and>
     (pos s Child = 0 \<and> o1 = Do A_prctl \<or> pos s Child = 1 \<and> o1 = Do A_setsid \<or>
      pos s Child = 2 \<and> o1 = Wake 0 0 \<or> pos s Child = 3 \<and> o1 = Wait 0 1 \<or>
      pos s Child = 4 \<and> o1 = Close_ends \<or> pos s Child = 5 \<and> o1 = Do A_run)"
  "next_op s Parent = Some o1 \<longleftrightarrow> alive s Parent \<and>
     (pos s Parent = 0 \<and> o1 = Wait 1 0 \<or> pos s Parent = 1 \<and> o1 = Do A_setup \<or>
      pos s Parent = 2 \<and> o1 = Wake 1 1 \<or> pos s Parent = 3 \<and> o1 = Close_ends \<or>
      pos s Parent = 4 \<and> o1 = Do A_serve)"
  unfolding next_op_def program_simps
  by (auto simp: less_Suc_eq numeral_eq_Suc)

text \<open>
  Where the processes may be, what is in the queues, which ends are held.  The
  bare wait of the parent passes only after the child's wake, and the child's
  only after the parent's.
\<close>

definition placed :: "world \<Rightarrow> bool" where
  "placed s \<longleftrightarrow> (let i = pos s Child; j = pos s Parent in
     i \<le> 6 \<and> j \<le> 5 \<and> (1 \<le> j \<longrightarrow> 3 \<le> i) \<and> (4 \<le> i \<longrightarrow> 3 \<le> j) \<and>
     queue s 1 = (if 3 \<le> i \<and> j = 0 then [0] else []) \<and>
     queue s 0 = (if 3 \<le> j \<and> i \<le> 3 then [1] else []) \<and>
     held s Parent = (if j \<le> 3 then {0, 1} else {}) \<and>
     held s Child = (if i \<le> 4 then {0, 1} else {}))"

text \<open>What has been done, and in which order.\<close>

definition logged :: "world \<Rightarrow> bool" where
  "logged s \<longleftrightarrow> (let i = pos s Child; j = pos s Parent; L = set (log s) in
     ((Child, A_prctl) \<in> L \<longleftrightarrow> 1 \<le> i) \<and> ((Child, A_setsid) \<in> L \<longleftrightarrow> 2 \<le> i) \<and>
     ((Child, A_run) \<in> L \<longleftrightarrow> 6 \<le> i) \<and> ((Parent, A_setup) \<in> L \<longleftrightarrow> 2 \<le> j))"

definition ordered :: "(proc \<times> act) list \<Rightarrow> bool" where
  "ordered L \<longleftrightarrow> (\<forall>n < length L.
     (L ! n = (Parent, A_setup) \<longrightarrow> {(Child, A_prctl), (Child, A_setsid)} \<subseteq> set (take n L)) \<and>
     (L ! n = (Child, A_run) \<longrightarrow> (Parent, A_setup) \<in> set (take n L)))"

lemma ordered_Nil [simp]: "ordered []"
  by (simp add: ordered_def)

lemma ordered_snoc:
  "ordered (L @ [x]) \<longleftrightarrow> ordered L \<and>
     (x = (Parent, A_setup) \<longrightarrow> {(Child, A_prctl), (Child, A_setsid)} \<subseteq> set L) \<and>
     (x = (Child, A_run) \<longrightarrow> (Parent, A_setup) \<in> set L)"
  by (auto simp: ordered_def nth_append less_Suc_eq)

definition inv_sync :: "world \<Rightarrow> bool" where
  "inv_sync s \<longleftrightarrow> placed s \<and> logged s \<and> ordered (log s)"

declare program.simps [simp del]

lemma program_length: "length (program Child) = 6" "length (program Parent) = 5"
  by (simp_all add: program_simps)

text \<open>A step is an operation of some process that is not blocked.\<close>

lemma step_enabled:
  "step s t \<Longrightarrow> \<exists>p o1. next_op s p = Some o1 \<and>
     (\<forall>e v. o1 = Wait e v \<longrightarrow> queue s e \<noteq> [] \<or> \<not> peer_open s e)"
  by (induction rule: step.induct) (blast, blast, blast, fastforce, blast, blast)

lemma end_proc_simps [simp]:
  "pos (end_proc p s) = pos s" "queue (end_proc p s) = queue s" "held (end_proc p s) = held s"
  "log (end_proc p s) = log s"
  by (simp_all add: end_proc_def)

lemma inv_end_proc: "inv_sync s \<Longrightarrow> inv_sync (end_proc p s)"
  by (simp add: inv_sync_def placed_def logged_def)

lemma placed_held:
  "placed s \<Longrightarrow> pos s Child \<le> 4 \<Longrightarrow> held s Child = {0, 1}"
  "placed s \<Longrightarrow> pos s Parent \<le> 3 \<Longrightarrow> held s Parent = {0, 1}"
  by (simp_all add: placed_def Let_def)

lemma placed_own_ends:
  assumes "placed s" and "e \<le> 1"
  shows "alive s Child \<Longrightarrow> pos s Child \<le> 4 \<Longrightarrow> peer_open s e"
    and "alive s Parent \<Longrightarrow> pos s Parent \<le> 3 \<Longrightarrow> peer_open s e"
proof -
  have "1 - e \<in> {0, 1}" using assms(2) by auto
  then show "alive s Child \<Longrightarrow> pos s Child \<le> 4 \<Longrightarrow> peer_open s e"
    and "alive s Parent \<Longrightarrow> pos s Parent \<le> 3 \<Longrightarrow> peer_open s e"
    unfolding peer_open_def using placed_held [OF assms(1)] by metis+
qed

lemma do_cases:
  assumes "next_op s p = Some (Do a)"
  obtains "p = Child" "a = A_prctl" "pos s Child = 0" | "p = Child" "a = A_setsid" "pos s Child = 1"
  | "p = Child" "a = A_run" "pos s Child = 5" | "p = Parent" "a = A_setup" "pos s Parent = 1"
  | "p = Parent" "a = A_serve" "pos s Parent = 4"
  using assms by (cases p) (auto simp: next_op_cases)

lemma inv_do:
  assumes "inv_sync s" "next_op s p = Some (Do a)"
  shows "inv_sync (advance p (s\<lparr>log := log s @ [(p, a)]\<rparr>))"
proof -
  have inv: "placed s" "logged s" "ordered (log s)" using assms(1) by (simp_all add: inv_sync_def)
  from assms(2) show ?thesis
  proof (cases rule: do_cases)
    case 1
    with inv show ?thesis
      by (simp add: inv_sync_def placed_def logged_def ordered_snoc advance_def Let_def)
  next
    case 2
    with inv show ?thesis
      by (simp add: inv_sync_def placed_def logged_def ordered_snoc advance_def Let_def)
  next
    case 3
    with inv show ?thesis
      by (simp add: inv_sync_def placed_def logged_def ordered_snoc advance_def Let_def)
  next
    case 4
    with inv show ?thesis
      by (simp add: inv_sync_def placed_def logged_def ordered_snoc advance_def Let_def)
  next
    case 5
    with inv show ?thesis
      by (simp add: inv_sync_def placed_def logged_def ordered_snoc advance_def Let_def)
  qed
qed

lemma inv_wake:
  assumes "inv_sync s" "next_op s p = Some (Wake e v)"
  shows "inv_sync (advance p (s\<lparr>queue := (queue s)(1 - e := queue s (1 - e) @ [v])\<rparr>))"
  using assms
  by (cases p)
     (auto simp: inv_sync_def advance_def next_op_cases placed_def logged_def Let_def split: if_splits)

lemma inv_wait:
  assumes "inv_sync s" "next_op s p = Some (Wait e v)" "queue s e = x # xs"
  shows "sync_check v 4 x = Inr () \<and> inv_sync (advance p (s\<lparr>queue := (queue s)(e := xs)\<rparr>))"
  using assms
  by (cases p)
     (auto simp: inv_sync_def advance_def next_op_cases placed_def logged_def sync_check_def Let_def
        split: if_splits)

lemma inv_close:
  assumes "inv_sync s" "next_op s p = Some Close_ends"
  shows "inv_sync (advance p (s\<lparr>held := (held s)(p := {})\<rparr>))"
  using assms
  by (cases p)
     (auto simp: inv_sync_def advance_def next_op_cases placed_def logged_def Let_def split: if_splits)

lemma no_eof:
  assumes "inv_sync s" "next_op s p = Some (Wait e v)"
  shows "peer_open s e"
  using assms placed_own_ends [of s e]
  by (cases p) (auto simp: inv_sync_def next_op_cases)

lemma no_broken:
  assumes "inv_sync s" "next_op s p = Some (Wake e v)"
  shows "peer_open s e"
  using assms placed_own_ends [of s e]
  by (cases p) (auto simp: inv_sync_def next_op_cases)

lemma inv_step: "step s t \<Longrightarrow> inv_sync s \<Longrightarrow> inv_sync t"
proof (induction rule: step.induct)
  case (step_wait s p e v x xs)
  then show ?case using inv_wait [of s p e v x xs] by simp
next
  case (step_eof s p e v)
  then show ?case using no_eof by blast
next
  case (step_wake s p e v)
  then show ?case by (blast intro: inv_wake)
qed (simp_all add: inv_do inv_close inv_end_proc)

lemma inv_init: "inv_sync cloned"
  by (simp add: inv_sync_def cloned_def placed_def logged_def Let_def)

lemma reach_inv: "reach s \<Longrightarrow> inv_sync s"
proof (induction rule: reach.induct)
  case (reach_crash s t)
  then show ?case by (auto elim!: crashE simp: inv_end_proc)
qed (auto simp: inv_init inv_step)

section \<open>Properties\<close>

text \<open>
  C1: The synchronisation works, whenever and wherever a process crashes: the
  child runs the container only after the parent has finished its setup (control
  groups, interfaces, user maps), and the parent starts this setup only after
  the child has asked to die with its parent and has its own session.  In
  particular sync_wait's acceptance of an end of file never lets a process
  through.
\<close>

theorem sync_order:
  assumes "reach s" and "n < length (log s)"
  shows "(log s ! n = (Child, A_run) \<longrightarrow> (Parent, A_setup) \<in> set (take n (log s))) \<and>
    (log s ! n = (Parent, A_setup) \<longrightarrow>
       {(Child, A_prctl), (Child, A_setsid)} \<subseteq> set (take n (log s)))"
  using reach_inv [OF assms(1)] assms(2) by (simp add: inv_sync_def ordered_def)

text \<open>The child's first operations, for the witnesses.\<close>

lemma child_start:
  "\<exists>s. reach s \<and> pos s = (\<lambda>_. 0)(Child := n) \<and> alive s = (\<lambda>_. True) \<and> log s = take n [(Child, A_prctl), (Child, A_setsid)]"
  if "n \<le> 2" for n
proof -
  let ?s1 = "advance Child (cloned\<lparr>log := [(Child, A_prctl)]\<rparr>)"
  let ?s2 = "advance Child (?s1\<lparr>log := [(Child, A_prctl), (Child, A_setsid)]\<rparr>)"
  have 1: "reach ?s1"
    using step_do [of cloned Child A_prctl] reach_step [OF reach_init]
    by (simp add: next_op_cases cloned_def)
  have 2: "reach ?s2"
    using step_do [of ?s1 Child A_setsid] reach_step [OF 1]
    by (simp add: next_op_cases cloned_def advance_def)
  from that consider "n = 0" | "n = 1" | "n = 2" by linarith
  then show ?thesis
  proof cases
    case 1
    then show ?thesis using reach_init by (auto simp: cloned_def fun_eq_iff)
  next
    case 2
    with \<open>reach ?s1\<close> show ?thesis by (intro exI [of _ ?s1]) (simp add: advance_def cloned_def)
  next
    case 3
    with 2 show ?thesis by (intro exI [of _ ?s2]) (simp add: advance_def cloned_def numeral_2_eq_2)
  qed
qed

text \<open>
  What an operation that is not blocked does: its process goes one operation
  further, nobody ends, and only \<open>Do\<close> is logged.
\<close>

lemma go_on:
  assumes inv: "inv_sync s" and o1: "next_op s p = Some o1"
    and wait: "\<And>e v. o1 = Wait e v \<Longrightarrow> queue s e \<noteq> []"
  shows "\<exists>t. step s t \<and> pos t = (pos s)(p := pos s p + 1) \<and> alive t = alive s \<and>
    log t = log s @ (case o1 of Do a \<Rightarrow> [(p, a)] | _ \<Rightarrow> [])"
proof (cases o1)
  case (Do a)
  with o1 show ?thesis using step_do [of s p a] by (auto simp: advance_def)
next
  case (Wake e v)
  with o1 show ?thesis
    using step_wake [of s p e v] no_broken [OF inv] by (fastforce simp: advance_def)
next
  case (Wait e v)
  with wait obtain x xs where "queue s e = x # xs" by (cases "queue s e") auto
  with o1 Wait show ?thesis
    using step_wait [of s p e v x xs] inv_wait [OF inv, of p e v x xs]
    by (auto simp: advance_def)
next
  case Close_ends
  with o1 show ?thesis using step_close [of s p] by (auto simp: advance_def)
qed

text \<open>The same for a state that is reached with both processes alive.\<close>

lemma reach_on:
  assumes "reach s" and "alive s = (\<lambda>_. True)" and "next_op s p = Some o1"
    and "\<And>e v. o1 = Wait e v \<Longrightarrow> queue s e \<noteq> []"
  shows "\<exists>t. reach t \<and> alive t = (\<lambda>_. True) \<and> pos t = (pos s)(p := pos s p + 1) \<and>
    log t = log s @ (case o1 of Do a \<Rightarrow> [(p, a)] | _ \<Rightarrow> [])"
proof -
  obtain t where t: "step s t" "pos t = (pos s)(p := pos s p + 1)" "alive t = alive s"
    "log t = log s @ (case o1 of Do a \<Rightarrow> [(p, a)] | _ \<Rightarrow> [])"
    using go_on [OF reach_inv [OF assms(1)] assms(3)] assms(4) by blast
  have "reach t" using assms(1) t(1) by (rule reach_step)
  with t(2-4) assms(2) show ?thesis by (intro exI [of _ t]) simp
qed

text \<open>A whole run, up to the start of the container.\<close>

lemma whole_run:
  "\<exists>s. reach s \<and> log s = [(Child, A_prctl), (Child, A_setsid), (Parent, A_setup), (Child, A_run)]"
proof -
  obtain a where a: "reach a" "alive a = (\<lambda>_. True)" "pos a = (\<lambda>_. 0)(Child := 2)"
    "log a = [(Child, A_prctl), (Child, A_setsid)]" using child_start [of 2] by auto
  obtain b where b: "reach b" "alive b = (\<lambda>_. True)" "pos b = (pos a)(Child := 3)" "log b = log a"
    using reach_on [OF a(1,2), of Child "Wake 0 0"] a by (auto simp: next_op_cases)
  have "queue b 1 = [0]"
    using reach_inv [OF b(1)] a b by (simp add: inv_sync_def placed_def Let_def)
  then obtain c where c: "reach c" "alive c = (\<lambda>_. True)" "pos c = (pos b)(Parent := 1)" "log c = log a"
    using reach_on [OF b(1,2), of Parent "Wait 1 0"] a b by (auto simp: next_op_cases)
  obtain d where d: "reach d" "alive d = (\<lambda>_. True)" "pos d = (pos c)(Parent := 2)"
    "log d = log a @ [(Parent, A_setup)]"
    using reach_on [OF c(1,2), of Parent "Do A_setup"] a b c by (auto simp: next_op_cases numeral_2_eq_2)
  obtain e where e: "reach e" "alive e = (\<lambda>_. True)" "pos e = (pos d)(Parent := 3)" "log e = log d"
    using reach_on [OF d(1,2), of Parent "Wake 1 1"] a b c d by (auto simp: next_op_cases)
  have "queue e 0 = [1]"
    using reach_inv [OF e(1)] a b c d e by (simp add: inv_sync_def placed_def Let_def)
  then obtain f where f: "reach f" "alive f = (\<lambda>_. True)" "pos f = (pos e)(Child := 4)" "log f = log d"
    using reach_on [OF e(1,2), of Child "Wait 0 1"] a b c d e by (auto simp: next_op_cases)
  obtain g where g: "reach g" "alive g = (\<lambda>_. True)" "pos g = (pos f)(Child := 5)" "log g = log d"
    using reach_on [OF f(1,2), of Child Close_ends] a b c d e f by (auto simp: next_op_cases)
  obtain h where "reach h" "log h = log d @ [(Child, A_run)]"
    using reach_on [OF g(1,2), of Child "Do A_run"] a b c d e f g by (auto simp: next_op_cases)
  then show ?thesis using a(4) d(4) by auto
qed

theorem sync_order_witness:
  "\<exists>s. reach s \<and> log s = [(Child, A_prctl), (Child, A_setsid), (Parent, A_setup), (Child, A_run)] \<and>
     (Parent, A_setup) \<in> set (take 3 (log s)) \<and>
     {(Child, A_prctl), (Child, A_setsid)} \<subseteq> set (take 2 (log s))"
proof -
  obtain s where s: "reach s"
    "log s = [(Child, A_prctl), (Child, A_setsid), (Parent, A_setup), (Child, A_run)]"
    using whole_run by blast
  have "(Parent, A_setup) \<in> set (take 3 (log s))"
    using sync_order [OF s(1), of 3] by (simp add: s(2) numeral_3_eq_3)
  moreover have "{(Child, A_prctl), (Child, A_setsid)} \<subseteq> set (take 2 (log s))"
    using sync_order [OF s(1), of 2] by (simp add: s(2) numeral_2_eq_2)
  ultimately show ?thesis using s by blast
qed

lemma progress:
  assumes "inv_sync s" and "alive s p" and "pos s p < length (program p)"
    and "\<And>e v. next_op s p = Some (Wait e v) \<Longrightarrow> queue s e \<noteq> []"
  shows "\<exists>t. step s t"
proof -
  obtain o1 where o1: "next_op s p = Some o1" using assms(2,3) by (simp add: next_op_def)
  with go_on [OF assms(1) o1] assms(4) show ?thesis by auto
qed

text \<open>Every step is one operation of one process, and it ends nobody.\<close>

lemma step_advances:
  "step s t \<Longrightarrow> inv_sync s \<Longrightarrow> \<exists>p. pos t = (pos s)(p := pos s p + 1) \<and> alive t = alive s"
proof (induction rule: step.induct)
  case (step_do s p a)
  show ?case by (rule exI [of _ p]) (simp add: advance_def)
next
  case (step_wake s p e v)
  show ?case by (rule exI [of _ p]) (simp add: advance_def)
next
  case (step_broken s p e v)
  then show ?case using no_broken by blast
next
  case (step_wait s p e v x xs)
  then have "sync_check v 4 x = Inr ()" using inv_wait [of s p e v x xs] by simp
  then show ?case by (intro exI [of _ p]) (simp add: advance_def)
next
  case (step_eof s p e v)
  then show ?case using no_eof by blast
next
  case (step_close s p)
  show ?case by (rule exI [of _ p]) (simp add: advance_def)
qed

text \<open>
  C18: No deadlock: as long as both processes live, some operation is possible
  until both have done all of theirs.  And every operation that is possible then,
  whoever's it is, takes its process exactly one operation further and ends
  nobody, within the five operations of the parent and the six of the child; so
  without crashes every run of eleven operations reaches the end of both.
\<close>

theorem sync_progress:
  assumes "reach s" and "alive s Parent" and "alive s Child"
  shows "(pos s Parent = 5 \<and> pos s Child = 6 \<or> (\<exists>t. step s t)) \<and>
    (\<forall>t. step s t \<longrightarrow>
       (\<exists>p. pos t = (pos s)(p := pos s p + 1)) \<and> alive t Parent \<and> alive t Child \<and>
       pos t Parent \<le> 5 \<and> pos t Child \<le> 6)"
proof
  have inv: "inv_sync s" using assms(1) by (rule reach_inv)
  then have pl: "placed s" by (simp add: inv_sync_def)
  show "pos s Parent = 5 \<and> pos s Child = 6 \<or> (\<exists>t. step s t)"
  proof (cases "pos s Child = 6 \<or> pos s Child = 3 \<and> pos s Parent < 3")
    case True
    with pl assms have "pos s Parent = 5 \<and> pos s Child = 6 \<or>
      pos s Parent < length (program Parent) \<and>
      (\<forall>e v. next_op s Parent = Some (Wait e v) \<longrightarrow> queue s e \<noteq> [])"
      by (auto simp: next_op_cases placed_def program_length Let_def)
    with progress [OF inv assms(2)] show ?thesis by blast
  next
    case False
    with pl assms have "pos s Child < length (program Child) \<and>
      (\<forall>e v. next_op s Child = Some (Wait e v) \<longrightarrow> queue s e \<noteq> [])"
      by (auto simp: next_op_cases placed_def program_length Let_def)
    with progress [OF inv assms(3)] show ?thesis by blast
  qed
  show "\<forall>t. step s t \<longrightarrow> (\<exists>p. pos t = (pos s)(p := pos s p + 1)) \<and> alive t Parent \<and> alive t Child \<and>
    pos t Parent \<le> 5 \<and> pos t Child \<le> 6"
  proof (intro allI impI)
    fix t
    assume t: "step s t"
    obtain p where p: "pos t = (pos s)(p := pos s p + 1)" "alive t = alive s"
      using step_advances [OF t inv] by blast
    have "placed t" using inv_step [OF t inv] by (simp add: inv_sync_def)
    then have "pos t Parent \<le> 5" "pos t Child \<le> 6" by (simp_all add: placed_def Let_def)
    with p assms show "(\<exists>p. pos t = (pos s)(p := pos s p + 1)) \<and> alive t Parent \<and> alive t Child \<and>
      pos t Parent \<le> 5 \<and> pos t Child \<le> 6" by auto
  qed
qed

theorem sync_progress_witness:
  "\<exists>t p. step cloned t \<and> pos t = (pos cloned)(p := pos cloned p + 1) \<and> alive t Parent \<and> alive t Child"
proof -
  have "alive cloned Parent" "alive cloned Child" "pos cloned Parent \<noteq> 5" by (simp_all add: cloned_def)
  with sync_progress [OF reach_init] show ?thesis by blast
qed

text \<open>
  C33: A hole in the protocol: each process keeps the other's end open while it
  waits, so the end of file that sync_wait is prepared for never comes.  If the
  child dies before its wake, the parent waits for ever: no operation is
  possible any more, and the parent is still at its wait.
\<close>

theorem parent_hangs:
  assumes "reach s" and "pos s Child \<le> 2" and "alive s Parent" and "\<not> alive s Child"
  shows "pos s Parent = 0 \<and> next_op s Parent = Some (Wait 1 0) \<and> (\<nexists>t. step s t)"
proof -
  have pl: "placed s" using reach_inv [OF assms(1)] by (simp add: inv_sync_def)
  with assms(2) have p: "pos s Parent = 0" "queue s 1 = []" by (auto simp: placed_def Let_def)
  then have n: "next_op s Parent = Some (Wait 1 0)" using assms(3) by (simp add: next_op_cases)
  have c: "next_op s Child = None" using assms(4) by (simp add: next_op_def)
  have "peer_open s 1" using placed_own_ends(2) [OF pl, of 1] assms(3) p(1) by simp
  then have "\<not> step s t" for t
    using step_enabled [of s t] n c p(2) by (metis option.distinct(1) option.inject proc.exhaust)
  with p n show ?thesis by blast
qed

theorem parent_hangs_witness:
  "\<exists>s. reach s \<and> alive s Parent \<and> (\<nexists>t. step s t)"
proof -
  obtain s where s: "reach s" "pos s = (\<lambda>_. 0)(Child := 1)" "alive s = (\<lambda>_. True)"
    using child_start [of 1] by auto
  let ?t = "end_proc Child s"
  have "reach ?t" using s(1,3) by (intro reach_crash [OF s(1)] crash.intros) simp
  moreover have "pos ?t Child \<le> 2" "alive ?t Parent" "\<not> alive ?t Child"
    using s by (simp_all add: end_proc_def)
  ultimately show ?thesis using parent_hangs [of ?t] by blast
qed

end
