(* ===== verification/Mount.thy ===== *)
theory Mount
  imports Util Path
begin

text \<open>
  mount.c: the list of mounts, parsed from \<open>--mount\<close>, and the child's mounting
  of the system file systems and of the user's mounts below the container's
  root.  Targets of mounts are never NULL in the code, sources and data may be.
  An allocation that fails ends the program in the code; here memory never runs
  out.
\<close>

unbundle bit_operations_syntax

section \<open>The list of mounts\<close>

text \<open>struct overlay, and the void pointer that is a string or such a record.\<close>

record overlay =
  ovl_overlay :: path
  ovl_workdir :: path
  ovl_type :: char

datatype mdata = NoData | Opts cstring | Ovl overlay

record mount =
  m_src :: "cstring option"
  m_dst :: path
  m_type :: cstring
  m_flags :: u64
  m_data :: mdata

text \<open>sys/mount.h.\<close>

definition MS_RDONLY :: u64 where "MS_RDONLY = 1"
definition MS_NOSUID :: u64 where "MS_NOSUID = 2"
definition MS_NODEV :: u64 where "MS_NODEV = 4"
definition MS_NOEXEC :: u64 where "MS_NOEXEC = 8"
definition MS_REMOUNT :: u64 where "MS_REMOUNT = 32"
definition MS_BIND :: u64 where "MS_BIND = 4096"
definition MS_REC :: u64 where "MS_REC = 16384"
definition MS_SLAVE :: u64 where "MS_SLAVE = 524288"
definition MS_STRICTATIME :: u64 where "MS_STRICTATIME = 16777216"

definition mount_add ::
  "mount list \<Rightarrow> cstring option \<Rightarrow> path \<Rightarrow> cstring \<Rightarrow> u64 \<Rightarrow> mdata \<Rightarrow> mount list" where
  "mount_add mounts src dst type f d =
     mounts @ [\<lparr>m_src = src, m_dst = dst, m_type = type, m_flags = f, m_data = d\<rparr>]"

text \<open>
  What the preprocessor decides: with aufs the type is 'a'; otherwise 'o', if the
  kernel headers are those of Linux 3.18 or later; otherwise the type of mount
  is not supported.
\<close>

datatype ovl_build = Have_aufs | Have_overlay | No_overlay

definition mount_add_overlay ::
  "ovl_build \<Rightarrow> mount list \<Rightarrow> path \<Rightarrow> path \<Rightarrow> path \<Rightarrow> failure + mount list" where
  "mount_add_overlay build mounts overlay dst workdir =
     (let add = (\<lambda>t. Inr (mount_add mounts None dst ''overlay'' 0
                   (Ovl \<lparr>ovl_overlay = overlay, ovl_workdir = workdir, ovl_type = t\<rparr>)))
      in case build of
           Have_aufs \<Rightarrow> add CHR ''a''
         | Have_overlay \<Rightarrow> add CHR ''o''
         | No_overlay \<Rightarrow> Inl (Fail ''The overlay mount type is not supported''))"

section \<open>Parsing \<open>--mount\<close>\<close>

definition not_enough :: failure where
  "not_enough = Fail ''Invalid mount spec %s: not enough args''"

definition not_absolute :: failure where
  "not_absolute = Fail ''Invalid mount spec %s: path not absolute''"

text \<open>
  The i-th pointer of the split specification is only read after the size was
  checked, except for the first, which is NULL for a specification of colons.
\<close>

definition mount_add_from_spec ::
  "ovl_build \<Rightarrow> mount list \<Rightarrow> cstring \<Rightarrow> failure + mount list" where
  "mount_add_from_spec build mounts spec =
     (let opts = split_str plenty (Some spec) '':''; c = length opts;
          opt = (\<lambda>i. the (opts ! i)) in
      if c = 0 then Inl not_enough
      else if opts ! 0 = None then Inl (Crash ''strncmp of NULL'')
      else if strneq 4 (opt 0) ''bind'' then
        (if c < 3 then Inl not_enough
         else if \<not> path_is_absolute (opt 1) then Inl not_absolute
         else if \<not> path_is_absolute (opt 2) then Inl not_absolute
         else let ms = mount_add mounts (Some (opt 1)) (opt 2) ''bind'' MS_BIND NoData
           in if strneq 8 (opt 0) ''bind-ro''
              then Inr (mount_add ms (Some (opt 1)) (opt 2) ''bind-ro''
                          (MS_REMOUNT OR MS_BIND OR MS_RDONLY) NoData)
              else Inr ms)
      else if strneq 8 (opt 0) ''overlay'' then
        (if c < 4 then Inl not_enough
         else if \<not> path_is_absolute (opt 1) then Inl not_absolute
         else if \<not> path_is_absolute (opt 2) then Inl not_absolute
         else if \<not> path_is_absolute (opt 3) then Inl not_absolute
         else mount_add_overlay build mounts (opt 1) (opt 2) (opt 3))
      else if strneq 4 (opt 0) ''tmp'' then
        (if c < 2 then Inl not_enough
         else if \<not> path_is_absolute (opt 1) then Inl not_absolute
         else Inr (mount_add mounts (Some ''tmpfs'') (opt 1) ''tmpfs'' 0 NoData))
      else Inl (Fail ''Invalid mount type %s''))"

section \<open>Mounting\<close>

text \<open>make_bind_dest: O_WRONLY | O_CREAT | O_CLOEXEC | O_NOCTTY is 0x80141.\<close>

definition make_bind_dest :: "mount \<Rightarrow> path \<Rightarrow> unit io" where
  "make_bind_dest m dest =
     (case m_src m of
        None \<Rightarrow> io_stop (Crash ''stat of NULL'')
      | Some src \<Rightarrow>
          io_bind (sys (Stat src)) (\<lambda>src_sb.
          io_seq (sys_fail_if (rc src_sb < 0) ''stat(%s)'')
          (io_bind (sys (Stat dest)) (\<lambda>dst_sb.
             if rc dst_sb \<ge> 0 then
               io_seq (fail_if (st_dir src_sb \<and> \<not> st_dir dst_sb)
                         ''Could not bind mount dir %s on file %s'')
                      (fail_if (\<not> st_dir src_sb \<and> st_dir dst_sb)
                         ''Could not bind mount file %s on dir %s'')
             else if errno dst_sb = ENOENT then
               (if \<not> st_dir src_sb then
                  io_bind (sys (Open dest 0x80141 mode_0644)) (\<lambda>fd.
                  io_seq (if rc fd = -1 then io_ret () else checked Close ''Error closing fd'')
                    (sys_fail_if (rc fd < 0) ''Could not create mount dest %s''))
                else
                  io_bind (sys (Mkdir dest mode_0755)) (\<lambda>r.
                    sys_fail_if (rc r < 0) ''Could not create mount dest %s''))
             else io_stop (Sysf ''Error opening %s'')))))"

definition make_overlay_opts :: "mount \<Rightarrow> path \<Rightarrow> failure + mount" where
  "make_overlay_opts m dest =
     (case m_data m of
        Ovl ovl \<Rightarrow>
          Inr (m\<lparr>m_data :=
            (if ovl_type ovl = CHR ''a''
             then Opts (''br:'' @ ovl_overlay ovl @ ''=rw:'' @ dest @ ''=ro'')
             else if ovl_type ovl = CHR ''o''
             then Opts (''upperdir='' @ ovl_overlay ovl @ '',lowerdir='' @ dest
                        @ '',workdir='' @ ovl_workdir ovl)
             else NoData)\<rparr>)
      | _ \<Rightarrow> Inl (Crash ''ovl->overlay''))"

text \<open>The directory to mount on is created; one that exists already is fine.\<close>

definition make_mount_dir :: "path \<Rightarrow> unit io" where
  "make_mount_dir mnt_dest =
     io_bind (sys (Mkdir mnt_dest mode_0755)) (\<lambda>r.
       if rc r < 0 then
         if errno r = EEXIST then
           io_bind (sys (Stat mnt_dest)) (\<lambda>sb.
             fail_if (rc sb = 0 \<and> \<not> st_dir sb) ''Not a directory'')
         else io_stop (Sysf ''mkdir(%s)'')
       else io_ret ())"

definition mount_data :: "mdata \<Rightarrow> cstring option" where
  "mount_data d = (case d of Opts s \<Rightarrow> Some s | _ \<Rightarrow> None)"

text \<open>The body of the loop of setup_mount.\<close>

definition setup_one_mount :: "path option \<Rightarrow> mount \<Rightarrow> unit io" where
  "setup_one_mount dest i =
     (let mnt_dest = prefixed dest (m_dst i) in
      io_bind (io_lift (if m_type i = ''overlay'' then make_overlay_opts i mnt_dest else Inr i)) (\<lambda>i.
      io_seq (if m_type i = ''bind'' \<or> m_type i = ''bind-ro''
              then make_bind_dest i mnt_dest else make_mount_dir mnt_dest)
        (checked (Mount (m_src i) mnt_dest (Some (m_type i)) (m_flags i) (mount_data (m_data i)))
           ''Error mounting %s'')))"

text \<open>The system's mounts, for a container with its own root.\<close>

definition system_mounts :: "path \<Rightarrow> mount list \<Rightarrow> mount list" where
  "system_mounts dest ms =
     (let ms = mount_add ms (Some ''proc'') ''/proc'' ''proc''
                 (MS_NOSUID OR MS_NOEXEC OR MS_NODEV) NoData;
          ms = mount_add ms (Some (prefixed (Some dest) ''/proc/sys'')) ''/proc/sys'' ''proc/sys''
                 MS_BIND NoData;
          ms = mount_add ms None ''/proc/sys'' ''proc/sys-ro''
                 (MS_BIND OR MS_RDONLY OR MS_REMOUNT) NoData;
          ms = mount_add ms (Some ''sysfs'') ''/sys'' ''sysfs''
                 (MS_NOSUID OR MS_NOEXEC OR MS_NODEV OR MS_RDONLY) NoData;
          ms = mount_add ms (Some ''tmpfs'') ''/dev'' ''tmpfs''
                 (MS_NOSUID OR MS_STRICTATIME) (Opts ''mode=755'');
          ms = mount_add ms (Some ''devpts'') ''/dev/pts'' ''devpts''
                 (MS_NOSUID OR MS_NOEXEC) (Opts ''newinstance,ptmxmode=0666,mode=0620,gid=5'');
          ms = mount_add ms (Some ''tmpfs'') ''/dev/shm'' ''tmpfs''
                 (MS_NOSUID OR MS_STRICTATIME OR MS_NODEV) (Opts ''mode=1777'');
          ms = mount_add ms (Some ''tmpfs'') ''/run'' ''tmpfs''
                 (MS_NOSUID OR MS_NODEV OR MS_STRICTATIME) (Opts ''mode=755'')
      in mount_add ms (Some ''cgroup'') ''/sys/fs/cgroup'' ''cgroup2''
           (MS_NOSUID OR MS_NODEV OR MS_NOEXEC) NoData)"

text \<open>The directories of an ephemeral container, and its overlay on the root.\<close>

definition setup_ephemeral :: "ovl_build \<Rightarrow> path option \<Rightarrow> mount list io" where
  "setup_ephemeral build ephemeral_dir =
     (case ephemeral_dir of
        None \<Rightarrow> io_ret []
      | Some e \<Rightarrow>
          (let root_dir = prefixed (Some e) ''root''; work_dir = prefixed (Some e) ''work'' in
           io_seq (checked (Mount (Some ''tmpfs'') e (Some ''tmpfs'') 0 None) ''Error mounting tmpfs'')
           (io_seq (checked (Mkdir root_dir mode_0755) ''Error creating directory %s'')
           (io_seq (checked (Mkdir work_dir mode_0755) ''Error creating directory %s'')
             (io_lift (mount_add_overlay build [] root_dir ''/'' work_dir))))))"

definition setup_mount ::
  "ovl_build \<Rightarrow> mount list \<Rightarrow> path option \<Rightarrow> path option \<Rightarrow> unit io" where
  "setup_mount build mounts dest ephemeral_dir =
     io_seq (checked (Mount None ''/'' None (MS_SLAVE OR MS_REC) None) ''Error mounting slave /'')
       (io_bind
          (case dest of
             None \<Rightarrow> io_ret []
           | Some d \<Rightarrow>
               io_bind (setup_ephemeral build ephemeral_dir) (\<lambda>ms. io_ret (system_mounts d ms)))
          (\<lambda>sys_mounts. io_iter (setup_one_mount dest) (sys_mounts @ mounts)))"

section \<open>The specifications that are accepted\<close>

text \<open>
  What a specification of fields gives, in terms of the fields: the lemma that
  the properties of the parser rest on.
\<close>

definition bind_mount :: "path \<Rightarrow> path \<Rightarrow> mount" where
  "bind_mount src dst =
     \<lparr>m_src = Some src, m_dst = dst, m_type = ''bind'', m_flags = 0x1000, m_data = NoData\<rparr>"

definition readonly_remount :: "path \<Rightarrow> path \<Rightarrow> mount" where
  "readonly_remount src dst =
     \<lparr>m_src = Some src, m_dst = dst, m_type = ''bind-ro'', m_flags = 0x1021, m_data = NoData\<rparr>"

lemmas remount_flags = MS_REMOUNT_def MS_BIND_def MS_RDONLY_def

lemma strneq_bind: "strneq 4 kind ''bind'' \<longleftrightarrow> take 4 kind = ''bind''"
  by (rule strneq_prefix) simp

lemma strneq_overlay: "strneq 8 kind ''overlay'' \<longleftrightarrow> kind = ''overlay''"
  by (rule strneq_long) simp

lemma strneq_bind_ro: "strneq 8 kind ''bind-ro'' \<longleftrightarrow> kind = ''bind-ro''"
  by (rule strneq_long) simp

lemma strneq_tmp: "strneq 4 kind ''tmp'' \<longleftrightarrow> kind = ''tmp''"
  by (rule strneq_long) simp

lemmas mount_kinds = strneq_bind strneq_bind_ro strneq_overlay strneq_tmp

text \<open>A mount that the parser may add: its target is absolute, and so is a bind's source.\<close>

definition wf_mount :: "mount \<Rightarrow> bool" where
  "wf_mount m \<longleftrightarrow> path_is_absolute (m_dst m) \<and>
     (\<exists>src. path_is_absolute src \<and> (m = bind_mount src (m_dst m) \<or> m = readonly_remount src (m_dst m)) \<or>
        m_src m = Some ''tmpfs'' \<and> m_type m = ''tmpfs'' \<and> m_flags m = 0 \<and> m_data m = NoData \<or>
        (\<exists>ovl. m_src m = None \<and> m_type m = ''overlay'' \<and> m_flags m = 0 \<and> m_data m = Ovl ovl \<and>
           path_is_absolute (ovl_overlay ovl) \<and> path_is_absolute (ovl_workdir ovl)))"

text \<open>A read-only remount stands right after the bind mount that it restricts.\<close>

fun remounts_paired :: "mount list \<Rightarrow> bool" where
  "remounts_paired [] = True"
| "remounts_paired [m] = (m_type m \<noteq> ''bind-ro'')"
| "remounts_paired (m # n # ms) =
     (m_type m \<noteq> ''bind-ro'' \<and>
      (if m_type n = ''bind-ro''
       then m_type m = ''bind'' \<and> m_src n = m_src m \<and> m_dst n = m_dst m \<and> remounts_paired ms
       else remounts_paired (n # ms)))"

lemma remounts_paired_append:
  "remounts_paired ms \<Longrightarrow> remounts_paired ns \<Longrightarrow> remounts_paired (ms @ ns)"
proof (induction ms rule: remounts_paired.induct)
  case (2 m)
  then show ?case by (cases ns rule: remounts_paired.cases) auto
qed (auto split: if_splits)

lemma mount_add_from_spec_new:
  assumes "mount_add_from_spec build ms spec = Inr ms'"
  shows "\<exists>ns. ns \<noteq> [] \<and> ms' = ms @ ns \<and> list_all wf_mount ns \<and> remounts_paired ns"
  using assms
  by (auto simp: mount_add_from_spec_def Let_def mount_add_def mount_add_overlay_def wf_mount_def
      bind_mount_def readonly_remount_def remount_flags mount_kinds
      split: if_splits ovl_build.splits)

section \<open>What one mount does\<close>

definition is_mount :: "call \<Rightarrow> bool" where
  "is_mount c = (case c of Mount _ _ _ _ _ \<Rightarrow> True | _ \<Rightarrow> False)"

lemma is_mount_simps [simp]:
  "is_mount (Mount s d t f x)" "\<not> is_mount (Mkdir p n)" "\<not> is_mount (Stat p)"
  "\<not> is_mount (Open p g n)" "\<not> is_mount Close"
  by (simp_all add: is_mount_def)

text \<open>
  The mount call for an entry whose target is placed by \<open>at\<close>, the one for the
  container's root, and the calls that may prepare the target.
\<close>

definition entry_call :: "(path \<Rightarrow> path) \<Rightarrow> mount \<Rightarrow> call" where
  "entry_call at i =
     Mount (m_src i) (at (m_dst i)) (Some (m_type i)) (m_flags i)
       (case m_data i of
          NoData \<Rightarrow> None
        | Opts s \<Rightarrow> Some s
        | Ovl ovl \<Rightarrow>
            if m_type i \<noteq> ''overlay'' then None
            else if ovl_type ovl = CHR ''a''
            then Some (''br:'' @ ovl_overlay ovl @ ''=rw:'' @ at (m_dst i) @ ''=ro'')
            else if ovl_type ovl = CHR ''o''
            then Some (''upperdir='' @ ovl_overlay ovl @ '',lowerdir='' @ at (m_dst i) @
                       '',workdir='' @ ovl_workdir ovl)
            else None)"

definition mount_call :: "path option \<Rightarrow> mount \<Rightarrow> call" where
  "mount_call dest = entry_call (prefixed dest)"

lemma is_mount_call [simp]: "is_mount (mount_call dest i)"
  by (simp add: mount_call_def entry_call_def)

definition prepares :: "path option \<Rightarrow> mount \<Rightarrow> call set" where
  "prepares dest i =
     (let d = prefixed dest (m_dst i) in
      {Stat s | s. m_src i = Some s} \<union> {Stat d, Mkdir d mode_0755, Open d 0x80141 mode_0644, Close})"

definition mount_adds :: "path option \<Rightarrow> mount \<Rightarrow> call list \<Rightarrow> bool" where
  "mount_adds dest i cs \<longleftrightarrow> (\<exists>pre. cs = pre @ [mount_call dest i] \<and> set pre \<subseteq> prepares dest i)"

lemma make_bind_dest_adds:
  "make_bind_dest i d k h = (Inr u, h') \<Longrightarrow>
   \<exists>pre. h' = h @ pre \<and> set pre \<subseteq> {Stat s | s. m_src i = Some s} \<union>
     {Stat d, Mkdir d mode_0755, Open d 0x80141 mode_0644, Close}"
  by (auto simp: make_bind_dest_def io_Inr_iffs split: option.splits if_splits)

lemma make_mount_dir_adds:
  "make_mount_dir d k h = (Inr u, h') \<Longrightarrow> \<exists>pre. h' = h @ pre \<and> set pre \<subseteq> {Stat d, Mkdir d mode_0755}"
  by (auto simp: make_mount_dir_def io_Inr_iffs split: if_splits)

lemma make_overlay_opts_Inr:
  "make_overlay_opts i d = Inr j \<Longrightarrow> m_type j = m_type i \<and> m_src j = m_src i \<and> m_flags j = m_flags i"
  by (auto simp: make_overlay_opts_def split: mdata.splits)

lemma setup_one_mount_adds:
  assumes "setup_one_mount dest i k h = (Inr u, h')"
  shows "\<exists>cs. mount_adds dest i cs \<and> h' = h @ cs"
proof -
  let ?d = "prefixed dest (m_dst i)"
  obtain j h1 where j: "(if m_type i = ''overlay'' then make_overlay_opts i ?d else Inr i) = Inr j"
    and p: "(if m_type j = ''bind'' \<or> m_type j = ''bind-ro''
              then make_bind_dest j ?d else make_mount_dir ?d) k h = (Inr (), h1)"
    and h': "h' = h1 @ [Mount (m_src j) ?d (Some (m_type j)) (m_flags j) (mount_data (m_data j))]"
    using assms by (auto simp: setup_one_mount_def Let_def io_Inr_iffs io_lift_Inr_iff)
  have "m_src j = m_src i" using j make_overlay_opts_Inr by (auto split: if_splits)
  with p obtain pre where pre: "h1 = h @ pre" "set pre \<subseteq> prepares dest i"
    using make_bind_dest_adds [of j ?d k h] make_mount_dir_adds [of ?d k h]
    by (fastforce simp: prepares_def Let_def split: if_splits)
  have "Mount (m_src j) ?d (Some (m_type j)) (m_flags j) (mount_data (m_data j)) = mount_call dest i"
    using j by (auto simp: mount_call_def entry_call_def mount_data_def make_overlay_opts_def split: if_splits mdata.splits)
  with pre h' show ?thesis by (auto simp: mount_adds_def)
qed

interpretation mnt: each_adds "setup_one_mount dest" "mount_adds dest" for dest
  by unfold_locales (rule setup_one_mount_adds)

lemma prepares_no_mount: "c \<in> prepares dest i \<Longrightarrow> \<not> is_mount c"
  by (auto simp: prepares_def Let_def)

lemma mount_adds_filter: "mount_adds dest i cs \<Longrightarrow> filter is_mount cs = [mount_call dest i]"
  by (auto simp: mount_adds_def filter_empty_conv) (use prepares_no_mount in blast)

lemma mounts_in_order:
  "list_all2 (mount_adds dest) ms css \<Longrightarrow> filter is_mount (concat css) = map (mount_call dest) ms"
  by (induction rule: list_all2_induct) (simp_all add: mount_adds_filter)

text \<open>The mounts of setup_mount before the loop, and the list that the loop works on.\<close>

definition ephemeral_mounts :: "path option \<Rightarrow> path option \<Rightarrow> call list" where
  "ephemeral_mounts dest e =
     (case (dest, e) of
        (Some d, Some e) \<Rightarrow> [Mount (Some ''tmpfs'') e (Some ''tmpfs'') 0 None]
      | _ \<Rightarrow> [])"

definition root_overlay :: "ovl_build \<Rightarrow> path option \<Rightarrow> mount list" where
  "root_overlay build e =
     (case e of
        None \<Rightarrow> []
      | Some e \<Rightarrow>
          (case mount_add_overlay build [] (prefixed (Some e) ''root'') ''/'' (prefixed (Some e) ''work'') of
             Inl _ \<Rightarrow> [] | Inr ms \<Rightarrow> ms))"

definition slave_root :: call where
  "slave_root = Mount None ''/'' None 0x84000 None"

lemma slave_flags: "MS_SLAVE OR MS_REC = 0x84000"
  by (simp add: MS_SLAVE_def MS_REC_def)

lemma setup_ephemeral_Inr:
  "setup_ephemeral build e k h = (Inr ms, h') \<Longrightarrow>
   ms = root_overlay build e \<and>
   filter is_mount h' = filter is_mount h @ ephemeral_mounts (Some d) e"
  by (cases e)
     (auto simp: setup_ephemeral_def io_Inr_iffs io_lift_Inr_iff Let_def root_overlay_def
        ephemeral_mounts_def)

lemma make_bind_dest_grows [grows_intros]: "grows (make_bind_dest m d)"
  unfolding make_bind_dest_def by (cases "m_src m") (auto intro!: grows_intros)

lemma setup_one_mount_grows [grows_intros]: "grows (setup_one_mount dest i)"
  unfolding setup_one_mount_def make_mount_dir_def Let_def by (auto intro!: grows_intros)

lemma setup_mount_grows [grows_intros]: "grows (setup_mount build ms dest e)"
  unfolding setup_mount_def setup_ephemeral_def Let_def
  by (auto intro!: grows_intros split: option.split)

lemma setup_mount_mounts:
  assumes "setup_mount build mounts dest e k h = (Inr u, h')"
  shows "filter is_mount h' = filter is_mount h @
    slave_root # ephemeral_mounts dest e @
    map (mount_call dest)
      ((case dest of None \<Rightarrow> [] | Some d \<Rightarrow> system_mounts d (root_overlay build e)) @ mounts)"
proof -
  obtain sm h1 where sm: "(case dest of
         None \<Rightarrow> io_ret []
       | Some d \<Rightarrow> io_bind (setup_ephemeral build e) (\<lambda>ms. io_ret (system_mounts d ms))) k (h @ [slave_root])
       = (Inr sm, h1)"
    and loop: "io_iter (setup_one_mount dest) (sm @ mounts) k h1 = (Inr u, h')"
    using assms by (auto simp: setup_mount_def io_Inr_iffs slave_root_def slave_flags)
  have 1: "filter is_mount h1 = filter is_mount h @ slave_root # ephemeral_mounts dest e \<and>
      sm = (case dest of None \<Rightarrow> [] | Some d \<Rightarrow> system_mounts d (root_overlay build e))"
    using sm setup_ephemeral_Inr
    by (cases dest) (fastforce simp: io_Inr_iffs ephemeral_mounts_def slave_root_def)+
  obtain css where "list_all2 (mount_adds dest) (sm @ mounts) css" "h' = h1 @ concat css"
    using mnt.iter_adds [OF loop] by blast
  with 1 show ?thesis using mounts_in_order by simp
qed

section \<open>What is mounted where\<close>

text \<open>
  The file systems of a container with its own root, as mount(2) gets them; \<open>at\<close>
  places a path below the root.  0xE is nosuid, nodev and noexec, 0xF also
  read-only; 0x1021 is a read-only remount of a bind mount.
\<close>

definition system_calls :: "(path \<Rightarrow> path) \<Rightarrow> call list" where
  "system_calls at =
     [Mount (Some ''proc'') (at ''/proc'') (Some ''proc'') 0xE None,
      Mount (Some (at ''/proc/sys'')) (at ''/proc/sys'') (Some ''proc/sys'') 0x1000 None,
      Mount None (at ''/proc/sys'') (Some ''proc/sys-ro'') 0x1021 None,
      Mount (Some ''sysfs'') (at ''/sys'') (Some ''sysfs'') 0xF None,
      Mount (Some ''tmpfs'') (at ''/dev'') (Some ''tmpfs'') 0x1000002 (Some ''mode=755''),
      Mount (Some ''devpts'') (at ''/dev/pts'') (Some ''devpts'') 0xA
        (Some ''newinstance,ptmxmode=0666,mode=0620,gid=5''),
      Mount (Some ''tmpfs'') (at ''/dev/shm'') (Some ''tmpfs'') 0x1000006 (Some ''mode=1777''),
      Mount (Some ''tmpfs'') (at ''/run'') (Some ''tmpfs'') 0x1000006 (Some ''mode=755''),
      Mount (Some ''cgroup'') (at ''/sys/fs/cgroup'') (Some ''cgroup2'') 0xE None]"

text \<open>
  The overlay on the root of an ephemeral container: its writable layer and its
  work directory are placed by \<open>own\<close> in the ephemeral directory.
\<close>

definition overlay_calls :: "ovl_build \<Rightarrow> path option \<Rightarrow> (path \<Rightarrow> path) \<Rightarrow> (path \<Rightarrow> path) \<Rightarrow> call list" where
  "overlay_calls build e own at =
     (if e = None then []
      else case build of
        Have_aufs \<Rightarrow> [Mount None (at ''/'') (Some ''overlay'') 0
          (Some (''br:'' @ own ''root'' @ ''=rw:'' @ at ''/'' @ ''=ro''))]
      | Have_overlay \<Rightarrow> [Mount None (at ''/'') (Some ''overlay'') 0
          (Some (''upperdir='' @ own ''root'' @ '',lowerdir='' @ at ''/'' @ '',workdir='' @ own ''work''))]
      | No_overlay \<Rightarrow> [])"

lemma system_mounts_calls:
  "map (mount_call (Some d)) (system_mounts d ms) =
   map (mount_call (Some d)) ms @ system_calls (prefixed (Some d))"
  by (simp add: system_mounts_def mount_add_def mount_call_def entry_call_def system_calls_def Let_def
      MS_RDONLY_def MS_NOSUID_def MS_NODEV_def MS_NOEXEC_def MS_REMOUNT_def MS_BIND_def
      MS_STRICTATIME_def)

lemma root_overlay_calls:
  "map (mount_call (Some d)) (root_overlay build e) =
   overlay_calls build e (prefixed e) (prefixed (Some d))"
  by (auto simp: root_overlay_def mount_add_overlay_def mount_add_def mount_call_def entry_call_def
      overlay_calls_def split: option.split ovl_build.split)

section \<open>Properties\<close>

text \<open>
  C4: What a setup_mount that returns has mounted, call by call: first \<open>/\<close>
  becomes a recursive slave, so that nothing done later reaches the host; then,
  for a container with its own root, the tmpfs of an ephemeral one and its
  overlay, and the nine system mounts in their order and with their flags (proc,
  sys bound on itself and remounted read-only inside it, sysfs, dev, pts, shm, run,
  cgroup); then the user's mounts in their order; and no other mount.  Every
  target, and the source of the bind of \<open>/proc/sys\<close>, is a path whose components
  are those of the root followed by its own; only where the root names \<open>/\<close> or is
  itself that same path it is the path as given (path_prefix_root).
\<close>

theorem setup_mount_order:
  assumes "setup_mount build mounts dest e k [] = (Inr u, h')"
  shows "\<exists>at own. (\<forall>p. npath (at p) = below_root dest p) \<and> (\<forall>p. npath (own p) = below_root e p) \<and>
    filter is_mount h' =
      slave_root # ephemeral_mounts dest e @
      (if dest = None then [] else overlay_calls build e own at @ system_calls at) @
      map (entry_call at) mounts"
proof -
  have "map (mount_call dest)
      (case dest of None \<Rightarrow> [] | Some d \<Rightarrow> system_mounts d (root_overlay build e)) =
    (if dest = None then []
     else overlay_calls build e (prefixed e) (prefixed dest) @ system_calls (prefixed dest))"
    by (cases dest) (simp_all add: system_mounts_calls root_overlay_calls)
  then have "filter is_mount h' =
      slave_root # ephemeral_mounts dest e @
      (if dest = None then []
       else overlay_calls build e (prefixed e) (prefixed dest) @ system_calls (prefixed dest)) @
      map (entry_call (prefixed dest)) mounts"
    using setup_mount_mounts [OF assms] by (simp add: mount_call_def)
  with prefixed_npath show ?thesis by blast
qed

text \<open>A kernel in which every call succeeds, for the witnesses; every path is a directory.\<close>

definition dir_kernel :: kernel where
  "dir_kernel h c = ok\<lparr>st_dir := True\<rparr>"

theorem setup_mount_order_witness:
  "\<exists>at. (\<forall>p. npath (at p) = below_root (Some ''/c'') p) \<and>
     filter is_mount (trace (setup_mount Have_overlay
       [\<lparr>m_src = Some ''/a'', m_dst = ''/b'', m_type = ''bind'', m_flags = MS_BIND, m_data = NoData\<rparr>]
       (Some ''/c'') None) dir_kernel) =
     slave_root # system_calls at @ [Mount (Some ''/a'') (at ''/b'') (Some ''bind'') 4096 None]"
proof -
  let ?ms = "[\<lparr>m_src = Some ''/a'', m_dst = ''/b'', m_type = ''bind'', m_flags = MS_BIND, m_data = NoData\<rparr>]"
  have "\<exists>h'. setup_mount Have_overlay ?ms (Some ''/c'') None dir_kernel [] = (Inr (), h')"
    by (simp add: setup_mount_def setup_ephemeral_def system_mounts_def mount_add_def setup_one_mount_def
        make_bind_dest_def make_mount_dir_def Let_def io_simps dir_kernel_def)
  then obtain h' where run: "setup_mount Have_overlay ?ms (Some ''/c'') None dir_kernel [] = (Inr (), h')"
    by blast
  obtain at own where "\<forall>p. npath (at p) = below_root (Some ''/c'') p" and
    "filter is_mount h' = slave_root # ephemeral_mounts (Some ''/c'') None @
      (if Some ''/c'' = None then [] else overlay_calls Have_overlay None own at @ system_calls at) @
      map (entry_call at) ?ms"
    using setup_mount_order [OF run] by blast
  with run show ?thesis
    by (intro exI [of _ at])
      (simp add: trace_def ephemeral_mounts_def overlay_calls_def entry_call_def MS_BIND_def)
qed

text \<open>
  Isolation of the host's mounts also on the failing paths: the first call
  of setup_mount makes \<open>/\<close> a recursive slave, and when that fails nothing else is
  called.
\<close>

lemma setup_mount_slave_first:
  "\<exists>cs. snd (setup_mount build mounts dest e k h) = h @ slave_root # cs \<and>
    (rc (k h slave_root) < 0 \<longrightarrow>
      setup_mount build mounts dest e k h = (Inl (Sysf ''Error mounting slave /''), h @ [slave_root]))"
  unfolding setup_mount_def setup_ephemeral_def slave_root_def slave_flags Let_def
  by (rule checked_first) (auto intro!: grows_intros split: option.split)

lemma setup_mount_slave_first_example:
  "setup_mount Have_overlay [] None None (\<lambda>_ _. failed EPERM) [] =
     (Inl (Sysf ''Error mounting slave /''), [slave_root])"
  using setup_mount_slave_first [of Have_overlay "[]" None None "\<lambda>_ _. failed EPERM" "[]"] by simp

text \<open>
  make_bind_dest lets a bind mount go on only between two directories or
  two files: when it returns, the source exists, and either the target existed
  with the same kind, and nothing was created, or it did not exist and was
  created with the same kind.
\<close>

lemma make_bind_dest_kinds:
  assumes "make_bind_dest m dest k h = (Inr u, h')"
  shows "\<exists>src. m_src m = Some src \<and>
    (let s = k h (Stat src); h1 = h @ [Stat src]; d = k h1 (Stat dest); h2 = h1 @ [Stat dest] in
     rc s \<ge> 0 \<and>
     (rc d \<ge> 0 \<and> st_dir d = st_dir s \<and> h' = h2 \<or>
      rc d < 0 \<and> errno d = ENOENT \<and> st_dir s \<and> h' = h2 @ [Mkdir dest mode_0755] \<or>
      rc d < 0 \<and> errno d = ENOENT \<and> \<not> st_dir s \<and> h' = h2 @ [Open dest 0x80141 mode_0644, Close]))"
  using assms
  by (cases "m_src m") (auto simp: make_bind_dest_def io_Inr_iffs Let_def not_less split: if_splits)

lemma make_bind_dest_kinds_example:
  "\<exists>h'. make_bind_dest \<lparr>m_src = Some ''/a'', m_dst = ''/b'', m_type = ''bind'', m_flags = 4096,
     m_data = NoData\<rparr> ''/b'' dir_kernel [] = (Inr (), h') \<and> h' = [Stat ''/a'', Stat ''/b'']"
proof -
  let ?m = "\<lparr>m_src = Some ''/a'', m_dst = ''/b'', m_type = ''bind'', m_flags = 4096, m_data = NoData\<rparr>"
  obtain h' where run: "make_bind_dest ?m ''/b'' dir_kernel [] = (Inr (), h')"
    by (simp add: make_bind_dest_def io_simps dir_kernel_def)
  from make_bind_dest_kinds [OF run] run show ?thesis by (simp add: Let_def dir_kernel_def)
qed

text \<open>
  C24: The list of mounts stays well formed: whatever \<open>--mount\<close> argument is
  accepted, the list only grows, by mounts with an absolute target (and an
  absolute source or upper and work directory), and every read-only remount
  stands right after the writable bind mount of the same source and target.
\<close>

theorem mount_add_from_spec_wf:
  assumes "mount_add_from_spec build ms spec = Inr ms'"
    and "list_all wf_mount ms" and "remounts_paired ms"
  shows "list_all wf_mount ms' \<and> remounts_paired ms' \<and> (\<exists>ns. ns \<noteq> [] \<and> ms' = ms @ ns)"
  using mount_add_from_spec_new [OF assms(1)] assms(2,3) remounts_paired_append by auto

theorem mount_add_from_spec_wf_witness:
  "\<exists>ms'. mount_add_from_spec Have_overlay [] ''bind-ro:/a:/b'' = Inr ms' \<and> remounts_paired ms'"
proof -
  have "opt_fields (join CHR '':'' [''bind-ro'', ''/a'', ''/b'']) = Some [''bind-ro'', ''/a'', ''/b'']"
    by (rule fields_join) auto
  then have "opt_fields ''bind-ro:/a:/b'' = Some [''bind-ro'', ''/a'', ''/b'']" by simp
  then obtain ms' where "mount_add_from_spec Have_overlay [] ''bind-ro:/a:/b'' = Inr ms'"
    by (simp add: mount_add_from_spec_def split_str_fields Let_def mount_kinds path_is_absolute_def)
  with mount_add_from_spec_wf [OF this] show ?thesis by simp
qed

text \<open>
  Bind specifications: any first field that begins with "bind" is taken as
  a bind mount, and only exactly "bind-ro" makes it read-only; so a misspelt
  "bindro" or "bind-r" silently gives a writable mount.
\<close>

lemma bind_spec_accepted:
  assumes "take 4 kind = ''bind''" and "\<forall>f \<in> {kind, src, dst}. CHR '':'' \<notin> set f"
    and "path_is_absolute src" and "path_is_absolute dst"
  shows "mount_add_from_spec build ms (join CHR '':'' [kind, src, dst]) =
    Inr (ms @ bind_mount src dst # (if kind = ''bind-ro'' then [readonly_remount src dst] else []))"
proof -
  have ne: "kind \<noteq> []" "src \<noteq> []" "dst \<noteq> []" using assms by (auto simp: path_is_absolute_def)
  have "opt_fields (join CHR '':'' [kind, src, dst]) = Some [kind, src, dst]"
    by (rule fields_join) (use ne assms(2) in auto)
  then show ?thesis
    using assms
    by (simp add: mount_add_from_spec_def split_str_fields Let_def mount_kinds mount_add_def
        bind_mount_def readonly_remount_def remount_flags)
qed

lemma bind_spec_accepted_example:
  "mount_add_from_spec Have_overlay [] (join CHR '':'' [''bindro'', ''/a'', ''/b'']) =
     Inr [bind_mount ''/a'' ''/b'']"
  using bind_spec_accepted [of "''bindro''" "''/a''" "''/b''" Have_overlay "[]"]
  by (simp add: path_is_absolute_def)

end
