(* ===== verification/Dev.thy ===== *)
theory Dev
  imports User Sync Mount
begin

text \<open>
  dev.c: the device nodes, symbolic links and the console of the container, and
  the change of the console's owner for a container with its own users.
  A file mode is written with the value that the C literal has.
\<close>

section \<open>Nodes, links, console\<close>

definition setup_ptmx :: "path \<Rightarrow> unit io" where
  "setup_ptmx dest =
     checked (Symlink ''/dev/pts/ptmx'' (dest @ ''/dev/ptmx'')) ''Error creating symlink %s''"

definition setup_console :: "path \<Rightarrow> path \<Rightarrow> unit io" where
  "setup_console dest console =
     io_seq (checked (Chmod console 0x180) ''Error chmoding %s'')
       (checked (Mount (Some console) (dest @ ''/dev/console'') None MS_BIND None)
          ''Error bind mounting %s'')"

definition symlinks :: "(cstring \<times> path) list" where
  "symlinks =
     [(''/proc/kcore'', ''/dev/core''), (''/proc/self/fd'', ''/dev/fd''),
      (''/proc/self/fd/0'', ''/dev/stdin''), (''/proc/self/fd/1'', ''/dev/stdout''),
      (''/proc/self/fd/2'', ''/dev/stderr'')]"

definition setup_symlinks :: "path \<Rightarrow> unit io" where
  "setup_symlinks dest =
     io_iter (\<lambda>(src, dst). checked (Symlink src (dest @ ''/'' @ dst)) ''Error creating symlink %s'')
       symlinks"

definition node_list :: "path list" where
  "node_list = [''/dev/console'', ''/dev/tty'', ''/dev/full'', ''/dev/null'', ''/dev/zero'',
            ''/dev/random'', ''/dev/urandom'']"

text \<open>
  One round of the loop of setup_nodes; O_WRONLY | O_CREAT | O_CLOEXEC is
  0x80041.  The mode is the decimal number 644.  The descriptor is closed at the
  end of the round.
\<close>

definition setup_one_node :: "path \<Rightarrow> path \<Rightarrow> unit io" where
  "setup_one_node dest node =
     (let target = dest @ node in
      io_seq (checked (Open target 0x80041 644) ''Error creating file %s'')
      (io_seq (checked (Mount (Some node) target None MS_BIND None) ''Error bind mounting %s'')
        (checked Close ''Error closing fd'')))"

definition setup_nodes :: "path \<Rightarrow> unit io" where
  "setup_nodes dest =
     io_bind (sys (Umask 0)) (\<lambda>u.
     io_seq (io_iter (setup_one_node dest) node_list)
       (io_bind (sys (Umask (of_int (rc u)))) (\<lambda>_. io_ret ())))"

section \<open>The owner of the console\<close>

text \<open>The helper process, in a user namespace of its own.\<close>

definition console_helper :: "sync_fds \<Rightarrow> path \<Rightarrow> u32 \<Rightarrow> unit io" where
  "console_helper fds path gid =
     io_seq (sys (Proc (Unshare 0x10020000)))
     (io_seq (sync_barrier_parent fds SYNC_START)
     (io_seq (sync_close fds)
     (io_seq (setup_user ''root'')
     (io_seq (checked (Chown path 0 gid) ''Error chowning %s'')
       (io_stop (Exit 0))))))"

definition helper_map :: "u32 \<Rightarrow> u32 \<Rightarrow> u32 \<Rightarrow> u32 \<Rightarrow> u32 \<Rightarrow> user list" where
  "helper_map rootuid rootgid hostuid hostgid gid =
     (let users = user_add_map [] CHR ''u'' 0 rootuid 1;
          users = user_add_map users CHR ''u'' hostuid hostuid 1;
          users = user_add_map users CHR ''g'' 0 rootgid 1;
          users = user_add_map users CHR ''g'' gid (rootgid + gid) 1
      in user_add_map users CHR ''g'' hostgid hostgid 1)"

text \<open>fork's result is not checked: a negative pid goes the parent's way.\<close>

definition setup_console_owner :: "path \<Rightarrow> user list \<Rightarrow> unit io" where
  "setup_console_owner path u =
     io_bind (sys Geteuid) (\<lambda>hostuid.
     io_bind (sys Getegid) (\<lambda>hostgid.
       case user_get_mapped_root u CHR ''u'' of
         None \<Rightarrow> io_stop (Fail ''No mapping for container root user'')
       | Some rootuid \<Rightarrow>
         (case user_get_mapped_root u CHR ''g'' of
            None \<Rightarrow> io_stop (Fail ''No mapping for container root group'')
          | Some rootgid \<Rightarrow>
            io_bind (sys Geteuid) (\<lambda>e1.
            if rc e1 = 0 then checked (Chown path rootuid rootgid) ''Error chowning %s''
            else io_bind (sys Geteuid) (\<lambda>e2.
            if rootuid = of_int (rc e2) then io_ret ()
            else io_bind (sys (Stat path)) (\<lambda>sb.
            if rc sb < 0 then io_stop (Sysf ''stat(%s)'')
            else io_bind (sys Geteuid) (\<lambda>e3.
            io_seq
              (if st_uid sb = of_int (rc e3)
               then checked (Chown path (-1) (of_int (rc hostgid))) ''Error chgrping %s''
               else io_ret ())
            (io_bind sync_init (\<lambda>fds.
            io_bind (sys (Proc Fork)) (\<lambda>pid.
              if rc pid = 0 then console_helper fds path (st_gid sb)
              else
                io_seq (sync_wait_child fds SYNC_START)
                (io_seq (setup_user_map
                           (helper_map rootuid rootgid (of_int (rc hostuid)) (of_int (rc hostgid)) (st_gid sb))
                           (of_int (rc pid)))
                (io_seq (sync_wake_child fds SYNC_DONE)
                (io_seq (sync_close fds)
                  (io_bind (sys (Proc (Waitpid (rc pid)))) (\<lambda>_. io_ret ())))))))))))))))"

section \<open>The calls\<close>

definition node_calls :: "path \<Rightarrow> path \<Rightarrow> call list" where
  "node_calls dest node =
     [Open (dest @ node) 0x80041 644, Mount (Some node) (dest @ node) None MS_BIND None, Close]"

lemma setup_one_node_issues: "issues (setup_one_node dest node) (node_calls dest node)"
proof -
  have "issues (setup_one_node dest node)
    ([Open (dest @ node) 0x80041 644] @ ([Mount (Some node) (dest @ node) None MS_BIND None] @ [Close]))"
    unfolding setup_one_node_def Let_def by (intro issues_intros)
  then show ?thesis by (simp add: node_calls_def)
qed

interpretation dev_nodes: each_step "setup_one_node dest" "node_calls dest" for dest
  by unfold_locales (rule setup_one_node_issues)

definition link_call :: "path \<Rightarrow> cstring \<times> path \<Rightarrow> call" where
  "link_call dest l = Symlink (fst l) (dest @ ''/'' @ snd l)"

interpretation dev_links: each_step
  "\<lambda>(src, dst). checked (Symlink src (dest @ ''/'' @ dst)) ''Error creating symlink %s''"
  "\<lambda>l. [link_call dest l]" for dest
  by unfold_locales (simp add: link_call_def issues_checked split: prod.split)

lemma setup_nodes_run:
  assumes "outcome (setup_nodes dest) k = Inr u"
  shows "trace (setup_nodes dest) k =
    Umask 0 # concat (map (node_calls dest) node_list) @ [Umask (of_int (rc (k [] (Umask 0))))]"
proof -
  obtain h' where run: "setup_nodes dest k [] = (Inr u, h')"
    using assms by (cases "setup_nodes dest k []") (auto simp: outcome_def)
  then obtain v h1 where loop: "io_iter (setup_one_node dest) node_list k [Umask 0] = (Inr v, h1)"
    and h': "h' = h1 @ [Umask (of_int (rc (k [] (Umask 0))))]"
    by (auto simp: setup_nodes_def io_Inr_iffs)
  have "h1 = [Umask 0] @ concat (map (node_calls dest) node_list)"
    using issues_Inr [OF dev_nodes.iter_issues loop] .
  with run h' show ?thesis by (simp add: trace_def)
qed

lemma helper_map_roots:
  "user_get_mapped_root (helper_map ru rg hu hg g) CHR ''u'' = Some ru"
  "user_get_mapped_root (helper_map ru rg hu hg g) CHR ''g'' = Some rg"
  by (simp_all add: helper_map_def user_add_map_def)

section \<open>Properties\<close>

text \<open>
  setup_nodes: when it returns, every node of the list was created, bind
  mounted from the host's node of the same name and closed, in the order of the
  list, between setting the umask to 0 and restoring the umask that it had.
\<close>

lemma setup_nodes_calls:
  assumes "outcome (setup_nodes dest) k = Inr u"
  shows "trace (setup_nodes dest) k =
    Umask 0 # concat (map (\<lambda>n. [Open (dest @ n) 0x80041 644,
        Mount (Some n) (dest @ n) None MS_BIND None, Close]) node_list) @
      [Umask (of_int (rc (k [] (Umask 0))))]"
  using setup_nodes_run [OF assms] by (simp add: node_calls_def [abs_def])

lemma setup_nodes_calls_example:
  "last (trace (setup_nodes ''/c'') (\<lambda>_ _. ok\<lparr>rc := 18\<rparr>)) = Umask 18"
proof -
  have "outcome (setup_nodes ''/c'') (\<lambda>_ _. ok\<lparr>rc := 18\<rparr>) = Inr ()"
    by (simp add: setup_nodes_def node_list_def setup_one_node_def Let_def io_simps)
  from setup_nodes_calls [OF this] show ?thesis by simp
qed

text \<open>
  The mode of these files: the literal 644 is decimal, so with the umask at 0
  they get mode 01204: the owner may write but not read, the group nothing,
  others may read, and the sticky bit is set.
\<close>

lemma setup_nodes_mode:
  assumes "outcome (setup_nodes dest) k = Inr u" and "Open p f m \<in> set (trace (setup_nodes dest) k)"
  shows "m AND 0x1C0 = 0x80 \<and> m AND 0x38 = 0 \<and> m AND 0x7 = 4 \<and> m AND 0x200 \<noteq> 0 \<and> m \<noteq> mode_0644"
proof -
  have "m = 644" using assms(2) unfolding setup_nodes_run [OF assms(1)] by (auto simp: node_calls_def)
  then show ?thesis by simp
qed

lemma setup_nodes_mode_example:
  "\<exists>p f m. Open p f m \<in> set (trace (setup_nodes ''/c'') (\<lambda>_ _. ok)) \<and> m AND 0x200 \<noteq> 0"
proof -
  have run: "outcome (setup_nodes ''/c'') (\<lambda>_ _. ok) = Inr ()"
    by (simp add: setup_nodes_def node_list_def setup_one_node_def Let_def io_simps)
  then have "Open (''/c'' @ ''/dev/tty'') 0x80041 644 \<in> set (trace (setup_nodes ''/c'') (\<lambda>_ _. ok))"
    by (simp add: setup_nodes_run node_list_def node_calls_def)
  with setup_nodes_mode [OF run this] show ?thesis by blast
qed

text \<open>
  The console's owner, for a caller with effective uid \<open>e\<close>: without a mapping
  of the container's root the process stops; for uid 0 the console is given to
  the mapped root, by one chown; a caller that is itself the mapped root
  changes nothing.
\<close>

lemma setup_console_owner_direct:
  assumes "\<And>h. rc (k h Geteuid) = e"
  shows "(case (user_get_mapped_root us CHR ''u'', user_get_mapped_root us CHR ''g'') of
      (Some ru, Some rg) \<Rightarrow>
        (e = 0 \<longrightarrow> trace (setup_console_owner path us) k =
           [Geteuid, Getegid, Geteuid, Chown path ru rg]) \<and>
        (e \<noteq> 0 \<and> ru = of_int e \<longrightarrow> setup_console_owner path us k [] =
           (Inr (), [Geteuid, Getegid, Geteuid, Geteuid]))
    | _ \<Rightarrow> (\<exists>m. setup_console_owner path us k [] = (Inl (Fail m), [Geteuid, Getegid])))"
  using assms by (auto simp: setup_console_owner_def io_simps split: option.split)

lemma setup_console_owner_direct_example:
  "trace (setup_console_owner ''/dev/pts/3'' [\<lparr>u_type = CHR ''u'', u_id = 0, u_host_id = 1000, u_count = 1\<rparr>,
      \<lparr>u_type = CHR ''g'', u_id = 0, u_host_id = 100, u_count = 1\<rparr>]) root_kernel =
    [Geteuid, Getegid, Geteuid, Chown ''/dev/pts/3'' 1000 100]"
  using setup_console_owner_direct [of root_kernel 0 "''/dev/pts/3''"
      "[\<lparr>u_type = CHR ''u'', u_id = 0, u_host_id = 1000, u_count = 1\<rparr>,
        \<lparr>u_type = CHR ''g'', u_id = 0, u_host_id = 100, u_count = 1\<rparr>]"]
  by (simp add: root_kernel_def)

end
