(* ===== verification/Netlink.thy ===== *)
theory Netlink
  imports Prelude "HOL-Library.Monad_Syntax"
begin

text \<open>
  nl.c: building netlink messages in a malloc'ed buffer, byte by byte.  The
  buffer is a list of \<open>NLMSG_GOOD_SIZE\<close> bytes whose initial contents are
  arbitrary; the message length is read from and written to the header, in the
  buffer, as the C code does; integers are little-endian (the layout of x86 and
  ARM Linux).  A write outside the buffer is None.

  Layout (linux/netlink.h, linux/rtnetlink.h): struct nlmsghdr is 16 bytes (len
  at 0, type at 4, flags at 6, seq at 8, pid at 12); struct ifinfomsg follows at
  16 (family 16, type 18, index 20, flags 24, change 28) and is 16 bytes; the
  union of struct nlmsg is 20 bytes, because struct nlmsgerr is.
\<close>

section \<open>Bytes\<close>

fun le_bytes :: "nat \<Rightarrow> nat \<Rightarrow> byte list" where
  "le_bytes 0 v = []"
| "le_bytes (Suc n) v = of_nat v # le_bytes n (v div 256)"

fun le_nat :: "byte list \<Rightarrow> nat" where
  "le_nat [] = 0"
| "le_nat (b # bs) = unat b + 256 * le_nat bs"

definition bytes_of :: "cstring \<Rightarrow> byte list" where
  "bytes_of s = map (\<lambda>c. of_nat (of_char c)) s"

lemma length_le_bytes [simp]: "length (le_bytes n v) = n"
  by (induction n arbitrary: v) auto

lemma length_bytes_of [simp]: "length (bytes_of s) = length s"
  by (simp add: bytes_of_def)

lemma le_nat_le_bytes: "le_nat (le_bytes n v) = v mod 256 ^ n"
proof (induction n arbitrary: v)
  case (Suc n)
  have "v mod 256 + 256 * (v div 256 mod 256 ^ n) = v mod (256 * 256 ^ n)"
    by (simp add: mod_mult2_eq)
  with Suc show ?case by (simp add: unat_of_nat)
qed simp

text \<open>Writing bytes at an offset; None outside the buffer.\<close>

definition poke :: "nat \<Rightarrow> byte list \<Rightarrow> byte list \<Rightarrow> byte list option" where
  "poke off bs m =
     (if off + length bs \<le> length m
      then Some (take off m @ bs @ drop (off + length bs) m) else None)"

lemma poke_skip:
  "length x \<le> off \<Longrightarrow> poke off bs (x @ y) = map_option ((@) x) (poke (off - length x) bs y)"
  by (auto simp: poke_def)

lemma poke_here: "length x = length bs \<Longrightarrow> poke 0 bs (x @ y) = Some (bs @ y)"
  by (auto simp: poke_def)

lemma poke_length: "poke off bs m = Some m' \<Longrightarrow> length m' = length m"
  by (auto simp: poke_def split: if_splits)

section \<open>Attributes\<close>

text \<open>sizeof(struct nlmsg) is 36.\<close>

definition NLMSG_GOOD_SIZE :: nat where
  "NLMSG_GOOD_SIZE = 36 * 256"

definition nlmsg_len :: "byte list \<Rightarrow> nat" where
  "nlmsg_len m = le_nat (take 4 m)"

text \<open>Rounding up to 4 in a 32-bit unsigned int and in a 64-bit size_t.\<close>

definition nlmsg_align :: "nat \<Rightarrow> nat" where
  "nlmsg_align n = (n + 3) mod 2 ^ 32 div 4 * 4"

definition rta_align :: "nat \<Rightarrow> nat" where
  "rta_align n = (n + 3) mod 2 ^ 64 div 4 * 4"

definition nlmsg_tail :: "byte list \<Rightarrow> nat" where
  "nlmsg_tail m = nlmsg_align (nlmsg_len m)"

text \<open>struct rtattr: a 16-bit length at 0, a 16-bit type at 2, the payload at 4.\<close>

definition rtattr_append :: "byte list \<Rightarrow> u16 \<Rightarrow> byte list \<Rightarrow> byte list option" where
  "rtattr_append m attr d =
     (let rtalen = (4 + length d) mod 2 ^ 64;
          rtattr = nlmsg_tail m
      in do {
        m1 \<leftarrow> poke (rtattr + 2) (le_bytes 2 (unat attr)) m;
        m2 \<leftarrow> poke rtattr (le_bytes 2 rtalen) m1;
        m3 \<leftarrow> poke (rtattr + 4) d m2;
        poke 0 (le_bytes 4 (nlmsg_align (nlmsg_len m3) + rta_align rtalen)) m3
      })"

definition rtattr_start_nested :: "byte list \<Rightarrow> u16 \<Rightarrow> (byte list \<times> nat) option" where
  "rtattr_start_nested m attr =
     (let rtattr = nlmsg_tail m
      in do { m' \<leftarrow> rtattr_append m attr []; Some (m', rtattr) })"

definition rtattr_end_nested :: "byte list \<Rightarrow> nat \<Rightarrow> byte list option" where
  "rtattr_end_nested m rtattr = poke rtattr (le_bytes 2 (nlmsg_tail m - rtattr)) m"

section \<open>Reading attributes back\<close>

text \<open>
  The walk of the kernel over a block of attributes (\<open>RTA_OK\<close>, \<open>RTA_NEXT\<close>):
  a length below 4 or beyond the block is malformed.
\<close>

definition round4 :: "nat \<Rightarrow> nat" where
  "round4 n = (n + 3) div 4 * 4"

lemma align_small:
  "n < 2 ^ 31 \<Longrightarrow> nlmsg_align n = round4 n" "n < 2 ^ 63 \<Longrightarrow> rta_align n = round4 n"
  by (simp_all add: nlmsg_align_def rta_align_def round4_def)

lemma round4_ge: "n \<le> round4 n"
  unfolding round4_def by presburger

function parse_attrs :: "byte list \<Rightarrow> (u16 \<times> byte list) list option" where
  "parse_attrs bs =
     (if bs = [] then Some []
      else let l = le_nat (take 2 bs); t = le_nat (take 2 (drop 2 bs)) in
        if length bs < 4 \<or> l < 4 \<or> length bs < l then None
        else map_option (Cons (of_nat t, take (l - 4) (drop 4 bs)))
               (parse_attrs (drop (round4 l) bs)))"
  by pat_completeness auto
termination
proof (relation "measure length", goal_cases)
  case (2 bs l t)
  then have "0 < round4 l" "0 < length bs" using round4_ge [of l] by auto
  then show ?case by simp
qed simp

declare parse_attrs.simps [simp del]

lemma parse_attrs_Nil [simp]: "parse_attrs [] = Some []"
  by (simp add: parse_attrs.simps)

text \<open>One attribute: header, payload, and padding \<open>g\<close> of the right length.\<close>

definition pad :: "nat \<Rightarrow> nat" where
  "pad n = round4 n - n"

definition attr_bytes :: "u16 \<Rightarrow> byte list \<Rightarrow> byte list \<Rightarrow> byte list" where
  "attr_bytes t d g = le_bytes 2 (4 + length d) @ le_bytes 2 (unat t) @ d @ g"

lemma length_attr_bytes:
  "length g = pad (length d) \<Longrightarrow> length (attr_bytes t d g) = 4 + round4 (length d)"
  using round4_ge [of "length d"] by (simp add: attr_bytes_def pad_def)

lemma round4_add4: "round4 (4 + n) = 4 + round4 n"
  unfolding round4_def by presburger

lemma round4_dvd [simp]: "4 dvd round4 n"
  by (simp add: round4_def)

lemma round4_id: "4 dvd n \<Longrightarrow> round4 n = n"
  unfolding round4_def by presburger

lemma pad_id [simp]: "4 dvd n \<Longrightarrow> pad n = 0"
  by (simp add: pad_def round4_id)

lemma parse_attr_bytes:
  assumes "length g = pad (length d)" "4 + length d < 2 ^ 16"
  shows "parse_attrs (attr_bytes t d g @ bs) = map_option (Cons (t, d)) (parse_attrs bs)"
proof -
  let ?b = "attr_bytes t d g @ bs"
  have l: "le_nat (take 2 ?b) = 4 + length d"
    using assms(2) by (simp add: attr_bytes_def le_nat_le_bytes)
  have "unat t < 2 ^ LENGTH(16)" by (rule unsigned_less)
  then have t: "le_nat (take 2 (drop 2 ?b)) = unat t"
    by (simp add: attr_bytes_def le_nat_le_bytes)
  have p: "take (length d) (drop 4 ?b) = d" by (simp add: attr_bytes_def)
  have len: "length (attr_bytes t d g) = round4 (4 + length d)"
    using assms(1) by (simp add: length_attr_bytes round4_add4)
  then have n: "drop (round4 (4 + length d)) ?b = bs" by simp
  have ge: "4 + length d \<le> length ?b" using len round4_ge [of "4 + length d"] by simp
  then have ne: "?b \<noteq> []" by auto
  show ?thesis
    using ge ne
    by (subst parse_attrs.simps) (simp add: l t p n Let_def del: append_is_Nil_conv take_append drop_append)
qed

section \<open>Messages under construction\<close>

text \<open>
  \<open>msg m hdr body\<close>: the buffer holds a message whose header, after the length
  field, is \<open>hdr\<close>, and whose bytes after the header are \<open>body\<close>; the rest of the
  buffer is unused.
\<close>

definition msg :: "byte list \<Rightarrow> byte list \<Rightarrow> byte list \<Rightarrow> bool" where
  "msg m hdr body \<longleftrightarrow>
     (\<exists>rest. m = le_bytes 4 (16 + length body) @ hdr @ body @ rest) \<and>
     length m = NLMSG_GOOD_SIZE \<and> length hdr = 12 \<and> 4 dvd length body"

lemma msg_size: "msg m hdr body \<Longrightarrow> 16 + length body \<le> NLMSG_GOOD_SIZE"
  by (auto simp: msg_def)

lemma msg_len: "msg m hdr body \<Longrightarrow> nlmsg_len m = 16 + length body"
  by (frule msg_size) (auto simp: msg_def nlmsg_len_def le_nat_le_bytes NLMSG_GOOD_SIZE_def)

lemma msg_tail: "msg m hdr body \<Longrightarrow> nlmsg_tail m = 16 + length body"
proof -
  assume m: "msg m hdr body"
  then have "16 + length body < 2 ^ 31" "4 dvd 16 + length body"
    using msg_size [OF m] by (auto simp: msg_def NLMSG_GOOD_SIZE_def)
  then show ?thesis
    unfolding nlmsg_tail_def msg_len [OF m] by (simp only: align_small round4_id)
qed

text \<open>The whole message, as it is sent.\<close>

lemma msg_sent: "msg m hdr body \<Longrightarrow> take (nlmsg_len m) m = le_bytes 4 (16 + length body) @ hdr @ body"
  by (auto simp: msg_len) (auto simp: msg_def)

lemma poke_at:
  "length x = off \<Longrightarrow> length y = length bs \<Longrightarrow> poke off bs (x @ y @ z) = Some (x @ bs @ z)"
  by (simp add: poke_skip poke_here)

lemma split_at:
  assumes "n \<le> length r"
  obtains a b where "r = a @ b" "length a = n"
  using that [of "take n r" "drop n r"] assms by simp

lemma msg_append:
  assumes m: "msg m hdr body" and room: "16 + length body + 4 + length d \<le> NLMSG_GOOD_SIZE"
  shows "\<exists>g m'. rtattr_append m t d = Some m' \<and> length g = pad (length d) \<and>
    msg m' hdr (body @ attr_bytes t d g)"
proof -
  define L where "L = 16 + length body"
  have bd: "length hdr = 12" "4 dvd length body" using m by (auto simp: msg_def)
  from m obtain rest where rest: "m = le_bytes 4 L @ hdr @ body @ rest" by (auto simp: msg_def L_def)
  define x where "x = hdr @ body"
  have x: "4 + length x = L" using bd by (simp add: x_def L_def)
  have len: "L + length rest = NLMSG_GOOD_SIZE" using m bd by (auto simp: msg_def rest L_def)
  have L4: "4 dvd L" using bd by (simp add: L_def)
  have "4 dvd NLMSG_GOOD_SIZE" by (simp add: NLMSG_GOOD_SIZE_def)
  with L4 room have "L + 4 + round4 (length d) \<le> NLMSG_GOOD_SIZE"
    unfolding L_def round4_def by presburger
  then have rl: "4 + round4 (length d) \<le> length rest" using len by simp
  then have "2 \<le> length rest" by simp
  from split_at [OF this] obtain r1 u1 where r1: "rest = r1 @ u1" "length r1 = 2" .
  with rl have "2 \<le> length u1" by simp
  from split_at [OF this] obtain r2 u2 where r2: "u1 = r2 @ u2" "length r2 = 2" .
  with rl r1 have u2: "round4 (length d) \<le> length u2" by simp
  with round4_ge [of "length d"] have "length d \<le> length u2" by simp
  from split_at [OF this] obtain r3 u3 where r3: "u2 = r3 @ u3" "length r3 = length d" .
  with u2 have "pad (length d) \<le> length u3" by (simp add: pad_def)
  from split_at [OF this] obtain g r4 where g: "u3 = g @ r4" "length g = pad (length d)" .
  have tail: "nlmsg_tail m = L" using msg_tail [OF m] by (simp add: L_def)
  let ?l = "le_bytes 4 L"
  have dl: "length d < 9216" using room by (simp add: NLMSG_GOOD_SIZE_def)
  have p1: "poke (L + 2) (le_bytes 2 (unat t)) m
      = Some (?l @ x @ r1 @ le_bytes 2 (unat t) @ r3 @ g @ r4)"
    using poke_at [of "?l @ x @ r1" "L + 2" r2 "le_bytes 2 (unat t)" "r3 @ g @ r4"] x r1 r2
    by (simp add: rest r1 r2 r3 g x_def)
  have p2: "poke L (le_bytes 2 (4 + length d)) (?l @ x @ r1 @ le_bytes 2 (unat t) @ r3 @ g @ r4)
      = Some (?l @ x @ le_bytes 2 (4 + length d) @ le_bytes 2 (unat t) @ r3 @ g @ r4)"
    using poke_at [of "?l @ x" L r1] x r1 by simp
  define m3 where "m3 = ?l @ x @ le_bytes 2 (4 + length d) @ le_bytes 2 (unat t) @ d @ g @ r4"
  have p3: "poke (L + 4) d (?l @ x @ le_bytes 2 (4 + length d) @ le_bytes 2 (unat t) @ r3 @ g @ r4)
      = Some m3"
    using poke_at [of "?l @ x @ le_bytes 2 (4 + length d) @ le_bytes 2 (unat t)" "L + 4" r3 d "g @ r4"]
      x r3 by (simp add: m3_def)
  have Lb: "L \<le> 9216" using len by (simp add: NLMSG_GOOD_SIZE_def)
  then have len3: "nlmsg_len m3 = L" by (simp add: m3_def nlmsg_len_def le_nat_le_bytes)
  have sum: "nlmsg_align (nlmsg_len m3) + rta_align (4 + length d) = L + (4 + round4 (length d))"
  proof -
    have "L < 2 ^ 31" "4 + length d < 2 ^ 63" using Lb dl by simp_all
    then show ?thesis
      unfolding len3 using L4 by (simp only: align_small round4_id round4_add4)
  qed
  define m' where "m' = le_bytes 4 (L + (4 + round4 (length d))) @ x @
      attr_bytes t d g @ r4"
  have p4: "poke 0 (le_bytes 4 (L + (4 + round4 (length d)))) m3 = Some m'"
    by (simp add: m3_def m'_def poke_here attr_bytes_def)
  have "(4 + length d) mod 2 ^ 64 = 4 + length d" using dl by simp
  then have "rtattr_append m t d = Some m'"
    unfolding rtattr_append_def Let_def tail by (simp only: p1 p2 p3 p4 sum bind.bind_lunit)
  moreover have "msg m' hdr (body @ attr_bytes t d g)"
  proof -
    have la: "length (attr_bytes t d g) = 4 + round4 (length d)"
      using g by (simp add: length_attr_bytes)
    have "length m' = NLMSG_GOOD_SIZE"
      using len g r1 r2 r3 x la round4_ge [of "length d"] by (simp add: m'_def pad_def)
    moreover have "4 dvd length (body @ attr_bytes t d g)"
      using bd(2) by (simp add: la dvd_add del: add_Suc add_Suc_right)
    ultimately show ?thesis
      using bd(1) unfolding msg_def
      by (intro conjI exI [of _ r4]) (simp_all add: m'_def x_def L_def la)
  qed
  ultimately show ?thesis using g by blast
qed

lemma msg_append_overflow:
  assumes m: "msg m hdr body" and full: "NLMSG_GOOD_SIZE < 16 + length body + 4 + length d"
  shows "rtattr_append m t d = None"
proof -
  have stuck: "poke (nlmsg_tail m + 4) d m2 = None" if "length m2 = length m" for m2
    using msg_tail [OF m] m full that by (simp add: poke_def msg_def)
  show ?thesis
  proof (rule ccontr)
    assume "rtattr_append m t d \<noteq> None"
    then obtain m' where "rtattr_append m t d = Some m'" by blast
    then obtain m1 m2 m3 where
      "poke (nlmsg_tail m + 2) (le_bytes 2 (unat t)) m = Some m1"
      "poke (nlmsg_tail m) (le_bytes 2 ((4 + length d) mod 2 ^ 64)) m1 = Some m2"
      "poke (nlmsg_tail m + 4) d m2 = Some m3"
      unfolding rtattr_append_def Let_def by (auto simp only: bind_eq_Some_conv)
    then show False using stuck [of m2] poke_length by (metis option.distinct(1))
  qed
qed

lemma msg_start_nested:
  assumes m: "msg m hdr body" and room: "16 + length body + 4 \<le> NLMSG_GOOD_SIZE"
  shows "\<exists>m'. rtattr_start_nested m t = Some (m', 16 + length body) \<and>
    msg m' hdr (body @ le_bytes 2 4 @ le_bytes 2 (unat t))"
proof -
  obtain g m' where "rtattr_append m t [] = Some m'" "length g = pad 0"
    "msg m' hdr (body @ attr_bytes t [] g)"
    using msg_append [of m hdr body "[]" t] m room by auto
  then show ?thesis
    by (simp add: rtattr_start_nested_def msg_tail [OF m] attr_bytes_def Let_def)
qed

lemma msg_end_nested:
  assumes m: "msg m hdr (b @ le_bytes 2 n @ r)"
  shows "\<exists>m'. rtattr_end_nested m (16 + length b) = Some m' \<and>
    msg m' hdr (b @ le_bytes 2 (2 + length r) @ r)"
proof -
  obtain rest where rest: "m = le_bytes 4 (18 + (length b + length r)) @ hdr @ b @ le_bytes 2 n @ r @ rest"
    and l: "length m = NLMSG_GOOD_SIZE" "length hdr = 12" "4 dvd length (b @ le_bytes 2 n @ r)"
    using m by (auto simp: msg_def)
  let ?m = "le_bytes 4 (18 + (length b + length r)) @ hdr @ b @ le_bytes 2 (2 + length r) @ r @ rest"
  have len: "nlmsg_tail m - (16 + length b) = 2 + length r" using msg_tail [OF m] by simp
  have "poke (16 + length b) (le_bytes 2 (2 + length r)) m = Some ?m"
    using poke_at [of "le_bytes 4 (18 + (length b + length r)) @ hdr @ b" "16 + length b"
        "le_bytes 2 n" "le_bytes 2 (2 + length r)" "r @ rest"] l by (simp add: rest)
  then have "rtattr_end_nested m (16 + length b) = Some ?m"
    by (simp only: rtattr_end_nested_def len)
  moreover have "msg ?m hdr (b @ le_bytes 2 (2 + length r) @ r)"
    using l by (auto simp: msg_def rest)
  ultimately show ?thesis by blast
qed

text \<open>A closed nested block reads as one attribute whose payload is the block.\<close>

lemma nested_attr_bytes:
  "le_bytes 2 (4 + length p) @ le_bytes 2 (unat t) @ p = attr_bytes t p []"
  by (simp add: attr_bytes_def)

lemma parse_nested:
  "4 dvd length p \<Longrightarrow> 4 + length p < 2 ^ 16 \<Longrightarrow>
   parse_attrs (attr_bytes t p [] @ bs) = map_option (Cons (t, p)) (parse_attrs bs)"
  by (rule parse_attr_bytes) simp_all

lemma parse_attrs_append:
  "parse_attrs x = Some as \<Longrightarrow> 4 dvd length x \<Longrightarrow>
   parse_attrs (x @ y) = map_option ((@) as) (parse_attrs y)"
proof (induction x arbitrary: as rule: parse_attrs.induct)
  case (1 x)
  show ?case
  proof (cases "x = []")
    case True
    with "1.prems" show ?thesis by (simp add: option.map_ident)
  next
    case False
    define l where "l = le_nat (take 2 x)"
    define t where "t = le_nat (take 2 (drop 2 x))"
    from "1.prems"(1) False obtain bs where
      ok: "\<not> (length x < 4 \<or> l < 4 \<or> length x < l)"
      and rest: "parse_attrs (drop (round4 l) x) = Some bs"
      and as: "as = (of_nat t, take (l - 4) (drop 4 x)) # bs"
      by (auto simp: parse_attrs.simps [of x] Let_def simp flip: l_def t_def split: if_splits)
    have r: "round4 l \<le> length x"
      using ok "1.prems"(2) unfolding round4_def by presburger
    have "4 dvd length (drop (round4 l) x)" using "1.prems"(2) r by (simp add: dvd_diff_nat)
    from "1.IH" [OF False l_def t_def ok rest this]
    have "parse_attrs (drop (round4 l) (x @ y)) = map_option ((@) bs) (parse_attrs y)"
      using r by simp
    moreover have "take 2 (x @ y) = take 2 x" "take 2 (drop 2 (x @ y)) = take 2 (drop 2 x)"
      "take (l - 4) (drop 4 (x @ y)) = take (l - 4) (drop 4 x)"
      using ok by auto
    ultimately show ?thesis
      using ok False
      by (simp add: parse_attrs.simps [of "x @ y"] Let_def as option.map_comp comp_def
          del: take_append drop_append flip: l_def t_def)
  qed
qed

section \<open>A message as a store of attributes\<close>

text \<open>The attributes of a message with a struct ifinfomsg at its start.\<close>

definition link_attrs :: "byte list \<Rightarrow> (u16 \<times> byte list) list option" where
  "link_attrs m = parse_attrs (drop 32 (take (nlmsg_len m) m))"

definition link_inv :: "byte list \<Rightarrow> byte list \<Rightarrow> byte list \<Rightarrow> bool" where
  "link_inv hdr ifi m \<longleftrightarrow>
     (\<exists>body. msg m hdr (ifi @ body) \<and> length ifi = 16 \<and> parse_attrs body \<noteq> None)"

definition link_view :: "byte list \<Rightarrow> (u16 \<times> byte list) list" where
  "link_view m = the (link_attrs m)"

definition link_add :: "byte list \<Rightarrow> u16 \<times> byte list \<Rightarrow> byte list option" where
  "link_add m a = (case a of (t, d) \<Rightarrow> rtattr_append m t d)"

lemma msg_link_attrs:
  "msg m hdr (ifi @ body) \<Longrightarrow> length ifi = 16 \<Longrightarrow> link_attrs m = parse_attrs body"
  using msg_sent [of m hdr "ifi @ body"] by (auto simp: link_attrs_def msg_def)

lemma link_add_append:
  assumes inv: "link_inv hdr ifi m" and add: "link_add m a = Some m'"
  shows "link_inv hdr ifi m' \<and> link_view m' = link_view m @ [a]"
proof -
  obtain t d where a: "a = (t, d)" by fastforce
  obtain body as where m: "msg m hdr (ifi @ body)" "length ifi = 16" "parse_attrs body = Some as"
    using inv by (auto simp: link_inv_def)
  have room: "16 + length (ifi @ body) + 4 + length d \<le> NLMSG_GOOD_SIZE"
    using msg_append_overflow [OF m(1), of d t] add a
    by (cases "NLMSG_GOOD_SIZE < 16 + length (ifi @ body) + 4 + length d") (simp_all add: link_add_def)
  from msg_append [OF m(1) this, of t] obtain g where
    g: "length g = pad (length d)" "msg m' hdr (ifi @ (body @ attr_bytes t d g))"
    using add a by (auto simp: link_add_def)
  have "4 dvd 16 + length body" using m by (auto simp: msg_def)
  then have "4 dvd length body" by presburger
  moreover have "parse_attrs (attr_bytes t d g) = Some [(t, d)]"
    using parse_attr_bytes [of g d t "[]"] g(1) room by (simp add: NLMSG_GOOD_SIZE_def)
  ultimately have "parse_attrs (body @ attr_bytes t d g) = Some (as @ [(t, d)])"
    using parse_attrs_append [OF m(3)] by simp
  with g m a show ?thesis
    by (auto simp: link_inv_def link_view_def msg_link_attrs)
qed

interpretation nl: snoc_store "link_inv hdr ifi" link_view link_add for hdr ifi
  by unfold_locales (use link_add_append in blast)+

text \<open>What is sent, once all attributes are there.\<close>

lemma link_inv_sent:
  assumes "link_inv hdr ifi m"
  shows "\<exists>body. take (nlmsg_len m) m = le_bytes 4 (32 + length body) @ hdr @ ifi @ body \<and>
    parse_attrs body = Some (link_view m)"
proof -
  obtain body where b: "msg m hdr (ifi @ body)" "length ifi = 16" "parse_attrs body \<noteq> None"
    using assms by (auto simp: link_inv_def)
  have "take (nlmsg_len m) m = le_bytes 4 (32 + length body) @ hdr @ ifi @ body"
    using msg_sent [OF b(1)] b(2) by simp
  with b show ?thesis by (auto simp: link_view_def msg_link_attrs)
qed

section \<open>The socket\<close>

definition nl_open :: "unit io" where
  "nl_open =
     io_seq (checked Socket ''Error creating netlink socket'')
       (io_seq (sys Getpid) (checked Bind ''Error binding netlink socket''))"

text \<open>A malloc'ed block: its contents are whatever the heap held.\<close>

definition io_malloc :: "(call list \<Rightarrow> byte list) \<Rightarrow> byte list io" where
  "io_malloc junk k h = (Inr (junk h), h)"

definition nl_send :: "byte list \<Rightarrow> unit io" where
  "nl_send m = checked (Sendmsg (take (nlmsg_len m) m)) ''Error sending netlink message''"

text \<open>
  The reply overwrites the request, but no more of it than the request's own
  length, which is what the iovec says.
\<close>

definition nl_recv :: "byte list \<Rightarrow> byte list io" where
  "nl_recv m =
     io_bind (sys (Recvmsg (nlmsg_len m))) (\<lambda>r.
       io_seq (sys_fail_if (rc r < 0) ''Error receiving netlink message'')
         (let d = take (nlmsg_len m) (data r) in io_ret (d @ drop (length d) m)))"

text \<open>
  The exchange that ends every request of netif.c: send, receive, and fail if
  the reply is \<open>NLMSG_ERROR\<close> (2) with a negative error.
\<close>

definition reply_error :: "byte list \<Rightarrow> bool" where
  "reply_error m \<longleftrightarrow>
     le_nat (take 2 (drop 4 m)) = 2 \<and> 2 ^ 31 \<le> le_nat (take 4 (drop 16 m))"

definition nl_transact :: "byte list option \<Rightarrow> unit io" where
  "nl_transact req =
     (case req of
        None \<Rightarrow> io_stop (Crash ''write outside the netlink buffer'')
      | Some m \<Rightarrow>
          io_seq (nl_send m)
            (io_bind (nl_recv m) (\<lambda>m'.
               sys_fail_if (reply_error m') ''Error sending netlink request'')))"

lemma nl_transact_Inr_iff:
  "nl_transact req k h = (Inr u, h') \<longleftrightarrow>
     (\<exists>m. req = Some m \<and>
        (let c = Sendmsg (take (nlmsg_len m) m); n = nlmsg_len m;
             r = k (h @ [c]) (Recvmsg n); d = take n (data r)
         in 0 \<le> rc (k h c) \<and> 0 \<le> rc r \<and> \<not> reply_error (d @ drop (length d) m) \<and>
            h' = h @ [c, Recvmsg n]))"
  by (cases req) (auto simp: nl_transact_def nl_send_def nl_recv_def io_Inr_iffs Let_def)

lemma nl_transact_None: "nl_transact None k h = (Inl (Crash ''write outside the netlink buffer''), h)"
  by (simp add: nl_transact_def io_stop_def)

end
