(* ===== verification/Netif.thy ===== *)
theory Netif
  imports Netlink Util
begin

text \<open>
  netif.c: the list of network interfaces to give to the container, parsed from
  \<open>--netif\<close>, and the netlink requests that create, move and rename them.
\<close>

section \<open>The list of interfaces\<close>

datatype netif_type = MOVE | MACVLAN | IPVLAN | VETH

record netif =
  nif_type :: netif_type
  nif_dev :: cstring
  nif_name :: cstring

definition netif_add :: "netif list \<Rightarrow> netif_type \<Rightarrow> cstring \<Rightarrow> cstring \<Rightarrow> netif list" where
  "netif_add ifs type dev name = ifs @ [\<lparr>nif_type = type, nif_dev = dev, nif_name = name\<rparr>]"

text \<open>The i-th pointer of the split specification; reading through NULL crashes.\<close>

definition opt_arg :: "cstring option list \<Rightarrow> nat \<Rightarrow> cstring io" where
  "opt_arg opts i =
     (case opts ! i of None \<Rightarrow> io_stop (Crash ''NULL option'') | Some s \<Rightarrow> io_ret s)"

text \<open>if_nametoindex(NULL) is undefined, too.\<close>

definition netif_add_from_spec :: "netif list \<Rightarrow> cstring option \<Rightarrow> netif list io" where
  "netif_add_from_spec ifs spec =
     (case spec of
        None \<Rightarrow> io_ret ifs
      | Some s \<Rightarrow>
          (let opts = split_str plenty (Some s) '':''; c = length opts;
               few = ''Invalid netif spec %s: not enough args'';
               add = (\<lambda>type i j. io_bind (opt_arg opts i) (\<lambda>dev.
                        io_bind (opt_arg opts j) (\<lambda>name. io_ret (netif_add ifs type dev name))))
           in io_seq (fail_if (c = 0) few)
              (io_bind (opt_arg opts 0) (\<lambda>kind.
               io_bind (sys (IfNametoindex kind)) (\<lambda>r.
                 if rc r \<noteq> 0 then io_seq (fail_if (c < 2) few) (add MOVE 0 1)
                 else if strneq 8 kind ''macvlan'' then io_seq (fail_if (c < 3) few) (add MACVLAN 1 2)
                 else if strneq 8 kind ''ipvlan'' then io_seq (fail_if (c < 3) few) (add IPVLAN 1 2)
                 else if strneq 5 kind ''veth'' then io_seq (fail_if (c < 3) few) (add VETH 1 2)
                 else io_stop (Fail ''Invalid netif spec %s''))))))"

section \<open>Requests\<close>

text \<open>
  The constants of the kernel headers: RTM_NEWLINK 16; NLM_F_REQUEST 1,
  NLM_F_ACK 4, NLM_F_EXCL 0x200, NLM_F_CREATE 0x400; IFLA_IFNAME 3, IFLA_LINK 5,
  IFLA_LINKINFO 18, IFLA_NET_NS_PID 19; IFLA_INFO_KIND 1, IFLA_INFO_DATA 2;
  VETH_INFO_PEER 1; IFF_UP 1.
\<close>

definition flags_set :: nat where
  "flags_set = 1 + 4"

definition flags_create :: nat where
  "flags_create = 1 + 0x400 + 0x200 + 4"

text \<open>
  The assignments with which every request starts: seq, type, len, flags and
  ifi_family, in a malloc'ed buffer \<open>g\<close>.  Nothing else is initialised.
\<close>

definition new_request :: "nat \<Rightarrow> byte list \<Rightarrow> byte list option" where
  "new_request flags g = do {
     m1 \<leftarrow> poke 8 (le_bytes 4 1) g;
     m2 \<leftarrow> poke 4 (le_bytes 2 16) m1;
     m3 \<leftarrow> poke 0 (le_bytes 4 32) m2;
     m4 \<leftarrow> poke 6 (le_bytes 2 flags) m3;
     poke 16 [0] m4
   }"

definition cstr :: "cstring \<Rightarrow> byte list" where
  "cstr s = bytes_of s @ [0]"

definition int_bytes :: "u32 \<Rightarrow> byte list" where
  "int_bytes w = le_bytes 4 (unat w)"

definition if_up_request :: "byte list \<Rightarrow> u32 \<Rightarrow> byte list option" where
  "if_up_request g if_index = do {
     m \<leftarrow> new_request flags_set g;
     m \<leftarrow> poke 20 (int_bytes if_index) m;
     m \<leftarrow> poke 24 (int_bytes 1) m;
     poke 28 (int_bytes 1) m
   }"

definition move_request :: "byte list \<Rightarrow> u32 \<Rightarrow> u32 \<Rightarrow> cstring \<Rightarrow> byte list option" where
  "move_request g pid if_index new_name = do {
     m \<leftarrow> new_request flags_set g;
     m \<leftarrow> poke 20 (int_bytes if_index) m;
     m \<leftarrow> rtattr_append m 19 (int_bytes pid);
     rtattr_append m 3 (cstr new_name)
   }"

definition macvlan_request :: "byte list \<Rightarrow> u32 \<Rightarrow> cstring \<Rightarrow> byte list option" where
  "macvlan_request g master name = do {
     m \<leftarrow> new_request flags_create g;
     (m, nested) \<leftarrow> rtattr_start_nested m 18;
     m \<leftarrow> rtattr_append m 1 (cstr ''macvlan'');
     m \<leftarrow> rtattr_end_nested m nested;
     m \<leftarrow> rtattr_append m 5 (int_bytes master);
     rtattr_append m 3 (cstr name)
   }"

definition ipvlan_request :: "byte list \<Rightarrow> u32 \<Rightarrow> cstring \<Rightarrow> byte list option" where
  "ipvlan_request g master name = do {
     m \<leftarrow> new_request flags_create g;
     (m, nested) \<leftarrow> rtattr_start_nested m 18;
     m \<leftarrow> rtattr_append m 1 (cstr ''ipvlan'');
     m \<leftarrow> rtattr_end_nested m nested;
     m \<leftarrow> rtattr_append m 5 (int_bytes master);
     rtattr_append m 3 (cstr name)
   }"

text \<open>
  The veth request leaves room for the peer's struct ifinfomsg by adding its
  size to the message length (a 32-bit sum).
\<close>

definition veth_request :: "byte list \<Rightarrow> cstring \<Rightarrow> cstring \<Rightarrow> byte list option" where
  "veth_request g name_out name_in = do {
     m \<leftarrow> new_request flags_create g;
     (m, nested_info) \<leftarrow> rtattr_start_nested m 18;
     m \<leftarrow> rtattr_append m 1 (cstr ''veth'');
     (m, nested_data) \<leftarrow> rtattr_start_nested m 2;
     (m, nested_peer) \<leftarrow> rtattr_start_nested m 1;
     m \<leftarrow> poke 0 (le_bytes 4 (nlmsg_len m + 16)) m;
     m \<leftarrow> rtattr_append m 3 (cstr name_in);
     m \<leftarrow> rtattr_end_nested m nested_peer;
     m \<leftarrow> rtattr_end_nested m nested_data;
     m \<leftarrow> rtattr_end_nested m nested_info;
     rtattr_append m 3 (cstr name_out)
   }"

section \<open>Sending the requests\<close>

definition if_up :: "(call list \<Rightarrow> byte list) \<Rightarrow> u32 \<Rightarrow> unit io" where
  "if_up junk if_index = io_bind (io_malloc junk) (\<lambda>g. nl_transact (if_up_request g if_index))"

definition move_and_rename_if ::
  "(call list \<Rightarrow> byte list) \<Rightarrow> u32 \<Rightarrow> u32 \<Rightarrow> cstring \<Rightarrow> unit io" where
  "move_and_rename_if junk pid if_index new_name =
     io_bind (io_malloc junk) (\<lambda>g. nl_transact (move_request g pid if_index new_name))"

definition create_macvlan :: "(call list \<Rightarrow> byte list) \<Rightarrow> u32 \<Rightarrow> cstring \<Rightarrow> unit io" where
  "create_macvlan junk master name =
     io_bind (io_malloc junk) (\<lambda>g. nl_transact (macvlan_request g master name))"

definition create_ipvlan :: "(call list \<Rightarrow> byte list) \<Rightarrow> u32 \<Rightarrow> cstring \<Rightarrow> unit io" where
  "create_ipvlan junk master name =
     io_bind (io_malloc junk) (\<lambda>g. nl_transact (ipvlan_request g master name))"

definition create_veth_pair :: "(call list \<Rightarrow> byte list) \<Rightarrow> cstring \<Rightarrow> cstring \<Rightarrow> unit io" where
  "create_veth_pair junk name_out name_in =
     io_bind (io_malloc junk) (\<lambda>g. nl_transact (veth_request g name_out name_in))"

text \<open>if_nametoindex, whose result is an unsigned int.\<close>

definition if_index_of :: "cstring \<Rightarrow> u32 io" where
  "if_index_of name = io_bind (sys (IfNametoindex name)) (\<lambda>r. io_ret (of_int (rc r)))"

text \<open>
  One round of the loop of setup_netif.  After creating a macvlan or ipvlan
  device its index is looked up without a check; after a veth pair with one.
\<close>

definition setup_one_netif :: "(call list \<Rightarrow> byte list) \<Rightarrow> u32 \<Rightarrow> netif \<Rightarrow> unit io" where
  "setup_one_netif junk pid i =
     (let name = ''pflask-'' @ show_int (sint pid); missing = ''Error searching for %s'' in
      io_bind
        (case nif_type i of
           MACVLAN \<Rightarrow>
             io_bind (if_index_of (nif_dev i)) (\<lambda>if_index.
             io_seq (sys_fail_if (if_index = 0) missing)
             (io_seq (create_macvlan junk if_index name) (if_index_of name)))
         | IPVLAN \<Rightarrow>
             io_bind (if_index_of (nif_dev i)) (\<lambda>if_index.
             io_seq (sys_fail_if (if_index = 0) missing)
             (io_seq (create_ipvlan junk if_index name) (if_index_of name)))
         | VETH \<Rightarrow>
             io_seq (create_veth_pair junk (nif_dev i) name)
             (io_bind (if_index_of name) (\<lambda>if_index.
             io_seq (sys_fail_if (if_index = 0) missing) (io_ret if_index)))
         | MOVE \<Rightarrow>
             io_bind (if_index_of (nif_dev i)) (\<lambda>if_index.
             io_seq (sys_fail_if (if_index = 0) missing) (io_ret if_index)))
        (\<lambda>if_index. move_and_rename_if junk pid if_index (nif_name i)))"

definition setup_netif :: "(call list \<Rightarrow> byte list) \<Rightarrow> netif list \<Rightarrow> u32 \<Rightarrow> unit io" where
  "setup_netif junk ifs pid =
     io_seq nl_open
       (io_seq (io_iter (setup_one_netif junk pid) ifs) (checked Close ''Error closing fd''))"

definition config_netif :: "(call list \<Rightarrow> byte list) \<Rightarrow> unit io" where
  "config_netif junk =
     io_seq nl_open (io_seq (if_up junk 1) (checked Close ''Error closing fd''))"

section \<open>The shape of the requests\<close>

text \<open>The header after the length field, with the uninitialised pid \<open>p\<close>.\<close>

definition link_hdr :: "nat \<Rightarrow> byte list \<Rightarrow> byte list" where
  "link_hdr flags p = le_bytes 2 16 @ le_bytes 2 flags @ le_bytes 4 1 @ p"

lemma carve:
  assumes "sum_list ns \<le> length g"
  obtains bs r where "g = concat bs @ r" "map length bs = ns"
  using assms
proof (induction ns arbitrary: g thesis)
  case (Cons n ns)
  from Cons.prems(2) have "n \<le> length g" by simp
  from split_at [OF this] obtain b r where br: "g = b @ r" "length b = n" .
  with Cons.prems(2) have "sum_list ns \<le> length r" by simp
  with Cons.IH obtain bs r' where "r = concat bs @ r'" "map length bs = ns" by blast
  with br show ?case by (intro Cons.prems(1) [of "b # bs" r']) simp_all
qed simp

lemma new_request_msg:
  assumes "length g = NLMSG_GOOD_SIZE"
  shows "\<exists>m. new_request flags g = Some m \<and>
    msg m (link_hdr flags (take 4 (drop 12 g))) (0 # take 15 (drop 17 g))"
proof -
  have "sum_list [4, 2, 2, 4, 4, 1, 15] \<le> length g" using assms by (simp add: NLMSG_GOOD_SIZE_def)
  then obtain a b c d p f i r where g: "g = a @ b @ c @ d @ p @ f @ i @ r"
    and l: "length a = 4" "length b = 2" "length c = 2" "length d = 4" "length p = 4"
      "length f = 1" "length i = 15"
    by (elim carve [of "[4, 2, 2, 4, 4, 1, 15]" g]) (auto simp: map_eq_Cons_conv)
  let ?t = "le_bytes 2 16" and ?l = "le_bytes 4 32" and ?f = "le_bytes 2 flags" and ?s = "le_bytes 4 1"
  have "poke 8 ?s g = Some (a @ b @ c @ ?s @ p @ f @ i @ r)"
    using poke_at [of "a @ b @ c" 8 d ?s "p @ f @ i @ r"] l by (simp add: g)
  moreover have "poke 4 ?t (a @ b @ c @ ?s @ p @ f @ i @ r) = Some (a @ ?t @ c @ ?s @ p @ f @ i @ r)"
    using poke_at [of a 4 b ?t] l by simp
  moreover have "poke 0 ?l (a @ ?t @ c @ ?s @ p @ f @ i @ r) = Some (?l @ ?t @ c @ ?s @ p @ f @ i @ r)"
    using poke_at [of "[]" 0 a ?l] l by simp
  moreover have "poke 6 ?f (?l @ ?t @ c @ ?s @ p @ f @ i @ r) = Some (?l @ ?t @ ?f @ ?s @ p @ f @ i @ r)"
    using poke_at [of "?l @ ?t" 6 c ?f] l by simp
  moreover have "poke 16 [0] (?l @ ?t @ ?f @ ?s @ p @ f @ i @ r) = Some (?l @ ?t @ ?f @ ?s @ p @ [0] @ i @ r)"
    using poke_at [of "?l @ ?t @ ?f @ ?s @ p" 16 f "[0]"] l by simp
  ultimately have "new_request flags g = Some (?l @ link_hdr flags p @ (0 # i) @ r)"
    by (simp add: new_request_def link_hdr_def)
  moreover have "msg (?l @ link_hdr flags p @ (0 # i) @ r) (link_hdr flags p) (0 # i)"
    using assms l unfolding msg_def by (intro conjI exI [of _ r]) (simp_all add: link_hdr_def g)
  moreover have "take 4 (drop 12 g) = p" "take 15 (drop 17 g) = i"
    using l by (simp_all add: g)
  ultimately show ?thesis by simp
qed

lemma msg_link_inv:
  "msg m hdr (ifi @ body) \<Longrightarrow> length ifi = 16 \<Longrightarrow> parse_attrs body = Some as \<Longrightarrow>
   link_inv hdr ifi m \<and> link_view m = as"
  by (auto simp: link_inv_def link_view_def msg_link_attrs)

text \<open>The macvlan and the ipvlan request differ in the kind only.\<close>

definition kind_request :: "cstring \<Rightarrow> byte list \<Rightarrow> u32 \<Rightarrow> cstring \<Rightarrow> byte list option" where
  "kind_request kind g master name = do {
     m \<leftarrow> new_request flags_create g;
     (m, nested) \<leftarrow> rtattr_start_nested m 18;
     m \<leftarrow> rtattr_append m 1 (cstr kind);
     m \<leftarrow> rtattr_end_nested m nested;
     add_all link_add m [(5, int_bytes master), (3, cstr name)]
   }"

lemma is_kind_request:
  "macvlan_request = kind_request ''macvlan''" "ipvlan_request = kind_request ''ipvlan''"
  by (intro ext; simp add: macvlan_request_def ipvlan_request_def kind_request_def link_add_def)+

lemma msg_close:
  assumes "msg m hdr (b @ le_bytes 2 n @ le_bytes 2 (unat t) @ p)"
  shows "\<exists>m'. rtattr_end_nested m (16 + length b) = Some m' \<and> msg m' hdr (b @ attr_bytes t p [])"
proof -
  have "2 + length (le_bytes 2 (unat t) @ p) = 4 + length p" by simp
  with msg_end_nested [of m hdr b n "le_bytes 2 (unat t) @ p"] assms show ?thesis
    by (simp only: attr_bytes_def append_Nil2)
qed

text \<open>Opening a block, putting a single attribute in it, and closing it.\<close>

lemma msg_block:
  assumes m: "msg m hdr body" and room: "length body + length d + 12 \<le> 9000"
  shows "\<exists>m1 m2 m3 info. rtattr_start_nested m t = Some (m1, 16 + length body) \<and>
    rtattr_append m1 u d = Some m2 \<and> rtattr_end_nested m2 (16 + length body) = Some m3 \<and>
    msg m3 hdr (body @ attr_bytes t info []) \<and> parse_attrs info = Some [(u, d)] \<and>
    length info = 4 + round4 (length d)"
proof -
  obtain m1 where m1: "rtattr_start_nested m t = Some (m1, 16 + length body)"
    "msg m1 hdr (body @ le_bytes 2 4 @ le_bytes 2 (unat t))"
    using msg_start_nested [OF m, of t] room by (auto simp: NLMSG_GOOD_SIZE_def)
  obtain g m2 where m2: "rtattr_append m1 u d = Some m2" "length g = pad (length d)"
    "msg m2 hdr (body @ le_bytes 2 4 @ le_bytes 2 (unat t) @ attr_bytes u d g)"
    using msg_append [OF m1(2), of d u] room by (auto simp: NLMSG_GOOD_SIZE_def)
  obtain m3 where m3: "rtattr_end_nested m2 (16 + length body) = Some m3"
    "msg m3 hdr (body @ attr_bytes t (attr_bytes u d g) [])"
    using msg_close [OF m2(3)] by auto
  have "parse_attrs (attr_bytes u d g) = Some [(u, d)]"
    using parse_attr_bytes [of g d u "[]"] m2(2) room by simp
  with m1(1) m2 m3 show ?thesis
    using length_attr_bytes [of g d u] by blast
qed

text \<open>What the two adds after the block do, by the contract of the message as a store.\<close>

lemma kind_request_decodes:
  assumes g: "length g = NLMSG_GOOD_SIZE" and k: "length kind \<le> 10"
    and req: "kind_request kind g master name = Some m"
  shows "\<exists>body info. take (nlmsg_len m) m =
      le_bytes 4 (32 + length body) @ link_hdr flags_create (take 4 (drop 12 g)) @
      [0] @ take 15 (drop 17 g) @ body \<and>
    parse_attrs body = Some [(18, info), (5, int_bytes master), (3, cstr name)] \<and>
    parse_attrs info = Some [(1, cstr kind)]"
proof -
  define h where "h = link_hdr flags_create (take 4 (drop 12 g))"
  define ifi where "ifi = 0 # take 15 (drop 17 g)"
  have li: "length ifi = 16" using g by (simp add: ifi_def NLMSG_GOOD_SIZE_def)
  obtain m0 where m0: "new_request flags_create g = Some m0" "msg m0 h ifi"
    using new_request_msg [OF g] by (auto simp: h_def ifi_def)
  obtain m1 m2 m3 info where blk: "rtattr_start_nested m0 18 = Some (m1, 16 + length ifi)"
    "rtattr_append m1 1 (cstr kind) = Some m2" "rtattr_end_nested m2 (16 + length ifi) = Some m3"
    "msg m3 h (ifi @ attr_bytes 18 info [])" "parse_attrs info = Some [(1, cstr kind)]"
    "length info = 4 + round4 (length (cstr kind))"
    using msg_block [OF m0(2), of "cstr kind" 18 1] k li by (auto simp: cstr_def)
  have add: "add_all link_add m3 [(5, int_bytes master), (3, cstr name)] = Some m"
    using req m0(1) blk by (simp add: kind_request_def)
  have "4 dvd length info" "4 + length info < 2 ^ 16"
    using blk(6) k by (simp_all add: cstr_def round4_def)
  then have p: "parse_attrs (attr_bytes 18 info []) = Some [(18, info)]"
    using parse_nested [of info 18 "[]"] by simp
  then have "link_inv h ifi m3" "link_view m3 = [(18, info)]"
    using msg_link_inv [OF blk(4) li] by auto
  with nl.add_all_view [OF _ add] have "link_inv h ifi m"
    "link_view m = [(18, info), (5, int_bytes master), (3, cstr name)]" by auto
  with link_inv_sent [of h ifi m] blk(5) show ?thesis
    by (auto simp: h_def ifi_def)
qed

lemma msg_poke:
  assumes "msg m hdr (x @ y @ z)" "length y = length bs"
  shows "\<exists>m'. poke (16 + length x) bs m = Some m' \<and> msg m' hdr (x @ bs @ z)"
proof -
  obtain rest where rest: "m = le_bytes 4 (16 + length (x @ y @ z)) @ hdr @ (x @ y @ z) @ rest"
    and l: "length m = NLMSG_GOOD_SIZE" "length hdr = 12" "4 dvd length (x @ y @ z)"
    using assms(1) by (auto simp: msg_def)
  let ?m = "le_bytes 4 (16 + length (x @ bs @ z)) @ hdr @ (x @ bs @ z) @ rest"
  have "poke (16 + length x) bs m = Some ?m"
    using poke_at [of "le_bytes 4 (16 + length (x @ y @ z)) @ hdr @ x" "16 + length x" y bs "z @ rest"]
      l assms(2) by (simp add: rest)
  moreover have "msg ?m hdr (x @ bs @ z)"
    using l assms(2) unfolding msg_def by (intro conjI exI [of _ rest]) (simp_all add: rest)
  ultimately show ?thesis by blast
qed

text \<open>Adding an attribute works exactly as long as there is room for it.\<close>

lemma link_add_room:
  assumes inv: "link_inv hdr ifi m" and room: "nlmsg_tail m + 4 + length d \<le> NLMSG_GOOD_SIZE"
  shows "\<exists>m'. link_add m (t, d) = Some m' \<and> nlmsg_tail m' = nlmsg_tail m + 4 + round4 (length d)"
proof -
  obtain body where b: "msg m hdr body" using inv by (auto simp: link_inv_def)
  obtain g m' where m': "rtattr_append m t d = Some m'" "length g = pad (length d)"
    "msg m' hdr (body @ attr_bytes t d g)"
    using msg_append [OF b, of d t] room msg_tail [OF b] by auto
  with msg_tail [OF b] msg_tail [OF m'(3)] show ?thesis
    by (simp add: link_add_def length_attr_bytes)
qed

lemma link_add_no_room:
  "link_inv hdr ifi m \<Longrightarrow> NLMSG_GOOD_SIZE < nlmsg_tail m + 4 + length d \<Longrightarrow> link_add m (t, d) = None"
  using msg_append_overflow [of m hdr _ d t] msg_tail [of m hdr]
  by (fastforce simp: link_inv_def link_add_def)

lemma move_request_store:
  assumes g: "length g = NLMSG_GOOD_SIZE"
  shows "\<exists>m. move_request g pid if_index name =
      add_all link_add m [(19, int_bytes pid), (3, cstr name)] \<and>
    link_inv (link_hdr flags_set (take 4 (drop 12 g)))
      (0 # take 3 (drop 17 g) @ int_bytes if_index @ take 8 (drop 24 g)) m \<and>
    link_view m = [] \<and> nlmsg_tail m = 32"
proof -
  let ?h = "link_hdr flags_set (take 4 (drop 12 g))"
  obtain m0 where m0: "new_request flags_set g = Some m0" "msg m0 ?h (0 # take 15 (drop 17 g))"
    using new_request_msg [OF g] by blast
  have "take 15 (drop 17 g) = take 3 (drop 17 g) @ take 4 (drop 20 g) @ take 8 (drop 24 g)"
    using take_add [of 3 12 "drop 17 g"] take_add [of 4 8 "drop 20 g"] by (simp add: drop_drop)
  then have "msg m0 ?h ((0 # take 3 (drop 17 g)) @ take 4 (drop 20 g) @ take 8 (drop 24 g))"
    using m0(2) by simp
  from msg_poke [OF this, of "int_bytes if_index"] obtain m1 where m1:
    "poke 20 (int_bytes if_index) m0 = Some m1"
    "msg m1 ?h (0 # take 3 (drop 17 g) @ int_bytes if_index @ take 8 (drop 24 g))"
    using g by (auto simp: NLMSG_GOOD_SIZE_def int_bytes_def)
  have l: "length (0 # take 3 (drop 17 g) @ int_bytes if_index @ take 8 (drop 24 g)) = 16"
    using g by (simp add: NLMSG_GOOD_SIZE_def int_bytes_def)
  have "link_attrs m1 = Some []"
    using msg_link_attrs [of m1 ?h _ "[]"] m1(2) l by simp
  then show ?thesis
    using m0(1) m1 l msg_tail [OF m1(2)]
    by (intro exI [of _ m1])
       (auto simp: move_request_def link_add_def link_inv_def link_view_def intro: exI [of _ "[]"])
qed

lemma kind_request_total:
  assumes g: "length g = NLMSG_GOOD_SIZE" and k: "length kind \<le> 10" and n: "length name \<le> 9000"
  shows "kind_request kind g master name \<noteq> None"
proof -
  let ?h = "link_hdr flags_create (take 4 (drop 12 g))" and ?i = "0 # take 15 (drop 17 g)"
  have li: "length ?i = 16" using g by (simp add: NLMSG_GOOD_SIZE_def)
  obtain m0 where m0: "new_request flags_create g = Some m0" "msg m0 ?h ?i"
    using new_request_msg [OF g] by blast
  obtain m1 m2 m3 info where blk: "rtattr_start_nested m0 18 = Some (m1, 16 + length ?i)"
    "rtattr_append m1 1 (cstr kind) = Some m2" "rtattr_end_nested m2 (16 + length ?i) = Some m3"
    "msg m3 ?h (?i @ attr_bytes 18 info [])"
    "length info = 4 + round4 (length (cstr kind))"
    using msg_block [OF m0(2), of "cstr kind" 18 1] k li by (auto simp: cstr_def)
  have small: "length info \<le> 20" "4 dvd length info"
    using blk(5) k unfolding round4_def cstr_def by simp_all
  then have "parse_attrs (attr_bytes 18 info []) \<noteq> None"
    using parse_nested [of info 18 "[]"] by simp
  then have inv3: "link_inv ?h ?i m3" using blk(4) li by (auto simp: link_inv_def)
  have tail3: "nlmsg_tail m3 \<le> 56"
    using msg_tail [OF blk(4)] li small by (simp add: attr_bytes_def)
  obtain m4 where m4: "link_add m3 (5, int_bytes master) = Some m4" "nlmsg_tail m4 = nlmsg_tail m3 + 8"
    using link_add_room [OF inv3, of "int_bytes master" 5] tail3
    by (auto simp: NLMSG_GOOD_SIZE_def int_bytes_def round4_def)
  have "link_inv ?h ?i m4" using link_add_append [OF inv3 m4(1)] by blast
  from link_add_room [OF this, of "cstr name" 3] obtain m5 where "link_add m4 (3, cstr name) = Some m5"
    using m4(2) tail3 n by (auto simp: NLMSG_GOOD_SIZE_def cstr_def)
  then show ?thesis using m0(1) blk m4(1) by (simp add: kind_request_def)
qed

lemma move_request_None_iff:
  assumes "length g = NLMSG_GOOD_SIZE"
  shows "move_request g pid if_index name = None \<longleftrightarrow> 9171 < length name"
proof -
  obtain m0 hdr ifi where m0: "move_request g pid if_index name =
      add_all link_add m0 [(19, int_bytes pid), (3, cstr name)]"
    "link_inv hdr ifi m0" "nlmsg_tail m0 = 32"
    using move_request_store [OF assms, of pid if_index name] by blast
  obtain m1 where m1: "link_add m0 (19, int_bytes pid) = Some m1" "nlmsg_tail m1 = 40"
    using link_add_room [OF m0(2), of "int_bytes pid" 19] m0(3)
    by (auto simp: NLMSG_GOOD_SIZE_def int_bytes_def round4_def)
  have "link_inv hdr ifi m1" using link_add_append [OF m0(2) m1(1)] by blast
  note room = link_add_room [OF this, of "cstr name" 3] link_add_no_room [OF this, of "cstr name" 3]
  show ?thesis
    using room m0(1) m1 by (cases "9171 < length name") (auto simp: NLMSG_GOOD_SIZE_def cstr_def)
qed

text \<open>Leaving room in the message, as the veth request does for the peer.\<close>

lemma msg_reserve:
  assumes m: "msg m hdr body" and room: "length body + n \<le> 9200" and n: "4 dvd n"
  shows "\<exists>m' q. poke 0 (le_bytes 4 (nlmsg_len m + n)) m = Some m' \<and> length q = n \<and>
    msg m' hdr (body @ q)"
proof -
  obtain rest where rest: "m = le_bytes 4 (16 + length body) @ hdr @ body @ rest"
    and l: "length m = NLMSG_GOOD_SIZE" "length hdr = 12" "4 dvd length body"
    using m by (auto simp: msg_def)
  then have "n \<le> length rest" using room by (simp add: NLMSG_GOOD_SIZE_def)
  from split_at [OF this] obtain q r where q: "rest = q @ r" "length q = n" .
  have "poke 0 (le_bytes 4 (nlmsg_len m + n)) m
      = Some (le_bytes 4 (16 + length (body @ q)) @ hdr @ (body @ q) @ r)"
    using msg_len [OF m] q by (simp add: rest poke_here add.assoc)
  moreover have "msg (le_bytes 4 (16 + length (body @ q)) @ hdr @ (body @ q) @ r) hdr (body @ q)"
    using l n q unfolding msg_def by (intro conjI exI [of _ r]) (simp_all add: rest)
  ultimately show ?thesis using q(2) by blast
qed

text \<open>The veth request up to the end of IFLA_LINKINFO.\<close>

lemma veth_request_store:
  assumes g: "length g = NLMSG_GOOD_SIZE" and n: "length name_in \<le> 4000"
  shows "\<exists>m A q A3. veth_request g name_out name_in = link_add m (3, cstr name_out) \<and>
    msg m (link_hdr flags_create (take 4 (drop 12 g))) ((0 # take 15 (drop 17 g)) @
      attr_bytes 18 (A @ attr_bytes 2 (attr_bytes 1 (q @ A3) []) []) []) \<and>
    length A = 12 \<and> parse_attrs A = Some [(1, cstr ''veth'')] \<and> length q = 16 \<and>
    length A3 = 4 + round4 (length name_in + 1) \<and> parse_attrs A3 = Some [(3, cstr name_in)]"
proof -
  define h where "h = link_hdr flags_create (take 4 (drop 12 g))"
  define B0 where "B0 = 0 # take 15 (drop 17 g)"
  have l0: "length B0 = 16" using g by (simp add: B0_def NLMSG_GOOD_SIZE_def)
  obtain m0 where m0: "new_request flags_create g = Some m0" "msg m0 h B0"
    using new_request_msg [OF g] by (auto simp: h_def B0_def)
  obtain m1 where m1: "rtattr_start_nested m0 18 = Some (m1, 16 + length B0)"
    "msg m1 h (B0 @ le_bytes 2 4 @ le_bytes 2 (unat (18 :: u16)))"
    using msg_start_nested [OF m0(2), of 18] l0 by (auto simp: NLMSG_GOOD_SIZE_def)
  obtain g1 m2 where m2: "rtattr_append m1 1 (cstr ''veth'') = Some m2" "length g1 = pad (length (cstr ''veth''))"
    "msg m2 h ((B0 @ le_bytes 2 4 @ le_bytes 2 (unat (18 :: u16))) @ attr_bytes 1 (cstr ''veth'') g1)"
    using msg_append [OF m1(2), of "cstr ''veth''" 1] l0 by (auto simp: NLMSG_GOOD_SIZE_def cstr_def)
  define A where "A = attr_bytes 1 (cstr ''veth'') g1"
  have lA: "length A = 12" and pA: "parse_attrs A = Some [(1, cstr ''veth'')]"
    using m2(2) parse_attr_bytes [of g1 "cstr ''veth''" 1 "[]"]
    by (simp_all add: A_def length_attr_bytes cstr_def round4_def)
  define B2 where "B2 = B0 @ le_bytes 2 4 @ le_bytes 2 (unat (18 :: u16)) @ A"
  have l2: "length B2 = 32" and b2: "msg m2 h B2" using l0 lA m2(3) by (simp_all add: B2_def A_def)
  obtain m3 where m3: "rtattr_start_nested m2 2 = Some (m3, 16 + length B2)"
    "msg m3 h (B2 @ le_bytes 2 4 @ le_bytes 2 (unat (2 :: u16)))"
    using msg_start_nested [OF b2, of 2] l2 by (auto simp: NLMSG_GOOD_SIZE_def)
  define B3 where "B3 = B2 @ le_bytes 2 4 @ le_bytes 2 (unat (2 :: u16))"
  have l3: "length B3 = 36" and b3: "msg m3 h B3" using l2 m3(2) by (simp_all add: B3_def)
  obtain m4 where m4: "rtattr_start_nested m3 1 = Some (m4, 16 + length B3)"
    "msg m4 h (B3 @ le_bytes 2 4 @ le_bytes 2 (unat (1 :: u16)))"
    using msg_start_nested [OF b3, of 1] l3 by (auto simp: NLMSG_GOOD_SIZE_def)
  obtain m5 q where m5: "poke 0 (le_bytes 4 (nlmsg_len m4 + 16)) m4 = Some m5" "length q = 16"
    "msg m5 h ((B3 @ le_bytes 2 4 @ le_bytes 2 (unat (1 :: u16))) @ q)"
    using msg_reserve [OF m4(2), of 16] l3 by auto
  obtain g3 m6 where m6: "rtattr_append m5 3 (cstr name_in) = Some m6" "length g3 = pad (length (cstr name_in))"
    "msg m6 h (((B3 @ le_bytes 2 4 @ le_bytes 2 (unat (1 :: u16))) @ q) @ attr_bytes 3 (cstr name_in) g3)"
    using msg_append [OF m5(3), of "cstr name_in" 3] l3 m5(2) n by (auto simp: NLMSG_GOOD_SIZE_def cstr_def)
  define A3 where "A3 = attr_bytes 3 (cstr name_in) g3"
  have lA3: "length A3 = 4 + round4 (length name_in + 1)" and pA3: "parse_attrs A3 = Some [(3, cstr name_in)]"
    using m6(2) n parse_attr_bytes [of g3 "cstr name_in" 3 "[]"]
    by (simp_all add: A3_def length_attr_bytes cstr_def)
  have "msg m6 h (B3 @ le_bytes 2 4 @ le_bytes 2 (unat (1 :: u16)) @ (q @ A3))"
    using m6(3) by (simp add: A3_def)
  from msg_close [OF this] obtain m7 where m7: "rtattr_end_nested m6 (16 + length B3) = Some m7"
    "msg m7 h (B3 @ attr_bytes 1 (q @ A3) [])" by blast
  then have "msg m7 h (B2 @ le_bytes 2 4 @ le_bytes 2 (unat (2 :: u16)) @ attr_bytes 1 (q @ A3) [])"
    by (simp add: B3_def)
  from msg_close [OF this] obtain m8 where m8: "rtattr_end_nested m7 (16 + length B2) = Some m8"
    "msg m8 h (B2 @ attr_bytes 2 (attr_bytes 1 (q @ A3) []) [])" by blast
  then have "msg m8 h (B0 @ le_bytes 2 4 @ le_bytes 2 (unat (18 :: u16)) @
      (A @ attr_bytes 2 (attr_bytes 1 (q @ A3) []) []))"
    by (simp add: B2_def)
  from msg_close [OF this] obtain m9 where m9: "rtattr_end_nested m8 (16 + length B0) = Some m9"
    "msg m9 h (B0 @ attr_bytes 18 (A @ attr_bytes 2 (attr_bytes 1 (q @ A3) []) []) [])" by blast
  have "veth_request g name_out name_in = link_add m9 (3, cstr name_out)"
    by (simp add: veth_request_def link_add_def m0(1) m1(1) m2(1) m3(1) m4(1) m5(1) m6(1) m7(1) m8(1) m9(1))
  with m9(2) lA pA m5(2) lA3 pA3 show ?thesis unfolding h_def B0_def by blast
qed

section \<open>Properties\<close>

text \<open>
  C30: The request that moves an interface carries its index, the target's pid
  and the new name, and only those attributes; the header and the struct
  ifinfomsg are as in rtnetlink(7), except that nlmsg_pid, ifi_type, ifi_flags
  and ifi_change are whatever bytes \<open>g\<close> malloc returned.
\<close>

theorem move_request_decodes:
  assumes "length g = NLMSG_GOOD_SIZE" and "move_request g pid if_index name = Some m"
  shows "\<exists>body. take (nlmsg_len m) m =
      le_bytes 4 (32 + length body) @ le_bytes 2 16 @ le_bytes 2 5 @ le_bytes 4 1 @ take 4 (drop 12 g) @
      ([0] @ take 3 (drop 17 g) @ int_bytes if_index @ take 8 (drop 24 g)) @ body \<and>
    parse_attrs body = Some [(19, int_bytes pid), (3, cstr name)]"
proof -
  obtain m0 where m0: "add_all link_add m0 [(19, int_bytes pid), (3, cstr name)] = Some m"
    "link_inv (link_hdr flags_set (take 4 (drop 12 g)))
      (0 # take 3 (drop 17 g) @ int_bytes if_index @ take 8 (drop 24 g)) m0" "link_view m0 = []"
    using move_request_store [OF assms(1), of pid if_index name] assms(2) by auto
  from nl.add_all_view [OF m0(2,1)] m0(3)
  have "link_inv (link_hdr flags_set (take 4 (drop 12 g)))
      (0 # take 3 (drop 17 g) @ int_bytes if_index @ take 8 (drop 24 g)) m"
    and "link_view m = [(19, int_bytes pid), (3, cstr name)]" by simp_all
  with link_inv_sent [OF this(1)] show ?thesis
    by (simp add: link_hdr_def flags_set_def)
qed

theorem move_request_decodes_witness:
  "\<exists>m body. move_request (replicate NLMSG_GOOD_SIZE 0) 42 3 ''eth0'' = Some m \<and>
     parse_attrs body = Some [(19, int_bytes 42), (3, cstr ''eth0'')] \<and>
     (\<exists>x. take (nlmsg_len m) m = x @ body)"
proof -
  let ?g = "replicate NLMSG_GOOD_SIZE 0"
  obtain m where m: "move_request ?g 42 3 ''eth0'' = Some m"
    using move_request_None_iff [of ?g 42 3 "''eth0''"] by auto
  from move_request_decodes [OF length_replicate m] m show ?thesis
    by (metis append.assoc)
qed

text \<open>
  C31: The buffer bound: rtattr_append does not check it, so a name of more than
  9171 characters, which \<open>--netif\<close> accepts, makes the parent write outside the
  malloc'ed request; every shorter name fits.
\<close>

theorem move_request_overflow:
  assumes "length g = NLMSG_GOOD_SIZE"
  shows "move_request g pid if_index name = None \<longleftrightarrow> 9171 < length name"
  using assms by (rule move_request_None_iff)

theorem move_request_overflow_witness:
  "move_request (replicate NLMSG_GOOD_SIZE 0) 42 3 (replicate 9172 CHR ''x'') = None"
  using move_request_overflow [of "replicate NLMSG_GOOD_SIZE 0" 42 3 "replicate 9172 CHR ''x''"]
  by simp

text \<open>
  The request that creates a macvlan device decodes to the tree the kernel
  expects: the kind, nested in IFLA_LINKINFO, the index of the master device and
  the new name, for every name of at most 9000 characters (the code only uses
  \<open>pflask-PID\<close>).
\<close>

lemma macvlan_request_decodes:
  assumes "length g = NLMSG_GOOD_SIZE" and "length name \<le> 9000"
  shows "\<exists>m body info. macvlan_request g master name = Some m \<and>
    take (nlmsg_len m) m = le_bytes 4 (32 + length body) @
      le_bytes 2 16 @ le_bytes 2 0x605 @ le_bytes 4 1 @ take 4 (drop 12 g) @
      ([0] @ take 15 (drop 17 g)) @ body \<and>
    parse_attrs body = Some [(18, info), (5, int_bytes master), (3, cstr name)] \<and>
    parse_attrs info = Some [(1, cstr ''macvlan'')]"
proof -
  obtain m where m: "kind_request ''macvlan'' g master name = Some m"
    using kind_request_total [OF assms(1) _ assms(2), of "''macvlan''" master] by auto
  from kind_request_decodes [OF assms(1) _ m] m show ?thesis
    by (simp add: is_kind_request link_hdr_def flags_create_def)
qed

lemma macvlan_request_decodes_example:
  "\<exists>m. macvlan_request (replicate NLMSG_GOOD_SIZE 7) 2 ''pflask-42'' = Some m"
  using macvlan_request_decodes [of "replicate NLMSG_GOOD_SIZE 7" "''pflask-42''" 2] by auto

text \<open>The same for ipvlan.\<close>

lemma ipvlan_request_decodes:
  assumes "length g = NLMSG_GOOD_SIZE" and "length name \<le> 9000"
  shows "\<exists>m body info. ipvlan_request g master name = Some m \<and>
    take (nlmsg_len m) m = le_bytes 4 (32 + length body) @
      le_bytes 2 16 @ le_bytes 2 0x605 @ le_bytes 4 1 @ take 4 (drop 12 g) @
      ([0] @ take 15 (drop 17 g)) @ body \<and>
    parse_attrs body = Some [(18, info), (5, int_bytes master), (3, cstr name)] \<and>
    parse_attrs info = Some [(1, cstr ''ipvlan'')]"
proof -
  obtain m where m: "kind_request ''ipvlan'' g master name = Some m"
    using kind_request_total [OF assms(1) _ assms(2), of "''ipvlan''" master] by auto
  from kind_request_decodes [OF assms(1) _ m] m show ?thesis
    by (simp add: is_kind_request link_hdr_def flags_create_def)
qed

lemma ipvlan_request_decodes_example:
  "\<exists>m. ipvlan_request (replicate NLMSG_GOOD_SIZE 7) 2 ''pflask-42'' = Some m"
  using ipvlan_request_decodes [of "replicate NLMSG_GOOD_SIZE 7" "''pflask-42''" 2] by auto

text \<open>
  C9: The request that creates a veth pair decodes to the nested tree the kernel
  expects: kind veth and, in IFLA_INFO_DATA, a VETH_INFO_PEER made of a struct
  ifinfomsg (16 bytes that the code never writes) and the peer's name.
\<close>

theorem veth_request_decodes:
  assumes "length g = NLMSG_GOOD_SIZE" and "length name_in \<le> 4000" and "length name_out \<le> 4000"
  shows "\<exists>m body info vdata q peer. veth_request g name_out name_in = Some m \<and>
    take (nlmsg_len m) m = le_bytes 4 (32 + length body) @
      le_bytes 2 16 @ le_bytes 2 0x605 @ le_bytes 4 1 @ take 4 (drop 12 g) @
      ([0] @ take 15 (drop 17 g)) @ body \<and>
    parse_attrs body = Some [(18, info), (3, cstr name_out)] \<and>
    parse_attrs info = Some [(1, cstr ''veth''), (2, vdata)] \<and>
    parse_attrs vdata = Some [(1, q @ peer)] \<and> length q = 16 \<and>
    parse_attrs peer = Some [(3, cstr name_in)]"
proof -
  let ?h = "link_hdr flags_create (take 4 (drop 12 g))" and ?i = "0 # take 15 (drop 17 g)"
  obtain m A q P where m: "veth_request g name_out name_in = link_add m (3, cstr name_out)"
    "msg m ?h (?i @ attr_bytes 18 (A @ attr_bytes 2 (attr_bytes 1 (q @ P) []) []) [])"
    "length A = 12" "parse_attrs A = Some [(1, cstr ''veth'')]" "length q = 16"
    "length P = 4 + round4 (length name_in + 1)" "parse_attrs P = Some [(3, cstr name_in)]"
    using veth_request_store [OF assms(1,2), of name_out] by blast
  define D where "D = attr_bytes 1 (q @ P) []"
  define I where "I = A @ attr_bytes 2 D []"
  have r: "round4 (length name_in + 1) \<le> 4004" using assms(2) by (simp add: round4_def)
  have lD: "length D = 24 + round4 (length name_in + 1)" using m by (simp add: D_def attr_bytes_def)
  have lI: "length I = 40 + round4 (length name_in + 1)" using m lD by (simp add: I_def attr_bytes_def)
  have d4: "4 dvd length (q @ P)" "4 dvd length D" "4 dvd length I" using m lD lI by simp_all
  have pD: "parse_attrs D = Some [(1, q @ P)]"
    using parse_nested [OF d4(1), of 1 "[]"] m(5,6) r by (simp add: D_def)
  have "parse_attrs (attr_bytes 2 D []) = Some [(2, D)]"
    using parse_nested [OF d4(2), of 2 "[]"] lD r by simp
  then have pI: "parse_attrs I = Some [(1, cstr ''veth''), (2, D)]"
    using parse_attrs_append [OF m(4)] m(3) by (simp add: I_def)
  have pB: "parse_attrs (attr_bytes 18 I []) = Some [(18, I)]"
    using parse_nested [OF d4(3), of 18 "[]"] lI r by simp
  have li: "length ?i = 16" using assms(1) by (simp add: NLMSG_GOOD_SIZE_def)
  have mm: "msg m ?h (?i @ attr_bytes 18 I [])" using m(2) by (simp add: I_def D_def)
  have inv: "link_inv ?h ?i m" and view: "link_view m = [(18, I)]"
    using msg_link_inv [OF mm li pB] by simp_all
  have "nlmsg_tail m = 76 + round4 (length name_in + 1)"
    using msg_tail [OF mm] li lI by (simp add: attr_bytes_def)
  with link_add_room [OF inv, of "cstr name_out" 3] r assms(3) obtain m' where
    m': "link_add m (3, cstr name_out) = Some m'"
    by (auto simp: NLMSG_GOOD_SIZE_def cstr_def)
  from link_add_append [OF inv m'] view have "link_inv ?h ?i m'"
    "link_view m' = [(18, I), (3, cstr name_out)]" by auto
  with link_inv_sent [OF this(1)] m(1,5,7) m' pI pD show ?thesis
    by (simp add: link_hdr_def flags_create_def) blast
qed

theorem veth_request_decodes_witness:
  "\<exists>m. veth_request (replicate NLMSG_GOOD_SIZE 7) ''veth0'' ''pflask-42'' = Some m"
  using veth_request_decodes [of "replicate NLMSG_GOOD_SIZE 7" "''pflask-42''" "''veth0''"] by auto

lemma netif_spec_split:
  assumes sp: "split_str plenty (Some s) '':'' = map Some ts" and "ts \<noteq> []"
  shows "outcome (netif_add_from_spec ifs (Some s)) k =
    (if rc (k [] (IfNametoindex (hd ts))) \<noteq> 0
     then (case ts of
             a # b # _ \<Rightarrow> Inr (ifs @ [\<lparr>nif_type = MOVE, nif_dev = a, nif_name = b\<rparr>])
           | _ \<Rightarrow> Inl (Fail ''Invalid netif spec %s: not enough args''))
     else (case map_of [(''macvlan'', MACVLAN), (''ipvlan'', IPVLAN), (''veth'', VETH)] (hd ts) of
             None \<Rightarrow> Inl (Fail ''Invalid netif spec %s'')
           | Some type \<Rightarrow>
               (case tl ts of
                  d # n # _ \<Rightarrow> Inr (ifs @ [\<lparr>nif_type = type, nif_dev = d, nif_name = n\<rparr>])
                | _ \<Rightarrow> Inl (Fail ''Invalid netif spec %s: not enough args''))))"
proof -
  obtain kind rest where ts: "ts = kind # rest" using assms(2) by (cases ts) auto
  have kinds: "strneq 8 kind ''macvlan'' = (kind = ''macvlan'')" "strneq 8 kind ''ipvlan'' = (kind = ''ipvlan'')"
    "strneq 5 kind ''veth'' = (kind = ''veth'')"
    by (simp_all add: strneq_long)
  show ?thesis
  proof (cases rest)
    case Nil
    then show ?thesis
      by (simp add: netif_add_from_spec_def sp ts kinds opt_arg_def io_simps Let_def)
  next
    case (Cons b rest')
    then show ?thesis
      by (cases rest') (simp_all add: netif_add_from_spec_def sp ts kinds opt_arg_def netif_add_def io_simps Let_def)
  qed
qed

text \<open>
  C26: What a --netif option means: for non-empty fields joined by colons, an
  existing interface named by the first field is moved, whatever the name, so
  an interface called veth shadows the kind; otherwise the first field must be
  exactly one of the three kinds, with a device and a name after it.  Further
  fields are ignored, missing ones are reported.
\<close>

theorem netif_spec_meaning:
  assumes "ts \<noteq> []" and "\<forall>t \<in> set ts. t \<noteq> [] \<and> CHR '':'' \<notin> set t"
  shows "outcome (netif_add_from_spec ifs (Some (join CHR '':'' ts))) k =
    (if rc (k [] (IfNametoindex (hd ts))) \<noteq> 0
     then (case ts of
             a # b # _ \<Rightarrow> Inr (ifs @ [\<lparr>nif_type = MOVE, nif_dev = a, nif_name = b\<rparr>])
           | _ \<Rightarrow> Inl (Fail ''Invalid netif spec %s: not enough args''))
     else (case map_of [(''macvlan'', MACVLAN), (''ipvlan'', IPVLAN), (''veth'', VETH)] (hd ts) of
             None \<Rightarrow> Inl (Fail ''Invalid netif spec %s'')
           | Some type \<Rightarrow>
               (case tl ts of
                  d # n # _ \<Rightarrow> Inr (ifs @ [\<lparr>nif_type = type, nif_dev = d, nif_name = n\<rparr>])
                | _ \<Rightarrow> Inl (Fail ''Invalid netif spec %s: not enough args''))))"
  using netif_spec_split [OF _ assms(1)] fields_join [of ts] assms by (simp add: split_str_fields)

theorem netif_spec_meaning_witness:
  "outcome (netif_add_from_spec [] (Some ''veth:a:b'')) (\<lambda>_ _. ok) =
     Inr [\<lparr>nif_type = VETH, nif_dev = ''a'', nif_name = ''b''\<rparr>] \<and>
   outcome (netif_add_from_spec [] (Some ''veth:a:b'')) (\<lambda>_ _. ok\<lparr>rc := 7\<rparr>) =
     Inr [\<lparr>nif_type = MOVE, nif_dev = ''veth'', nif_name = ''a''\<rparr>]"
  using netif_spec_meaning [of "[''veth'', ''a'', ''b'']" "[]" "\<lambda>_ _. ok"]
    netif_spec_meaning [of "[''veth'', ''a'', ''b'']" "[]" "\<lambda>_ _. ok\<lparr>rc := 7\<rparr>"]
  by simp

end
