(* ===== verification/Cgroup.thy ===== *)
theory Cgroup
  imports Clib
begin

text \<open>
  cgroup.c: one control group per \<open>--cgroup\<close>, named after pflask's own pid.  The
  parent creates the groups, puts the container's process in them, and removes
  them when it has ended.  fopen's NULL is a negative \<open>rc\<close>; the result of fprintf
  is not looked at.
\<close>

section \<open>The list of groups\<close>

record cgroup =
  cg_controller :: cstring
  cg_name :: cstring

definition CGROUP_BASE :: path where
  "CGROUP_BASE = ''/sys/fs/cgroup''"

definition cgroup_add :: "cgroup list \<Rightarrow> cstring \<Rightarrow> cgroup list io" where
  "cgroup_add groups controller =
     io_bind (sys Getpid) (\<lambda>pid.
       io_ret (groups @ [\<lparr>cg_controller = controller, cg_name = ''pflask.'' @ show_int (rc pid)\<rparr>]))"

section \<open>Creating, joining and removing\<close>

definition cgroup_dir :: "cstring \<Rightarrow> cstring \<Rightarrow> path" where
  "cgroup_dir controller name = CGROUP_BASE @ ''/'' @ controller @ ''/'' @ name"

definition create_cgroup :: "cstring \<Rightarrow> cstring \<Rightarrow> unit io" where
  "create_cgroup controller name =
     io_bind (sys (Mkdir (cgroup_dir controller name) mode_0755)) (\<lambda>r.
       sys_fail_if (rc r < 0 \<and> errno r \<noteq> EEXIST) ''Error creating cgroup'')"

definition attach_cgroup :: "cstring \<Rightarrow> cstring \<Rightarrow> int \<Rightarrow> unit io" where
  "attach_cgroup controller name pid =
     io_seq (checked (Fopen (cgroup_dir controller name @ ''/tasks'')) ''Error opening cgroup'')
     (io_seq (sys (Fprintf (show_int pid @ [CHR 0x0A])))
       (checked Fclose ''Error closing cgroup''))"

definition destroy_cgroup :: "cstring \<Rightarrow> cstring \<Rightarrow> unit io" where
  "destroy_cgroup controller name =
     checked (Rmdir (cgroup_dir controller name)) ''Error destroying cgroup''"

definition setup_one_cgroup :: "int \<Rightarrow> cgroup \<Rightarrow> unit io" where
  "setup_one_cgroup pid i =
     io_seq (create_cgroup (cg_controller i) (cg_name i))
       (attach_cgroup (cg_controller i) (cg_name i) pid)"

definition setup_cgroup :: "cgroup list \<Rightarrow> int \<Rightarrow> unit io" where
  "setup_cgroup groups pid = io_iter (setup_one_cgroup pid) groups"

definition clean_cgroup :: "cgroup list \<Rightarrow> unit io" where
  "clean_cgroup groups = io_iter (\<lambda>i. destroy_cgroup (cg_controller i) (cg_name i)) groups"

section \<open>The calls\<close>

definition dir_of :: "cgroup \<Rightarrow> path" where
  "dir_of i = cgroup_dir (cg_controller i) (cg_name i)"

definition join_calls :: "int \<Rightarrow> cgroup \<Rightarrow> call list" where
  "join_calls pid i =
     [Mkdir (dir_of i) mode_0755, Fopen (dir_of i @ ''/tasks''),
      Fprintf (show_int pid @ [CHR 0x0A]), Fclose]"

lemma setup_one_cgroup_issues: "issues (setup_one_cgroup pid i) (join_calls pid i)"
proof -
  have "issues (setup_one_cgroup pid i)
      (([Mkdir (dir_of i) mode_0755] @ []) @
       ([Fopen (dir_of i @ ''/tasks'')] @ ([Fprintf (show_int pid @ [CHR 0x0A])] @ [Fclose])))"
    unfolding setup_one_cgroup_def create_cgroup_def attach_cgroup_def dir_of_def
    by (intro issues_intros)
  then show ?thesis by (simp add: join_calls_def)
qed

interpretation cg_join: each_step "setup_one_cgroup pid" "join_calls pid" for pid
  by unfold_locales (rule setup_one_cgroup_issues)

interpretation cg_clean: each_step
  "\<lambda>i. destroy_cgroup (cg_controller i) (cg_name i)" "\<lambda>i. [Rmdir (dir_of i)]"
  by unfold_locales (simp add: destroy_cgroup_def dir_of_def issues_checked)

text \<open>An rmdir that fails ends the loop.\<close>

lemma clean_Inr:
  "clean_cgroup gs k h = (Inr u, h') \<Longrightarrow>
   h' = h @ map (\<lambda>i. Rmdir (dir_of i)) gs \<and>
   (\<forall>j < length gs. rc (k (h @ map (\<lambda>i. Rmdir (dir_of i)) (take j gs)) (Rmdir (dir_of (gs ! j)))) \<ge> 0)"
proof (induction gs arbitrary: h)
  case Nil
  then show ?case by (simp add: clean_cgroup_def io_Inr_iffs)
next
  case (Cons g gs)
  then have first: "rc (k h (Rmdir (dir_of g))) \<ge> 0"
    and rest: "clean_cgroup gs k (h @ [Rmdir (dir_of g)]) = (Inr u, h')"
    by (auto simp: clean_cgroup_def destroy_cgroup_def dir_of_def io_Inr_iffs)
  from Cons.IH [OF rest] first show ?case
    by (auto simp: less_Suc_eq_0_disj)
qed

section \<open>Properties\<close>

text \<open>
  setup_cgroup works through the groups in order: for each it creates the
  directory and then writes the pid into its tasks file; when it returns, all
  of these calls were made and no other, and however the kernel answers, it
  never makes a call out of this order.
\<close>

lemma setup_cgroup_calls:
  "issues (setup_cgroup groups pid) (concat (map (join_calls pid) groups)) \<and>
   (outcome (setup_cgroup groups pid) k = Inr u \<longrightarrow>
      trace (setup_cgroup groups pid) k = concat (map (join_calls pid) groups))"
  using cg_join.iter_issues cg_join.iter_trace by (simp add: setup_cgroup_def)

lemma setup_cgroup_calls_example:
  "trace (setup_cgroup [\<lparr>cg_controller = ''cpu'', cg_name = ''pflask.7''\<rparr>] 42) (\<lambda>_ _. failed EEXIST\<lparr>rc := 0\<rparr>)
     = join_calls 42 \<lparr>cg_controller = ''cpu'', cg_name = ''pflask.7''\<rparr>"
proof -
  let ?k = "\<lambda>_ _. failed EEXIST\<lparr>rc := 0\<rparr>" and ?g = "[\<lparr>cg_controller = ''cpu'', cg_name = ''pflask.7''\<rparr>]"
  have "outcome (setup_cgroup ?g 42) ?k = Inr ()"
    by (simp add: setup_cgroup_def setup_one_cgroup_def create_cgroup_def attach_cgroup_def io_simps)
  then show ?thesis using setup_cgroup_calls [of ?g 42 ?k "()"] by simp
qed

text \<open>
  The life cycle of the groups: the directories that clean_cgroup removes are
  exactly those that setup_cgroup created, in the same order.
\<close>

lemma cgroup_life_cycle:
  assumes "outcome (setup_cgroup groups pid) k = Inr u" and "outcome (clean_cgroup groups) k' = Inr v"
  shows "trace (clean_cgroup groups) k' =
    map (\<lambda>c. case c of Mkdir d _ \<Rightarrow> Rmdir d | _ \<Rightarrow> c)
      (filter (\<lambda>c. case c of Mkdir _ _ \<Rightarrow> True | _ \<Rightarrow> False) (trace (setup_cgroup groups pid) k))"
proof -
  have "trace (clean_cgroup groups) k' = concat (map (\<lambda>i. [Rmdir (dir_of i)]) groups)"
    using cg_clean.iter_trace assms(2) by (simp add: clean_cgroup_def)
  moreover have "trace (setup_cgroup groups pid) k = concat (map (join_calls pid) groups)"
    using cg_join.iter_trace assms(1) by (simp add: setup_cgroup_def)
  moreover have "concat (map (\<lambda>i. [Rmdir (dir_of i)]) gs) =
      map (\<lambda>c. case c of Mkdir d _ \<Rightarrow> Rmdir d | _ \<Rightarrow> c)
        (filter (\<lambda>c. case c of Mkdir _ _ \<Rightarrow> True | _ \<Rightarrow> False) (concat (map (join_calls pid) gs)))" for gs
    by (induction gs) (simp_all add: join_calls_def)
  ultimately show ?thesis by simp
qed

lemma cgroup_life_cycle_example:
  "trace (clean_cgroup [\<lparr>cg_controller = ''cpu'', cg_name = ''p''\<rparr>]) (\<lambda>_ _. ok) =
     [Rmdir ''/sys/fs/cgroup/cpu/p'']"
proof -
  let ?g = "[\<lparr>cg_controller = ''cpu'', cg_name = ''p''\<rparr>]"
  have "outcome (setup_cgroup ?g 42) (\<lambda>_ _. ok) = Inr ()" "outcome (clean_cgroup ?g) (\<lambda>_ _. ok) = Inr ()"
    by (simp_all add: setup_cgroup_def setup_one_cgroup_def create_cgroup_def attach_cgroup_def
        clean_cgroup_def destroy_cgroup_def io_simps)
  from cgroup_life_cycle [OF this] show ?thesis
    by (simp add: setup_cgroup_def setup_one_cgroup_def create_cgroup_def attach_cgroup_def
        cgroup_dir_def CGROUP_BASE_def io_simps)
qed

text \<open>
  A controller given twice: the second mkdir's EEXIST is tolerated, but on a
  kernel where a removed directory cannot be removed again, clean_cgroup fails
  on the second rmdir, after the container has ended.
\<close>

lemma clean_cgroup_twice:
  assumes once: "\<And>h d. Rmdir d \<in> set h \<Longrightarrow> rc (k h (Rmdir d)) < 0"
    and twice: "\<not> distinct (map dir_of groups)"
  shows "\<exists>e. outcome (clean_cgroup groups) k = Inl e"
proof (cases "clean_cgroup groups k []")
  case (Pair r h')
  show ?thesis
  proof (cases r)
    case (Inr u)
    obtain i j where ij: "i < j" "j < length groups" "dir_of (groups ! i) = dir_of (groups ! j)"
      using twice unfolding distinct_conv_nth by (metis length_map linorder_neqE_nat nth_map)
    then have "groups ! i \<in> set (take j groups)"
      by (metis in_set_conv_nth length_take min.absorb4 nth_take)
    then have "Rmdir (dir_of (groups ! j)) \<in> set (map (\<lambda>i. Rmdir (dir_of i)) (take j groups))"
      unfolding set_map ij(3) [symmetric] by (rule imageI)
    from once [OF this] show ?thesis
      using clean_Inr [of groups k "[]" u h'] Pair Inr ij(2) by force
  qed (use Pair in \<open>simp add: outcome_def\<close>)
qed

lemma clean_cgroup_twice_example:
  "\<exists>e. outcome (clean_cgroup [\<lparr>cg_controller = ''cpu'', cg_name = ''p''\<rparr>,
       \<lparr>cg_controller = ''cpu'', cg_name = ''p''\<rparr>])
     (\<lambda>h c. case c of Rmdir d \<Rightarrow> if Rmdir d \<in> set h then failed ENOENT else ok | _ \<Rightarrow> ok) = Inl e"
  by (rule clean_cgroup_twice) simp_all

end
