(* ===== verification/Capabilities.thy ===== *)
theory Capabilities
  imports Clib
begin

text \<open>
  capabilities.c: the list of capabilities from \<open>--caps\<close> and its application in
  the child through libcap-ng.  The library's name lookup is the parameter
  \<open>to_cap\<close> (negative: no such capability); its other functions are calls.
\<close>

section \<open>The list of capabilities\<close>

datatype capng_act = CAPNG_DROP | CAPNG_ADD

record capability =
  c_action :: capng_act
  c_capability :: int

definition capability_add ::
  "(cstring \<Rightarrow> int) \<Rightarrow> capability list \<Rightarrow> cstring \<Rightarrow> failure + capability list" where
  "capability_add to_cap caps cap =
     (if cap = [] then Inl (Fail ''Invalid empty capability name'')
      else
        let (act, cap') = (if hd cap = CHR ''+'' then (CAPNG_ADD, tl cap)
                           else if hd cap = CHR ''-'' then (CAPNG_DROP, tl cap)
                           else (CAPNG_ADD, cap))
        in if strcaseeq cap' ''all'' then
             (if caps \<noteq> [] then Inl (Fail ''Alias all is valid only as first capability'')
              else Inr (caps @ [\<lparr>c_action = act, c_capability = -1\<rparr>]))
           else
             (if to_cap cap' < 0 then Inl (Fail ''Invalid capability name: %s'')
              else Inr (caps @ [\<lparr>c_action = act, c_capability = to_cap cap'\<rparr>])))"

section \<open>Applying it\<close>

definition apply_one :: "capability \<Rightarrow> unit io" where
  "apply_one i =
     (if c_capability i < 0 then
        (if c_action i = CAPNG_DROP then io_bind (sys (Cap Capng_clear)) (\<lambda>_. io_ret ()) else io_ret ())
      else
        io_bind (sys (Cap (Capng_update (c_action i = CAPNG_ADD) (c_capability i)))) (\<lambda>r.
          fail_if (rc r \<noteq> 0) ''Error updating capabilities''))"

definition setup_capabilities :: "capability list \<Rightarrow> unit io" where
  "setup_capabilities caps =
     io_seq (sys (Cap Capng_get))
     (io_seq (io_iter apply_one caps)
       (io_bind (sys (Cap Capng_apply)) (\<lambda>r. fail_if (rc r \<noteq> 0) ''Error applying capabilities'')))"

section \<open>The effect on the process\<close>

text \<open>
  capabilities(7), libcap-ng(3).  The library keeps a set of its own, apart from
  the one that is in force for the process (both for each of the effective,
  permitted and inheritable capabilities; the three are changed alike).
  capng_get_caps_process loads the process's set into the library's, capng_clear
  empties the library's, capng_update changes one capability of it, and
  capng_apply puts it in force.  A call with a result other than 0 has done
  nothing.
\<close>

record caps_state =
  in_lib :: "int set"
  in_force :: "int set"

fun caps_step :: "call \<Rightarrow> reply \<Rightarrow> caps_state \<Rightarrow> caps_state" where
  "caps_step (Cap Capng_get) r s = (if rc r = 0 then s\<lparr>in_lib := in_force s\<rparr> else s)"
| "caps_step (Cap Capng_clear) r s = s\<lparr>in_lib := {}\<rparr>"
| "caps_step (Cap (Capng_update a c)) r s =
     (if rc r = 0 then s\<lparr>in_lib := (if a then insert c (in_lib s) else in_lib s - {c})\<rparr> else s)"
| "caps_step (Cap Capng_apply) r s = (if rc r = 0 then s\<lparr>in_force := in_lib s\<rparr> else s)"
| "caps_step _ r s = s"

text \<open>The library's set alone, when every update succeeds.\<close>

definition cap_calls :: "capability \<Rightarrow> call list" where
  "cap_calls i =
     (if c_capability i < 0 then (if c_action i = CAPNG_DROP then [Cap Capng_clear] else [])
      else [Cap (Capng_update (c_action i = CAPNG_ADD) (c_capability i))])"

fun cap_effect :: "call \<Rightarrow> int set \<Rightarrow> int set" where
  "cap_effect (Cap Capng_clear) S = {}"
| "cap_effect (Cap (Capng_update a c)) S = (if a then insert c S else S - {c})"
| "cap_effect _ S = S"

definition caps_after :: "call list \<Rightarrow> int set \<Rightarrow> int set" where
  "caps_after cs S = fold cap_effect cs S"

lemma caps_after_simps [simp]:
  "caps_after [] S = S" "caps_after (c # cs) S = caps_after cs (cap_effect c S)"
  "caps_after (cs @ ds) S = caps_after ds (caps_after cs S)"
  by (simp_all add: caps_after_def)

lemma apply_one_issues: "issues (apply_one i) (cap_calls i)"
proof -
  have "issues (io_bind (sys c) (\<lambda>_. io_ret ())) ([c] @ [])" for c
    by (intro issues_intros)
  moreover have "issues (io_bind (sys c) (\<lambda>r. fail_if (rc r \<noteq> 0) m)) ([c] @ [])" for c m
    by (intro issues_intros)
  ultimately show ?thesis by (simp add: apply_one_def cap_calls_def issues_ret)
qed

interpretation caps: each_step apply_one cap_calls
  by unfold_locales (rule apply_one_issues)

lemma setup_capabilities_issues:
  "issues (setup_capabilities caps) (Cap Capng_get # concat (map cap_calls caps) @ [Cap Capng_apply])"
proof -
  have "issues (setup_capabilities caps) ([Cap Capng_get] @ (concat (map cap_calls caps) @ ([Cap Capng_apply] @ [])))"
    unfolding setup_capabilities_def by (intro issues_intros caps.iter_issues)
  then show ?thesis by simp
qed

text \<open>A list as capability_add builds it: "all" can only be the first entry.\<close>

definition all_first :: "capability list \<Rightarrow> bool" where
  "all_first caps \<longleftrightarrow> (\<forall>i \<in> set (tl caps). c_capability i \<ge> 0)"

lemma capability_add_all_first:
  "capability_add to_cap caps cap = Inr caps' \<Longrightarrow> all_first caps \<Longrightarrow> all_first caps'"
  by (cases caps) (auto simp: capability_add_def all_first_def Let_def split: if_splits prod.splits)

text \<open>Explicit entries: the last one for a capability decides.\<close>

fun last_action :: "capability list \<Rightarrow> int \<Rightarrow> capng_act option" where
  "last_action [] c = None"
| "last_action (i # is) c =
     (case last_action is c of
        Some a \<Rightarrow> Some a
      | None \<Rightarrow> if c_capability i = c then Some (c_action i) else None)"

lemma explicit_effect:
  "\<forall>i \<in> set caps. c_capability i \<ge> 0 \<Longrightarrow>
   c \<in> caps_after (concat (map cap_calls caps)) S \<longleftrightarrow>
     (case last_action caps c of Some a \<Rightarrow> a = CAPNG_ADD | None \<Rightarrow> c \<in> S)"
  by (induction caps arbitrary: S) (auto simp: cap_calls_def split: option.split)

lemma last_action_negative:
  "\<forall>i \<in> set caps. c_capability i \<ge> 0 \<Longrightarrow> c < 0 \<Longrightarrow> last_action caps c = None"
  by (induction caps) auto

definition drops_all :: "capability list \<Rightarrow> bool" where
  "drops_all caps \<longleftrightarrow>
     (case caps of [] \<Rightarrow> False | i # _ \<Rightarrow> c_capability i < 0 \<and> c_action i = CAPNG_DROP)"

lemma effect_all_first:
  assumes "all_first caps" and S: "S \<subseteq> {0..}"
  shows "caps_after (concat (map cap_calls caps)) S =
    {c. 0 \<le> c \<and> (case last_action caps c of
                     Some a \<Rightarrow> a = CAPNG_ADD
                   | None \<Rightarrow> \<not> drops_all caps \<and> c \<in> S)}"
proof (rule set_eqI)
  fix c
  show "c \<in> caps_after (concat (map cap_calls caps)) S \<longleftrightarrow>
    c \<in> {c. 0 \<le> c \<and> (case last_action caps c of
                     Some a \<Rightarrow> a = CAPNG_ADD
                   | None \<Rightarrow> \<not> drops_all caps \<and> c \<in> S)}"
  proof (cases "\<forall>i \<in> set caps. c_capability i \<ge> 0")
    case True
    then have "\<not> drops_all caps" by (cases caps) (auto simp: drops_all_def)
    with True S last_action_negative [OF True, of c] show ?thesis
      by (cases "c < 0") (auto simp: explicit_effect split: option.split)
  next
    case False
    with assms(1) obtain i js where caps: "caps = i # js" "c_capability i < 0"
      "\<forall>j \<in> set js. c_capability j \<ge> 0"
      by (cases caps) (auto simp: all_first_def)
    define T where "T = (if c_action i = CAPNG_DROP then {} else S)"
    have eff: "caps_after (concat (map cap_calls caps)) S = caps_after (concat (map cap_calls js)) T"
      using caps(2) by (simp add: caps(1) cap_calls_def T_def)
    have d: "drops_all caps \<longleftrightarrow> c_action i = CAPNG_DROP" using caps(2) by (simp add: caps(1) drops_all_def)
    show ?thesis
    proof (cases "c < 0")
      case True
      then show ?thesis
        using S last_action_negative [OF caps(3) True]
        by (auto simp: eff explicit_effect [OF caps(3)] T_def)
    next
      case False
      then have "last_action caps c = last_action js c"
        using caps(2) by (auto simp: caps(1) split: option.split)
      with False show ?thesis
        by (auto simp: eff explicit_effect [OF caps(3)] T_def d split: option.split)
    qed
  qed
qed

section \<open>Properties\<close>

text \<open>The calls of one entry, and of all, change the library's set as above.\<close>

lemma apply_one_caps:
  assumes "apply_one i k h = (Inr u, h')"
  shows "h' = h @ cap_calls i \<and>
    replay caps_step k h (cap_calls i) s = s\<lparr>in_lib := caps_after (cap_calls i) (in_lib s)\<rparr>"
  using assms by (auto simp: apply_one_def cap_calls_def io_Inr_iffs split: if_splits)

lemma entries_caps:
  "io_iter apply_one caps k h = (Inr u, h') \<Longrightarrow>
   h' = h @ concat (map cap_calls caps) \<and>
   replay caps_step k h (concat (map cap_calls caps)) s =
     s\<lparr>in_lib := caps_after (concat (map cap_calls caps)) (in_lib s)\<rparr>"
proof (induction caps arbitrary: h s)
  case Nil
  then show ?case by (simp add: io_ret_Inr_iff)
next
  case (Cons i caps)
  then obtain v h1 where v: "apply_one i k h = (Inr v, h1)" "io_iter apply_one caps k h1 = (Inr u, h')"
    by (auto simp: io_seq_Inr_iff)
  from apply_one_caps [OF v(1)] Cons.IH [OF v(2)] show ?case
    by (simp add: replay_append)
qed

text \<open>
  C13: What the child may do after a setup_capabilities that returns, if its own
  capabilities could be read: the set in force is the one that it had, or none
  if the list begins with "-all"; a leading "+all" changes nothing; and for every
  capability the last entry that names it decides whether it is there.
\<close>

theorem setup_capabilities_effect:
  assumes "outcome (setup_capabilities caps) k = Inr u" and "all_first caps"
    and "rc (k [] (Cap Capng_get)) = 0" and "in_force s \<subseteq> {0..}"
  shows "in_force (replay caps_step k [] (trace (setup_capabilities caps) k) s) =
    {c. 0 \<le> c \<and> (case last_action caps c of
                     Some a \<Rightarrow> a = CAPNG_ADD
                   | None \<Rightarrow> \<not> drops_all caps \<and> c \<in> in_force s)}"
proof -
  obtain h' where h': "setup_capabilities caps k [] = (Inr u, h')"
    using assms(1) by (cases "setup_capabilities caps k []") (simp add: outcome_def)
  then obtain h1 where h1: "io_iter apply_one caps k [Cap Capng_get] = (Inr (), h1)"
    and app: "rc (k h1 (Cap Capng_apply)) = 0" "h' = h1 @ [Cap Capng_apply]"
    by (auto simp: setup_capabilities_def io_Inr_iffs)
  have "trace (setup_capabilities caps) k = h'" using h' by (simp add: trace_def)
  moreover have "in_force (replay caps_step k [] h' s) =
    caps_after (concat (map cap_calls caps)) (in_force s)"
    using entries_caps [OF h1, of "s\<lparr>in_lib := in_force s\<rparr>"] app assms(3)
    by (simp add: replay_append)
  ultimately show ?thesis using effect_all_first [OF assms(2,4)] by simp
qed

theorem setup_capabilities_effect_witness:
  "in_force (replay caps_step (\<lambda>_ _. ok) [] (trace (setup_capabilities
       [\<lparr>c_action = CAPNG_DROP, c_capability = -1\<rparr>, \<lparr>c_action = CAPNG_ADD, c_capability = 5\<rparr>]) (\<lambda>_ _. ok))
     \<lparr>in_lib = {}, in_force = {0, 1, 5}\<rparr>) = {5}"
proof -
  let ?l = "[\<lparr>c_action = CAPNG_DROP, c_capability = -1\<rparr>, \<lparr>c_action = CAPNG_ADD, c_capability = 5\<rparr>]"
  have "outcome (setup_capabilities ?l) (\<lambda>_ _. ok) = Inr ()"
    by (simp add: setup_capabilities_def apply_one_def io_simps)
  from setup_capabilities_effect [OF this, of "\<lparr>in_lib = {}, in_force = {0, 1, 5}\<rparr>"] show ?thesis
    by (auto simp: all_first_def drops_all_def split: if_splits)
qed

text \<open>
  Adding keeps the invariant of the list: "all" appears at most once and only
  at the front, and every other entry is a capability that the library knows.
\<close>

lemma capability_add_invariant:
  assumes "capability_add to_cap caps cap = Inr caps'" and "all_first caps"
  shows "all_first caps' \<and> (\<exists>c. caps' = caps @ [c] \<and>
    (c_capability c = -1 \<and> caps = [] \<or>
     0 \<le> c_capability c \<and> c_capability c \<in> {to_cap cap, to_cap (tl cap)}))"
  using capability_add_all_first [OF assms] assms(1)
  by (auto simp: capability_add_def Let_def split: if_splits prod.splits)

lemma capability_add_invariant_example:
  "\<exists>caps'. capability_add (\<lambda>s. if s = ''chown'' then 0 else -1)
       [\<lparr>c_action = CAPNG_DROP, c_capability = -1\<rparr>] ''+chown'' = Inr caps' \<and> all_first caps'"
proof -
  let ?t = "\<lambda>s. if s = ''chown'' then 0 else -1" and ?l = "[\<lparr>c_action = CAPNG_DROP, c_capability = -1\<rparr>]"
  obtain caps' where "capability_add ?t ?l ''+chown'' = Inr caps'"
    by (simp add: capability_add_def strcaseeq_def)
  from capability_add_invariant [OF this] this show ?thesis by (simp add: all_first_def)
qed

end
