(* ===== verification/Machine.thy ===== *)
theory Machine
  imports Clib
begin

text \<open>
  machine.c: telling systemd-machined over D-Bus of the container.  A bus that cannot
  be reached and an error reply are ignored.  A reply's \<open>rc\<close> is negative where
  the code finds the error set.
\<close>

definition append_arg :: "dbus_call \<Rightarrow> unit io" where
  "append_arg c = io_bind (sys (Dbus c)) (\<lambda>r. fail_if (rc r = 0) ''OOM'')"

definition register_machine :: "int \<Rightarrow> cstring \<Rightarrow> unit io" where
  "register_machine pid dest =
     (let name = ''pflask-'' @ show_int pid in
      io_bind (sys (Dbus Bus_get_private)) (\<lambda>conn.
      if rc conn < 0 then io_ret ()
      else
        io_seq (sys (Dbus (New_method_call ''org.freedesktop.machine1'' ''/org/freedesktop/machine1''
          ''org.freedesktop.machine1.Manager'' ''CreateMachine'')))
        (io_seq (append_arg (Append_string name))
        (io_seq (append_arg (Open_array ''y''))
        (io_seq (append_arg (Append_bytes []))
        (io_seq (append_arg Close_array)
        (io_seq (append_arg (Append_string ''pflask''))
        (io_seq (append_arg (Append_string ''container''))
        (io_seq (append_arg (Append_uint32 (of_int pid)))
        (io_seq (append_arg (Append_string dest))
        (io_seq (append_arg (Open_array ''(sv)''))
        (io_seq (append_arg Close_array)
        (io_seq (sys (Dbus Send_with_reply))
        (io_bind (sys (Dbus Connection_close)) (\<lambda>_. io_ret ())))))))))))))))"

lemma register_machine_grows: "grows (register_machine pid dest)"
  unfolding register_machine_def append_arg_def Let_def by (auto intro!: grows_intros)


lemma register_machine_avoids:
  assumes "\<And>d. \<not> P (Dbus d)"
  shows "keeps (avoids P) (register_machine pid dest)"
  unfolding register_machine_def append_arg_def Let_def
  by (auto intro!: avoid.keeps_intros avoids_one simp: assms)

text \<open>
  The message that is sent has the signature of CreateMachine: name, id, service,
  class, leader, root directory and properties.
\<close>

lemma register_machine_message:
  assumes "register_machine pid dest k h = (Inr u, h')" and "rc (k h (Dbus Bus_get_private)) \<ge> 0"
  shows "h' = h @ map Dbus
    [Bus_get_private,
     New_method_call ''org.freedesktop.machine1'' ''/org/freedesktop/machine1''
       ''org.freedesktop.machine1.Manager'' ''CreateMachine'',
     Append_string (''pflask-'' @ show_int pid), Open_array ''y'', Append_bytes [], Close_array,
     Append_string ''pflask'', Append_string ''container'', Append_uint32 (of_int pid),
     Append_string dest, Open_array ''(sv)'', Close_array, Send_with_reply, Connection_close]"
  using assms by (auto simp: register_machine_def append_arg_def Let_def io_Inr_iffs)

end
