(* ===== verification/Pty.thy ===== *)
theory Pty
  imports Clib
begin

text \<open>
  pty.c: the terminal between pflask and the container.  The master and the
  slave end of a pseudo terminal, the loop that relays bytes between the caller's
  terminal and the master (process_pty), the server that hands the master to
  another pflask over an abstract socket (serve_pty), and that other pflask
  (recv_pty).

  File descriptors are the C integers.  A reply's \<open>num\<close> is what the call stores:
  the descriptor of the event for epoll_wait, the signal number for a read from
  the signal descriptor.  Both loops may run for ever; \<open>n\<close> bounds the number of
  calls of epoll_wait, and the result tells whether the loop was left.
\<close>

unbundle bit_operations_syntax

section \<open>The terminal's attributes\<close>

text \<open>
  The two static variables; static storage is zero at the start of the program.
  The control characters of struct termios are left out.
\<close>

record tty_state =
  stdin_attr :: termios
  stdin_ws :: winsize

definition tty_init :: tty_state where
  "tty_init = \<lparr>stdin_attr = \<lparr>c_iflag = 0, c_oflag = 0, c_cflag = 0, c_lflag = 0\<rparr>,
               stdin_ws = \<lparr>ws_row = 0, ws_col = 0\<rparr>\<rparr>"

text \<open>
  cfmakeraw(3).  The masks are IGNBRK | BRKINT | PARMRK | ISTRIP | INLCR | IGNCR |
  ICRNL | IXON; OPOST; CSIZE | PARENB and CS8; ECHO | ECHONL | ICANON | ISIG |
  IEXTEN.
\<close>

definition cfmakeraw :: "termios \<Rightarrow> termios" where
  "cfmakeraw t =
     \<lparr>c_iflag = c_iflag t AND NOT 0x5EB, c_oflag = c_oflag t AND NOT 1,
      c_cflag = (c_cflag t AND NOT 0x130) OR 0x30, c_lflag = c_lflag t AND NOT 0x804B\<rparr>"

definition raw_of :: "termios \<Rightarrow> termios" where
  "raw_of t = (let raw_attr = cfmakeraw t in raw_attr\<lparr>c_lflag := c_lflag raw_attr AND NOT 8\<rparr>)"

section \<open>Opening the two ends\<close>

definition open_master_pty :: "tty_state \<Rightarrow> (int \<times> cstring \<times> tty_state) io" where
  "open_master_pty st =
     io_bind (sys (Tty (Isatty 0))) (\<lambda>t.
     io_bind
       (if rc t \<noteq> 0 then
          io_bind (sys (Tty (Tcgetattr 0))) (\<lambda>a.
          io_seq (sys_fail_if (rc a < 0) ''tcgetattr()'')
          (io_bind (sys (Tty (Get_winsize 0))) (\<lambda>w.
          io_seq (sys_fail_if (rc w < 0) ''ioctl(TIOCGWINSZ)'')
            (io_ret \<lparr>stdin_attr = tio a, stdin_ws = ws w\<rparr>))))
        else io_ret st) (\<lambda>st.
     io_bind (sys (Tty Openpt)) (\<lambda>m.
     io_seq (sys_fail_if (rc m < 0) ''Error opening master pty'')
     (io_bind (sys (Tty (Ptsname (rc m)))) (\<lambda>name.
       case sdata name of
         None \<Rightarrow> io_stop (Sysf ''ptsname()'')
       | Some master_name \<Rightarrow>
           io_seq (checked (Tty (Unlockpt (rc m))) ''Error unlocking master pty'')
             (io_ret (rc m, master_name, st)))))))"

definition close_fd :: "int \<Rightarrow> unit io" where
  "close_fd fd = (if fd = -1 then io_ret () else checked (Ev (Closefd fd)) ''Error closing fd'')"

definition open_slave_pty :: "tty_state \<Rightarrow> cstring \<Rightarrow> unit io" where
  "open_slave_pty st master_name =
     io_bind (sys (Open master_name 2 0)) (\<lambda>f.
     let slave_fd = rc f in
     io_seq (sys_fail_if (slave_fd < 0) ''Error opening slave pty'')
     (io_bind (sys (Tty (Isatty slave_fd))) (\<lambda>t.
     io_seq (fail_if (rc t = 0) ''Not a TTY'')
     (io_seq (checked (Tty (Dup2 slave_fd 0)) ''dup2(STDIN)'')
     (io_seq (checked (Tty (Dup2 slave_fd 1)) ''dup2(STDOUT)'')
     (io_seq (checked (Tty (Dup2 slave_fd 2)) ''dup2(STDERR)'')
     (io_bind (sys (Tty (Isatty 0))) (\<lambda>i.
     io_seq
       (if rc i \<noteq> 0
        then io_seq (checked (Tty (Tcsetattr slave_fd (stdin_attr st))) ''tcsetattr()'')
               (checked (Tty (Set_winsize slave_fd (stdin_ws st))) ''ioctl(TIOCWINSZ)'')
        else io_ret ())
       (close_fd slave_fd)))))))))"

section \<open>Relaying\<close>

text \<open>SIGINT, SIGTERM, SIGCHLD, SIGWINCH, and SIGRTMIN + 4.\<close>

definition SIGINT :: nat where "SIGINT = 2"
definition SIGTERM :: nat where "SIGTERM = 15"
definition SIGCHLD :: nat where "SIGCHLD = 17"
definition SIGWINCH :: nat where "SIGWINCH = 28"
definition SIGDETACH :: nat where "SIGDETACH = 38"

text \<open>
  The three branches of the loop's body, for the event's descriptor \<open>ev\<close>.  True
  stands for goto done.
\<close>

definition stdin_branch :: "int \<Rightarrow> nat \<Rightarrow> int \<Rightarrow> bool io" where
  "stdin_branch master_fd line_max ev =
     (if ev \<noteq> 0 then io_ret False
      else io_bind (sys (Ev (Read_fd 0 line_max))) (\<lambda>r.
        if rc r = 0 then io_ret True
        else if rc r < 0 then io_ret True
        else
          let buf = take (nat (rc r)) (data r) in
          io_bind (sys (Ev (Write_fd master_fd buf))) (\<lambda>w.
          io_seq (sys_fail_if (rc w < 0) ''write()'')
            (io_ret (0 \<in> set (take (nat (rc w)) buf))))))"

definition master_branch :: "int \<Rightarrow> nat \<Rightarrow> int \<Rightarrow> bool io" where
  "master_branch master_fd line_max ev =
     (if ev \<noteq> master_fd then io_ret False
      else io_bind (sys (Ev (Read_fd master_fd line_max))) (\<lambda>r.
        if rc r = 0 then io_ret True
        else if rc r < 0 then io_ret True
        else
          let buf = take (nat (rc r)) (data r) in
          io_bind (sys (Ev (Write_fd 1 buf))) (\<lambda>w.
          io_seq (sys_fail_if (rc w < 0) ''write()'') (io_ret False))))"

text \<open>sizeof(struct signalfd_siginfo) is 128.\<close>

definition signal_branch :: "int \<Rightarrow> int \<Rightarrow> int \<Rightarrow> bool io" where
  "signal_branch master_fd signal_fd ev =
     (if ev \<noteq> signal_fd then io_ret False
      else io_bind (sys (Ev (Read_fd signal_fd 128))) (\<lambda>r.
        io_seq (sys_fail_if (rc r \<noteq> 128) ''read()'')
        (let signo = nat (num r) in
         if signo = SIGWINCH then
           io_bind (sys (Tty (Get_winsize 0))) (\<lambda>w.
           io_seq (sys_fail_if (rc w < 0) ''ioctl()'')
           (io_seq (checked (Tty (Set_winsize master_fd (ws w))) ''ioctl()'')
             (io_ret False)))
         else if signo = SIGINT \<or> signo = SIGTERM \<or> signo = SIGCHLD then io_ret True
         else io_ret (signo = SIGDETACH))))"

text \<open>
  One call of epoll_wait with what follows it.  An interrupted wait is repeated.
\<close>

definition pty_round :: "int \<Rightarrow> int \<Rightarrow> nat \<Rightarrow> bool io" where
  "pty_round master_fd signal_fd line_max =
     io_bind (sys (Ev Epoll_wait)) (\<lambda>e.
       if rc e < 0 \<and> errno e = EINTR then io_ret False
       else io_seq (sys_fail_if (rc e < 0) ''epoll_wait()'')
         (io_bind (stdin_branch master_fd line_max (num e)) (\<lambda>done.
            if done then io_ret True
            else io_bind (master_branch master_fd line_max (num e)) (\<lambda>done.
              if done then io_ret True
              else signal_branch master_fd signal_fd (num e)))))"

fun run_rounds :: "bool io \<Rightarrow> nat \<Rightarrow> bool io" where
  "run_rounds round 0 = io_ret False"
| "run_rounds round (Suc n) =
     io_bind round (\<lambda>done. if done then io_ret True else run_rounds round n)"

text \<open>
  process_pty.  The raw attributes are made from what \<open>stdin_attr\<close> holds before
  tcgetattr fills it.
\<close>

definition process_pty :: "nat \<Rightarrow> tty_state \<Rightarrow> int \<Rightarrow> bool io" where
  "process_pty n st master_fd =
     io_bind (sys (Ev Sysconf)) (\<lambda>l.
     io_seq (sys_fail_if (rc l < 0) ''sysconf()'')
     (let raw_attr = stdin_attr st in
     io_seq (checked (Ev (Sigprocmask [SIGINT, SIGTERM, SIGCHLD, SIGWINCH, SIGDETACH])) ''sigprocmask()'')
     (io_bind (sys (Ev (Signalfd [SIGINT, SIGTERM, SIGCHLD, SIGWINCH, SIGDETACH]))) (\<lambda>s.
     io_seq (sys_fail_if (rc s < 0) ''signalfd()'')
     (io_bind (sys (Tty (Tcgetattr 0))) (\<lambda>a.
     io_seq (sys_fail_if (rc a < 0) ''tcgetattr()'')
     (io_seq (checked (Tty (Tcsetattr 0 (raw_of raw_attr))) ''tcsetattr()'')
     (io_bind (sys (Ev Epoll_create)) (\<lambda>e.
     io_seq (sys_fail_if (rc e < 0) ''epoll_create1()'')
     (io_seq (checked (Ev (Epoll_add (rc e) 0)) ''epoll_ctl(STDIN_FILENO)'')
     (io_seq (checked (Ev (Epoll_add (rc e) master_fd)) ''epoll_ctl(master_fd)'')
     (io_seq (checked (Ev (Epoll_add (rc e) (rc s))) ''epoll_ctl(signal_fd)'')
     (io_bind (run_rounds (pty_round master_fd (rc s) (nat (rc l))) n) (\<lambda>done.
       if \<not> done then io_ret False
       else
         io_seq (checked (Tty (Tcsetattr 0 (tio a))) ''tcsetattr()'')
         (io_seq (close_fd (rc s)) (io_seq (close_fd (rc e)) (io_ret True)))))))))))))))))"

section \<open>Handing the master over\<close>

text \<open>
  asprintf(SOCKET_PATH, pid), and the abstract address: the first character is
  replaced by NUL, and the length is that of the string.
\<close>

definition socket_path :: "u32 \<Rightarrow> cstring" where
  "socket_path pid = ''@/com/github/ghedo/pflask/'' @ show_u32 pid"

definition SUN_PATH :: nat where "SUN_PATH = 108"

definition socket_addr :: "u32 \<Rightarrow> cstring io" where
  "socket_addr pid =
     (let path = socket_path pid in
      io_seq (fail_if (length path \<ge> SUN_PATH) ''Socket path too long'')
        (io_ret (CHR 0x00 # tl path)))"

text \<open>CMSG_LEN(sizeof(int)) is 20, SOL_SOCKET 1, SCM_RIGHTS 1.\<close>

definition send_fd :: "int \<Rightarrow> int \<Rightarrow> unit io" where
  "send_fd sock fd =
     checked (Ev (Send_ctl sock [\<lparr>cmsg_len = 20, cmsg_level = 1, cmsg_type = 1, cmsg_fd = fd\<rparr>]))
       ''sendmsg()''"

fun first_fd :: "cmsg list \<Rightarrow> int" where
  "first_fd [] = -1"
| "first_fd (c # cs) =
     (if cmsg_len c \<noteq> 20 \<or> cmsg_level c \<noteq> 1 \<or> cmsg_type c \<noteq> 1 then first_fd cs else cmsg_fd c)"

definition recv_fd :: "int \<Rightarrow> int io" where
  "recv_fd sock =
     io_bind (sys (Ev (Recv_ctl sock))) (\<lambda>r.
       io_seq (sys_fail_if (rc r < 0) ''recvmsg()'') (io_ret (first_fd (cmsgs r))))"

definition recv_pty :: "u32 \<Rightarrow> int io" where
  "recv_pty pid =
     io_bind (socket_addr pid) (\<lambda>addr.
     io_bind (sys (Ev Socket_unix)) (\<lambda>s.
     io_seq (sys_fail_if (rc s < 0) ''socket()'')
     (io_seq (checked (Ev (Connect_unix addr)) ''connect()'')
     (io_bind (recv_fd (rc s)) (\<lambda>fd.
     io_seq (close_fd (rc s)) (io_ret fd))))))"

definition accept_branch :: "int \<Rightarrow> int \<Rightarrow> int \<Rightarrow> unit io" where
  "accept_branch fd sock ev =
     (if ev \<noteq> sock then io_ret ()
      else io_bind (sys (Ev (Accept sock))) (\<lambda>s.
        io_seq (sys_fail_if (rc s < 0) ''accept()'')
        (io_bind (sys (Ev (Getsockopt (rc s)))) (\<lambda>ucred.
        io_seq (sys_fail_if (rc ucred < 0) ''getsockopt(SO_PEERCRED)'')
        (io_bind (sys Geteuid) (\<lambda>e.
        io_seq (if st_uid ucred = of_int (rc e) then send_fd (rc s) fd else io_ret ())
          (close_fd (rc s))))))))"

definition server_signal :: "int \<Rightarrow> int \<Rightarrow> bool io" where
  "server_signal signal_fd ev =
     (if ev \<noteq> signal_fd then io_ret False
      else io_bind (sys (Ev (Read_fd signal_fd 128))) (\<lambda>r.
        io_seq (sys_fail_if (rc r \<noteq> 128) ''read()'')
        (let signo = nat (num r) in
         if signo = SIGINT \<or> signo = SIGTERM \<or> signo = SIGCHLD then io_ret True
         else io_ret (signo = SIGDETACH))))"

definition serve_round :: "int \<Rightarrow> int \<Rightarrow> int \<Rightarrow> bool io" where
  "serve_round fd sock signal_fd =
     io_bind (sys (Ev Epoll_wait)) (\<lambda>e.
       if rc e < 0 \<and> errno e = EINTR then io_ret False
       else io_seq (sys_fail_if (rc e < 0) ''epoll_wait()'')
         (io_seq (accept_branch fd sock (num e)) (server_signal signal_fd (num e))))"

definition serve_pty :: "nat \<Rightarrow> int \<Rightarrow> bool io" where
  "serve_pty n fd =
     io_bind (sys Getpid) (\<lambda>p.
     io_bind (socket_addr (of_int (rc p))) (\<lambda>addr.
     io_bind (sys (Ev Socket_unix)) (\<lambda>s.
     io_seq (sys_fail_if (rc s < 0) ''socket()'')
     (io_seq (checked (Ev (Bind_unix addr)) ''bind()'')
     (io_seq (checked (Ev (Listen (rc s))) ''listen()'')
     (io_seq (checked (Ev (Sigprocmask [SIGINT, SIGTERM, SIGCHLD, SIGDETACH])) ''sigprocmask()'')
     (io_bind (sys (Ev (Signalfd [SIGINT, SIGTERM, SIGCHLD, SIGDETACH]))) (\<lambda>g.
     io_seq (sys_fail_if (rc g < 0) ''signalfd()'')
     (io_bind (sys (Ev Epoll_create)) (\<lambda>e.
     io_seq (sys_fail_if (rc e < 0) ''epoll_create1()'')
     (io_seq (checked (Ev (Epoll_add (rc e) (rc s))) ''epoll_ctl(STDIN_FILENO)'')
     (io_seq (checked (Ev (Epoll_add (rc e) (rc g))) ''epoll_ctl(signal_fd)'')
     (io_bind (run_rounds (serve_round fd (rc s) (rc g)) n) (\<lambda>done.
       if \<not> done then io_ret False
       else io_seq (close_fd (rc g)) (io_seq (close_fd (rc e)) (io_seq (close_fd (rc s)) (io_ret True)))))))))))))))))"

section \<open>What is read and what is written\<close>

text \<open>The bytes that the reads from \<open>fd\<close> returned, and those handed to writes to \<open>fd\<close>.\<close>

definition got :: "kernel \<Rightarrow> int \<Rightarrow> call list \<Rightarrow> call \<Rightarrow> byte list" where
  "got k fd h c =
     (case c of
        Ev (Read_fd f n) \<Rightarrow> if f = fd then take (nat (rc (k h c))) (data (k h c)) else []
      | _ \<Rightarrow> [])"

fun received :: "kernel \<Rightarrow> int \<Rightarrow> call list \<Rightarrow> call list \<Rightarrow> byte list" where
  "received k fd h [] = []"
| "received k fd h (c # cs) = got k fd h c @ received k fd (h @ [c]) cs"

definition put :: "int \<Rightarrow> call \<Rightarrow> byte list" where
  "put fd c = (case c of Ev (Write_fd f d) \<Rightarrow> if f = fd then d else [] | _ \<Rightarrow> [])"

definition sent :: "int \<Rightarrow> call list \<Rightarrow> byte list" where
  "sent fd cs = concat (map (put fd) cs)"

lemma received_append:
  "received k fd h (cs @ ds) = received k fd h cs @ received k fd (h @ cs) ds"
  by (induction cs arbitrary: h) simp_all

lemma sent_simps [simp]:
  "sent fd [] = []" "sent fd (c # cs) = put fd c @ sent fd cs" "sent fd (cs @ ds) = sent fd cs @ sent fd ds"
  by (simp_all add: sent_def)

definition relays :: "int \<Rightarrow> kernel \<Rightarrow> call list \<Rightarrow> call list \<Rightarrow> bool" where
  "relays m k h cs \<longleftrightarrow> sent m cs = received k 0 h cs \<and> sent 1 cs = received k m h cs"

interpretation relay: trace_law "relays m" for m
  by unfold_locales (simp_all add: relays_def received_append)

context trace_law
begin

lemma keeps_rounds: "keeps R round \<Longrightarrow> keeps R (run_rounds round n)"
  by (induction n) (auto intro!: keeps_ret keeps_bind)

end

lemma stdin_branch_relays:
  "m \<noteq> 0 \<Longrightarrow> m \<noteq> 1 \<Longrightarrow> keeps (relays m) (stdin_branch m l ev)"
  unfolding keeps_def stdin_branch_def
  by (auto simp: io_simps relays_def got_def put_def Let_def)

lemma master_branch_relays:
  "m \<noteq> 0 \<Longrightarrow> m \<noteq> 1 \<Longrightarrow> keeps (relays m) (master_branch m l ev)"
  unfolding keeps_def master_branch_def
  by (auto simp: io_simps relays_def got_def put_def Let_def)

lemma relays_other:
  "relays m k h [Ev Epoll_wait]" "relays m k h [Tty t]"
  "s \<noteq> 0 \<Longrightarrow> s \<noteq> m \<Longrightarrow> relays m k h [Ev (Read_fd s l)]"
  by (simp_all add: relays_def got_def put_def)

lemma signal_branch_relays:
  "s \<noteq> 0 \<Longrightarrow> s \<noteq> m \<Longrightarrow> keeps (relays m) (signal_branch m s ev)"
  unfolding signal_branch_def Let_def
  by (auto intro!: relay.keeps_intros relays_other)

lemma pty_round_relays:
  "m \<noteq> 0 \<Longrightarrow> m \<noteq> 1 \<Longrightarrow> s \<noteq> 0 \<Longrightarrow> s \<noteq> m \<Longrightarrow> keeps (relays m) (pty_round m s l)"
  unfolding pty_round_def
  by (auto intro!: relay.keeps_intros relays_other stdin_branch_relays master_branch_relays
      signal_branch_relays)

text \<open>The part of process_pty that follows the reply \<open>s\<close> of signalfd.\<close>

definition pty_tail :: "nat \<Rightarrow> tty_state \<Rightarrow> int \<Rightarrow> nat \<Rightarrow> reply \<Rightarrow> bool io" where
  "pty_tail n st master_fd line_max s =
     io_seq (sys_fail_if (rc s < 0) ''signalfd()'')
     (io_bind (sys (Tty (Tcgetattr 0))) (\<lambda>a.
     io_seq (sys_fail_if (rc a < 0) ''tcgetattr()'')
     (io_seq (checked (Tty (Tcsetattr 0 (raw_of (stdin_attr st)))) ''tcsetattr()'')
     (io_bind (sys (Ev Epoll_create)) (\<lambda>e.
     io_seq (sys_fail_if (rc e < 0) ''epoll_create1()'')
     (io_seq (checked (Ev (Epoll_add (rc e) 0)) ''epoll_ctl(STDIN_FILENO)'')
     (io_seq (checked (Ev (Epoll_add (rc e) master_fd)) ''epoll_ctl(master_fd)'')
     (io_seq (checked (Ev (Epoll_add (rc e) (rc s))) ''epoll_ctl(signal_fd)'')
     (io_bind (run_rounds (pty_round master_fd (rc s) line_max) n) (\<lambda>done.
       if \<not> done then io_ret False
       else
         io_seq (checked (Tty (Tcsetattr 0 (tio a))) ''tcsetattr()'')
         (io_seq (close_fd (rc s)) (io_seq (close_fd (rc e)) (io_ret True)))))))))))))"

lemma process_pty_tail:
  "process_pty n st m =
     io_bind (sys (Ev Sysconf)) (\<lambda>l.
     io_seq (sys_fail_if (rc l < 0) ''sysconf()'')
     (io_seq (checked (Ev (Sigprocmask [SIGINT, SIGTERM, SIGCHLD, SIGWINCH, SIGDETACH])) ''sigprocmask()'')
     (io_bind (sys (Ev (Signalfd [SIGINT, SIGTERM, SIGCHLD, SIGWINCH, SIGDETACH])))
       (pty_tail n st m (nat (rc l))))))"
  by (simp add: process_pty_def pty_tail_def [abs_def] Let_def)

lemma relays_neutral:
  "relays m k h [Ev Sysconf]" "relays m k h [Ev (Sigprocmask g)]" "relays m k h [Ev (Signalfd g)]"
  "relays m k h [Ev Epoll_create]" "relays m k h [Ev (Epoll_add e f)]" "relays m k h [Ev (Closefd f)]"
  by (simp_all add: relays_def got_def put_def)

lemma close_fd_relays: "keeps (relays m) (close_fd f)"
  unfolding close_fd_def by (auto intro!: relay.keeps_intros relays_neutral)

lemma pty_tail_relays:
  assumes "m \<noteq> 0" "m \<noteq> 1" "rc s \<noteq> 0" "rc s \<noteq> m"
  shows "keeps (relays m) (pty_tail n st m l s)"
  unfolding pty_tail_def
  by (auto intro!: relay.keeps_intros relay.keeps_rounds pty_round_relays assms relays_other
      relays_neutral close_fd_relays)

text \<open>Changes of the terminal's attributes.\<close>

definition is_tcset :: "call \<Rightarrow> bool" where
  "is_tcset c = (case c of Tty (Tcsetattr f t) \<Rightarrow> True | _ \<Rightarrow> False)"

definition no_tcset :: "kernel \<Rightarrow> call list \<Rightarrow> call list \<Rightarrow> bool" where
  "no_tcset k h cs \<longleftrightarrow> filter is_tcset cs = []"

interpretation tcset: trace_law no_tcset
  by unfold_locales (simp_all add: no_tcset_def)

lemma is_tcset_simps [simp]:
  "\<not> is_tcset (Ev e)" "\<not> is_tcset (Tty (Tcgetattr f))" "\<not> is_tcset (Tty (Get_winsize f))"
  "\<not> is_tcset (Tty (Set_winsize f w))" "is_tcset (Tty (Tcsetattr f t))"
  by (simp_all add: is_tcset_def)

lemma pty_round_no_tcset: "keeps no_tcset (pty_round m s l)"
  unfolding pty_round_def stdin_branch_def master_branch_def signal_branch_def Let_def
  by (auto intro!: tcset.keeps_intros simp: no_tcset_def)

lemma rounds_no_tcset:
  "run_rounds (pty_round m s l) n k h = (r, h') \<Longrightarrow> filter is_tcset h' = filter is_tcset h"
  by (rule keepsE [OF tcset.keeps_rounds [OF pty_round_no_tcset]]) (auto simp: no_tcset_def)

lemma close_fd_no_tcset: "close_fd f k h = (r, h') \<Longrightarrow> filter is_tcset h' = filter is_tcset h"
  by (auto simp: close_fd_def io_simps split: if_splits)

text \<open>The peer of a connection on which a descriptor was sent.\<close>

definition vouched :: "int \<Rightarrow> kernel \<Rightarrow> call list \<Rightarrow> call list \<Rightarrow> bool" where
  "vouched fd k h cs \<longleftrightarrow> (\<forall>i < length cs. \<forall>s ms. cs ! i = Ev (Send_ctl s ms) \<longrightarrow>
     2 \<le> i \<and> cs ! (i - 1) = Geteuid \<and> cs ! (i - 2) = Ev (Getsockopt s) \<and>
     map cmsg_fd ms = [fd] \<and>
     st_uid (k (h @ take (i - 2) cs) (Ev (Getsockopt s))) = of_int (rc (k (h @ take (i - 1) cs) Geteuid)))"

lemma vouched_append:
  assumes "vouched fd k h cs" and "vouched fd k (h @ cs) ds"
  shows "vouched fd k h (cs @ ds)"
  unfolding vouched_def
proof (intro allI impI)
  fix i s ms assume i: "i < length (cs @ ds)" "(cs @ ds) ! i = Ev (Send_ctl s ms)"
  show "2 \<le> i \<and> (cs @ ds) ! (i - 1) = Geteuid \<and> (cs @ ds) ! (i - 2) = Ev (Getsockopt s) \<and>
     map cmsg_fd ms = [fd] \<and>
     st_uid (k (h @ take (i - 2) (cs @ ds)) (Ev (Getsockopt s))) =
       of_int (rc (k (h @ take (i - 1) (cs @ ds)) Geteuid))"
  proof (cases "i < length cs")
    case True
    with i assms(1) show ?thesis by (auto simp: vouched_def nth_append)
  next
    case False
    define j where "j = i - length cs"
    with False i have j: "i = length cs + j" "j < length ds" "ds ! j = Ev (Send_ctl s ms)"
      by (auto simp: nth_append)
    with assms(2) have *: "2 \<le> j" "ds ! (j - 1) = Geteuid" "ds ! (j - 2) = Ev (Getsockopt s)"
      "map cmsg_fd ms = [fd]"
      "st_uid (k ((h @ cs) @ take (j - 2) ds) (Ev (Getsockopt s))) =
        of_int (rc (k ((h @ cs) @ take (j - 1) ds) Geteuid))"
      unfolding vouched_def by blast+
    from *(1) obtain q where "j = 2 + q" using le_Suc_ex by blast
    with * j(1) show ?thesis by (simp add: nth_append)
  qed
qed

interpretation vouch: trace_law "vouched fd" for fd
  by unfold_locales (simp_all add: vouched_append, simp add: vouched_def)

lemma vouched_one: "(\<And>s ms. c \<noteq> Ev (Send_ctl s ms)) \<Longrightarrow> vouched fd k h [c]"
  by (simp add: vouched_def)

lemma vouched_sent:
  assumes "st_uid (k (h @ pre) (Ev (Getsockopt s))) = of_int (rc (k (h @ pre @ [Ev (Getsockopt s)]) Geteuid))"
    and "vouched fd k h pre" and "map cmsg_fd ms = [fd]"
  shows "vouched fd k h (pre @ [Ev (Getsockopt s), Geteuid, Ev (Send_ctl s ms)])"
proof (rule vouched_append)
  show "vouched fd k (h @ pre) [Ev (Getsockopt s), Geteuid, Ev (Send_ctl s ms)]"
    using assms(1,3) by (auto simp: vouched_def less_Suc_eq)
qed (rule assms(2))

lemma accept_branch_vouched: "keeps (vouched fd) (accept_branch fd sock ev)"
proof (cases "ev = sock")
  case False
  then show ?thesis by (simp add: accept_branch_def vouch.keeps_ret)
next
  case True
  have other: "vouched fd k h [c]" if "\<And>s ms. c \<noteq> Ev (Send_ctl s ms)" for k h c
    using that by (rule vouched_one)
  have body: "keeps (vouched fd)
      (io_bind (sys (Ev (Getsockopt s))) (\<lambda>ucred.
        io_seq (sys_fail_if (rc ucred < 0) m1)
        (io_bind (sys Geteuid) (\<lambda>e.
        io_seq (if st_uid ucred = of_int (rc e) then send_fd s fd else io_ret ()) (close_fd s)))))"
    for s m1
  proof -
    have "vouched fd k h [Ev (Getsockopt s), Geteuid]" for k h
      by (auto simp: vouched_def less_Suc_eq)
    moreover have "vouched fd k h [Ev (Getsockopt s)]" for k h by (rule other) simp
    moreover have "vouched fd k h [Ev (Getsockopt s), Geteuid, Ev (Closefd s)]" for k h
      by (auto simp: vouched_def less_Suc_eq)
    moreover have "vouched fd k h [Ev (Getsockopt s), Geteuid, Ev (Send_ctl s ms)]"
      "vouched fd k h [Ev (Getsockopt s), Geteuid, Ev (Send_ctl s ms), Ev (Closefd s)]"
      if "st_uid (k h (Ev (Getsockopt s))) = of_int (rc (k (h @ [Ev (Getsockopt s)]) Geteuid))"
        "map cmsg_fd ms = [fd]" for k h ms
      using that by (auto simp: vouched_def less_Suc_eq)
    ultimately show ?thesis
      unfolding keeps_def by (auto simp: io_simps send_fd_def close_fd_def)
  qed
  show ?thesis
    unfolding accept_branch_def using True
    by (auto intro!: vouch.keeps_bind vouch.keeps_seq vouch.keeps_sys vouch.keeps_sys_fail_if body other)
qed

lemma serve_round_vouched: "keeps (vouched fd) (serve_round fd sock sig)"
  unfolding serve_round_def server_signal_def Let_def
  by (auto intro!: vouch.keeps_intros accept_branch_vouched vouched_one)

lemma close_fd_vouched: "keeps (vouched fd) (close_fd f)"
  unfolding close_fd_def by (auto intro!: vouch.keeps_intros vouched_one)

lemma socket_addr_fits: "length (socket_path pid) \<le> 36"
proof -
  have "unat pid < 2 ^ LENGTH(32)" by (rule unsigned_less)
  then have "length (show_nat (unat pid)) \<le> Suc 9"
    by (intro show_nat_length) simp
  then show ?thesis by (simp add: socket_path_def show_u32_def)
qed

lemma socket_addr_run: "socket_addr pid k h = (Inr (CHR 0x00 # tl (socket_path pid)), h)"
  using socket_addr_fits [of pid]
  by (simp add: socket_addr_def SUN_PATH_def io_simps Let_def)

lemma serve_pty_vouched: "keeps (vouched fd) (serve_pty n fd)"
proof -
  have addr: "keeps (vouched fd) (socket_addr p)" for p
    unfolding keeps_def socket_addr_run by (simp add: vouch.law_nil)
  show ?thesis
    unfolding serve_pty_def
    by (auto intro!: vouch.keeps_intros vouch.keeps_rounds serve_round_vouched close_fd_vouched
        addr vouched_one)
qed

text \<open>The attribute changes of process_pty, by how it ends.\<close>

lemma rounds_extend:
  assumes "run_rounds (pty_round m s l) n k h = (r, h')"
  obtains cs where "h' = h @ cs" "filter is_tcset cs = []"
  using keepsE [OF tcset.keeps_rounds [OF pty_round_no_tcset] assms] by (auto simp: no_tcset_def)

lemma close_fd_extend:
  assumes "close_fd f k h = (r, h')"
  obtains cs where "h' = h @ cs" "filter is_tcset cs = []"
  using assms that by (auto simp: close_fd_def io_simps split: if_splits)

lemma process_pty_Inr:
  assumes "process_pty n st m k [] = (Inr True, h')"
  shows "\<exists>pre post. h' = pre @ Tty (Tcgetattr 0) # post \<and> filter is_tcset pre = [] \<and>
    filter is_tcset post = [Tty (Tcsetattr 0 (raw_of (stdin_attr st))),
      Tty (Tcsetattr 0 (tio (k pre (Tty (Tcgetattr 0)))))]"
proof -
  let ?sigs = "[SIGINT, SIGTERM, SIGCHLD, SIGWINCH, SIGDETACH]"
  let ?h1 = "[Ev Sysconf, Ev (Sigprocmask ?sigs), Ev (Signalfd ?sigs)]"
  let ?a = "tio (k ?h1 (Tty (Tcgetattr 0)))"
  let ?raw = "Tty (Tcsetattr 0 (raw_of (stdin_attr st)))"
  obtain s e h2 h3 where
    loop: "run_rounds (pty_round m s (nat (rc (k [] (Ev Sysconf))))) n k
        (?h1 @ [Tty (Tcgetattr 0), ?raw, Ev Epoll_create, Ev (Epoll_add e 0), Ev (Epoll_add e m),
           Ev (Epoll_add e s)]) = (Inr True, h2)"
    and close1: "close_fd s k (h2 @ [Tty (Tcsetattr 0 ?a)]) = (Inr (), h3)"
    and close2: "close_fd e k h3 = (Inr (), h')"
    using assms by (auto simp: process_pty_def Let_def io_Inr_iffs split: if_splits)
  obtain cs where cs: "h2 = (?h1 @ [Tty (Tcgetattr 0), ?raw, Ev Epoll_create, Ev (Epoll_add e 0),
      Ev (Epoll_add e m), Ev (Epoll_add e s)]) @ cs" "filter is_tcset cs = []"
    by (rule rounds_extend [OF loop])
  obtain c1 where c1: "h3 = (h2 @ [Tty (Tcsetattr 0 ?a)]) @ c1" "filter is_tcset c1 = []"
    by (rule close_fd_extend [OF close1])
  obtain c2 where c2: "h' = h3 @ c2" "filter is_tcset c2 = []"
    by (rule close_fd_extend [OF close2])
  show ?thesis
    by (intro exI [of _ ?h1] exI [of _ "[?raw, Ev Epoll_create, Ev (Epoll_add e 0),
      Ev (Epoll_add e m), Ev (Epoll_add e s)] @ cs @ [Tty (Tcsetattr 0 ?a)] @ c1 @ c2"])
       (simp add: cs c1 c2)
qed

lemma process_pty_write_error:
  assumes "process_pty n st m k [] = (Inl (Sysf ''write()''), h')"
  shows "filter is_tcset h' = [Tty (Tcsetattr 0 (raw_of (stdin_attr st)))]"
proof -
  let ?sigs = "[SIGINT, SIGTERM, SIGCHLD, SIGWINCH, SIGDETACH]"
  let ?raw = "Tty (Tcsetattr 0 (raw_of (stdin_attr st)))"
  obtain s e l where
    "run_rounds (pty_round m s l) n k [Ev Sysconf, Ev (Sigprocmask ?sigs), Ev (Signalfd ?sigs),
        Tty (Tcgetattr 0), ?raw, Ev Epoll_create, Ev (Epoll_add e 0), Ev (Epoll_add e m),
        Ev (Epoll_add e s)] = (Inl (Sysf ''write()''), h')"
    using assms
    by (auto simp: process_pty_def close_fd_def Let_def io_Inr_iffs io_Inl_iffs split: if_splits)
  from rounds_no_tcset [OF this] show ?thesis by simp
qed

section \<open>Properties\<close>

text \<open>
  C7: process_pty loses and reorders nothing on its way to write: however and
  whenever it ends, and however long it runs, what was handed to writes on the
  master is exactly what was read from the terminal, and what was handed to
  writes on the terminal is exactly what was read from the master.  The master
  is not one of the terminal's descriptors 0 and 1, and signalfd returns a
  descriptor of its own.
\<close>

theorem pty_relays:
  assumes "m \<noteq> 0" "m \<noteq> 1"
    and fresh: "\<And>h sigs. rc (k h (Ev (Signalfd sigs))) \<notin> {0, m}"
    and run: "process_pty n st m k [] = (r, h)"
  shows "sent m h = received k 0 [] h \<and> sent 1 h = received k m [] h"
proof -
  let ?sigs = "[SIGINT, SIGTERM, SIGCHLD, SIGWINCH, SIGDETACH]"
  let ?l = "rc (k [] (Ev Sysconf))"
  let ?h = "[Ev Sysconf, Ev (Sigprocmask ?sigs)]"
  let ?s = "k ?h (Ev (Signalfd ?sigs))"
  consider "h = [Ev Sysconf]" | "h = ?h"
    | "pty_tail n st m (nat ?l) ?s k (?h @ [Ev (Signalfd ?sigs)]) = (r, h)"
    using run by (auto simp: process_pty_tail io_simps split: if_splits)
  then show ?thesis
  proof cases
    case 3
    have s: "rc ?s \<noteq> 0" "rc ?s \<noteq> m" using fresh [of ?h ?sigs] by simp_all
    obtain cs where "h = (?h @ [Ev (Signalfd ?sigs)]) @ cs"
      "relays m k (?h @ [Ev (Signalfd ?sigs)]) cs"
      by (rule keepsE [OF pty_tail_relays [OF assms(1,2) s] 3])
    then show ?thesis by (simp add: relays_def received_append got_def put_def)
  qed (simp_all add: got_def put_def)
qed

text \<open>A kernel for the witnesses: the terminal has "hi", one byte of which can be written.\<close>

definition hi_kernel :: kernel where
  "hi_kernel h c =
     (case c of
        Ev (Read_fd f n) \<Rightarrow> if f = 0 then ok\<lparr>rc := 2, data := [104, 105]\<rparr> else ok
      | Ev (Write_fd f d) \<Rightarrow> ok\<lparr>rc := 1\<rparr>
      | Ev (Signalfd sigs) \<Rightarrow> ok\<lparr>rc := 7\<rparr>
      | _ \<Rightarrow> ok)"

theorem pty_relays_witness:
  "sent 5 (trace (process_pty 1 tty_init 5) hi_kernel) = [104, 105]"
proof -
  obtain r h where run: "process_pty 1 tty_init 5 hi_kernel [] = (r, h)" by fastforce
  have fresh: "rc (hi_kernel h (Ev (Signalfd sigs))) \<notin> {0, 5}" for h sigs
    by (simp add: hi_kernel_def)
  have "received hi_kernel 0 [] h = [104, 105]"
    using run
    by (auto simp: process_pty_def pty_round_def stdin_branch_def master_branch_def signal_branch_def
        hi_kernel_def got_def io_simps Let_def)
  with pty_relays [OF _ _ fresh run] run show ?thesis by (simp add: trace_def)
qed

text \<open>
  Short writes: the terminal's input is handed to write once.  When the
  master takes only a part of it, the rest is dropped, and a NUL byte in the
  rest does not detach; only one in the part that was written does.
\<close>

lemma stdin_branch_short_write:
  assumes "rc (k h (Ev (Read_fd 0 l))) = int (length d)" and "data (k h (Ev (Read_fd 0 l))) = d"
    and "d \<noteq> []" and "0 \<le> rc (k (h @ [Ev (Read_fd 0 l)]) (Ev (Write_fd m d)))"
  shows "stdin_branch m l 0 k h =
    (Inr (0 \<in> set (take (nat (rc (k (h @ [Ev (Read_fd 0 l)]) (Ev (Write_fd m d))))) d)),
     h @ [Ev (Read_fd 0 l), Ev (Write_fd m d)])"
  using assms by (simp add: stdin_branch_def io_simps Let_def)

lemma stdin_branch_short_write_example:
  "stdin_branch 5 2048 0 (\<lambda>h c. case c of Ev (Read_fd f n) \<Rightarrow> ok\<lparr>rc := 2, data := [65, 0]\<rparr> | _ \<Rightarrow> ok\<lparr>rc := 1\<rparr>) []
     = (Inr False, [Ev (Read_fd 0 2048), Ev (Write_fd 5 [65, 0])])"
  using stdin_branch_short_write [of "\<lambda>h c. case c of Ev (Read_fd f n) \<Rightarrow> ok\<lparr>rc := 2, data := [65, 0]\<rparr> | _ \<Rightarrow> ok\<lparr>rc := 1\<rparr>"
      "[]" 2048 "[65, 0]" 5] by simp

text \<open>
  C38: process_pty restores the terminal: when the loop was left, the attributes
  were changed exactly twice, first to the raw ones and last to those that
  tcgetattr had returned before the first change.
\<close>

theorem process_pty_restores:
  assumes "process_pty n st m k [] = (Inr True, h')"
  shows "\<exists>pre post. h' = pre @ Tty (Tcgetattr 0) # post \<and> filter is_tcset pre = [] \<and>
    filter is_tcset post = [Tty (Tcsetattr 0 (raw_of (stdin_attr st))),
      Tty (Tcsetattr 0 (tio (k pre (Tty (Tcgetattr 0)))))]"
  using assms by (rule process_pty_Inr)

text \<open>A kernel that delivers SIGINT at once, through the signal descriptor 7.\<close>

definition int_kernel :: kernel where
  "int_kernel h c =
     (case c of
        Ev Epoll_wait \<Rightarrow> ok\<lparr>num := 7\<rparr>
      | Ev (Signalfd sigs) \<Rightarrow> ok\<lparr>rc := 7\<rparr>
      | Ev (Read_fd f n) \<Rightarrow> ok\<lparr>rc := 128, num := 2\<rparr>
      | Ev Sysconf \<Rightarrow> ok\<lparr>rc := 2048\<rparr>
      | _ \<Rightarrow> ok)"

theorem process_pty_restores_witness:
  "\<exists>post. trace (process_pty 1 tty_init 5) int_kernel =
     [Ev Sysconf, Ev (Sigprocmask [2, 15, 17, 28, 38]), Ev (Signalfd [2, 15, 17, 28, 38])] @
       Tty (Tcgetattr 0) # post \<and> length (filter is_tcset post) = 2"
proof -
  obtain h' where run: "process_pty 1 tty_init 5 int_kernel [] = (Inr True, h')"
    by (simp add: process_pty_def pty_round_def stdin_branch_def master_branch_def signal_branch_def
        close_fd_def int_kernel_def io_simps Let_def SIGINT_def SIGWINCH_def)
  then obtain post where h': "h' = [Ev Sysconf, Ev (Sigprocmask [2, 15, 17, 28, 38]),
      Ev (Signalfd [2, 15, 17, 28, 38])] @ Tty (Tcgetattr 0) # post"
    by (auto simp: process_pty_def pty_round_def stdin_branch_def master_branch_def signal_branch_def
        close_fd_def int_kernel_def io_simps Let_def SIGINT_def SIGTERM_def SIGCHLD_def
        SIGWINCH_def SIGDETACH_def)
  obtain pre p where p: "h' = pre @ Tty (Tcgetattr 0) # p" "filter is_tcset pre = []"
    "length (filter is_tcset p) = 2"
    using process_pty_restores [OF run] by auto
  have "length (filter is_tcset h') = 2" using p by simp
  with h' run show ?thesis by (simp add: trace_def)
qed

text \<open>
  C40: After a failing write the terminal stays raw: the only change of its
  attributes is the one to the raw ones.
\<close>

theorem process_pty_stays_raw:
  assumes "process_pty n st m k [] = (Inl (Sysf ''write()''), h')"
  shows "filter is_tcset h' = [Tty (Tcsetattr 0 (raw_of (stdin_attr st)))]"
  using assms by (rule process_pty_write_error)

theorem process_pty_stays_raw_witness:
  "filter is_tcset (trace (process_pty 1 tty_init 5)
     (\<lambda>h c. case c of Ev (Read_fd f n) \<Rightarrow> ok\<lparr>rc := 1, data := [65]\<rparr>
        | Ev (Write_fd f d) \<Rightarrow> failed (Eother 11) | _ \<Rightarrow> ok)) =
   [Tty (Tcsetattr 0 (raw_of (stdin_attr tty_init)))]"
proof -
  let ?k = "\<lambda>h c. case c of Ev (Read_fd f n) \<Rightarrow> ok\<lparr>rc := 1, data := [65]\<rparr>
        | Ev (Write_fd f d) \<Rightarrow> failed (Eother 11) | _ \<Rightarrow> ok"
  obtain h' where run: "process_pty 1 tty_init 5 ?k [] = (Inl (Sysf ''write()''), h')"
    by (simp add: process_pty_def pty_round_def stdin_branch_def io_simps Let_def)
  from process_pty_stays_raw [OF run] run show ?thesis by (simp add: trace_def)
qed

text \<open>
  A pflask that attaches never called open_master_pty, so its raw attributes
  are made from a zero struct instead of the terminal's: the speed bits (CBAUD,
  0x100F) are B0, and input, output and local flags are all off, whatever the
  terminal had.
\<close>

lemma attach_raw_from_zero:
  assumes "process_pty n tty_init m k [] = (Inr True, h')"
  shows "\<exists>raw. Tty (Tcsetattr 0 raw) \<in> set h' \<and> c_cflag raw AND 0x100F = 0 \<and>
    c_iflag raw = 0 \<and> c_oflag raw = 0 \<and> c_lflag raw = 0"
proof -
  obtain pre post where p: "h' = pre @ Tty (Tcgetattr 0) # post" and
    f: "filter is_tcset post = [Tty (Tcsetattr 0 (raw_of (stdin_attr tty_init))),
      Tty (Tcsetattr 0 (tio (k pre (Tty (Tcgetattr 0)))))]"
    using process_pty_Inr [OF assms] by blast
  then have "Tty (Tcsetattr 0 (raw_of (stdin_attr tty_init))) \<in> set (filter is_tcset post)" by simp
  with p show ?thesis
    by (intro exI [of _ "raw_of (stdin_attr tty_init)"])
       (simp add: raw_of_def cfmakeraw_def tty_init_def)
qed

lemma attach_raw_from_zero_example:
  "\<exists>raw. Tty (Tcsetattr 0 raw) \<in> set (trace (process_pty 1 tty_init 5) int_kernel) \<and>
     c_cflag raw AND 0x100F = 0"
proof -
  obtain h' where run: "process_pty 1 tty_init 5 int_kernel [] = (Inr True, h')"
    by (simp add: process_pty_def pty_round_def stdin_branch_def master_branch_def signal_branch_def
        close_fd_def int_kernel_def io_simps Let_def SIGINT_def SIGWINCH_def)
  from attach_raw_from_zero [OF run] run show ?thesis by (auto simp: trace_def)
qed

text \<open>
  C11: The server hands the master only to its own user: in every run, each
  message with descriptors carries exactly the master and directly follows the
  getsockopt on the same connection and a geteuid that agree on the uid.
\<close>

theorem serve_pty_same_user:
  assumes "serve_pty n fd k [] = (r, h)" and "i < length h" and "h ! i = Ev (Send_ctl s ms)"
  shows "2 \<le> i \<and> h ! (i - 2) = Ev (Getsockopt s) \<and> h ! (i - 1) = Geteuid \<and>
    map cmsg_fd ms = [fd] \<and>
    st_uid (k (take (i - 2) h) (Ev (Getsockopt s))) = of_int (rc (k (take (i - 1) h) Geteuid))"
proof -
  obtain cs where "h = [] @ cs" "vouched fd k [] cs"
    by (rule keepsE [OF serve_pty_vouched assms(1)])
  with assms(2,3) show ?thesis by (simp add: vouched_def)
qed

text \<open>A kernel with one connection (8) by the same user, on the server's socket 3.\<close>

definition peer_kernel :: kernel where
  "peer_kernel h c =
     (case c of
        Ev Epoll_wait \<Rightarrow> ok\<lparr>num := 3\<rparr>
      | Ev Socket_unix \<Rightarrow> ok\<lparr>rc := 3\<rparr>
      | Ev (Signalfd sigs) \<Rightarrow> ok\<lparr>rc := 4\<rparr>
      | Ev (Accept s) \<Rightarrow> ok\<lparr>rc := 8\<rparr>
      | Ev (Getsockopt s) \<Rightarrow> ok\<lparr>st_uid := 1000\<rparr>
      | Geteuid \<Rightarrow> ok\<lparr>rc := 1000\<rparr>
      | _ \<Rightarrow> ok)"

theorem serve_pty_same_user_witness:
  "\<exists>h i ms. h = trace (serve_pty 1 5) peer_kernel \<and> h ! i = Ev (Send_ctl 8 ms) \<and>
     map cmsg_fd ms = [5] \<and> h ! (i - 1) = Geteuid"
proof -
  let ?m = "[\<lparr>cmsg_len = 20, cmsg_level = 1, cmsg_type = 1, cmsg_fd = 5\<rparr>]"
  obtain r h where run: "serve_pty 1 5 peer_kernel [] = (r, h)" by fastforce
  then have "Ev (Send_ctl 8 ?m) \<in> set h"
    by (auto simp: serve_pty_def socket_addr_run serve_round_def accept_branch_def send_fd_def
        server_signal_def close_fd_def peer_kernel_def io_simps Let_def)
  then obtain i where i: "i < length h" "h ! i = Ev (Send_ctl 8 ?m)" by (auto simp: in_set_conv_nth)
  from serve_pty_same_user [OF run i] i run show ?thesis
    by (intro exI [of _ h] exI [of _ i] exI [of _ ?m]) (simp add: trace_def)
qed

text \<open>
  Server and client meet: for every pid the path fits in sun_path, so the
  check for a too long path never fails, and both use the same abstract
  address, which determines the pid.
\<close>

lemma pty_addresses_agree:
  "(\<exists>addr. socket_addr pid k h = (Inr addr, h) \<and> length addr < SUN_PATH \<and>
     (socket_addr pid' k' h' = (Inr addr, h') \<longleftrightarrow> pid' = pid))"
proof -
  have inj: "pid' = pid" if "tl (socket_path pid') = tl (socket_path pid)"
  proof -
    have "show_nat (unat pid') = show_nat (unat pid)"
      using that by (simp add: socket_path_def show_u32_def)
    then have "unat pid' = unat pid" by (metis digits_value_show_nat)
    then show ?thesis by (simp add: word_unat_eq_iff)
  qed
  show ?thesis
    using socket_addr_fits [of pid] inj by (auto simp: socket_addr_run SUN_PATH_def socket_path_def)
qed

text \<open>
  A descriptor that was sent is received: recv_fd skips control messages of
  other kinds and returns the descriptor of the first one that has the length,
  level and type that send_fd writes, and -1 exactly if there is none (or that
  one carries -1).
\<close>

lemma first_fd_finds:
  "first_fd ms = (case find (\<lambda>c. cmsg_len c = 20 \<and> cmsg_level c = 1 \<and> cmsg_type c = 1) ms of
     None \<Rightarrow> -1 | Some c \<Rightarrow> cmsg_fd c) \<and>
   (\<exists>ms'. send_fd sock fd = checked (Ev (Send_ctl sock ms')) ''sendmsg()'' \<and> first_fd ms' = fd)"
proof
  show "first_fd ms = (case find (\<lambda>c. cmsg_len c = 20 \<and> cmsg_level c = 1 \<and> cmsg_type c = 1) ms of
     None \<Rightarrow> -1 | Some c \<Rightarrow> cmsg_fd c)"
    by (induction ms) auto
  show "\<exists>ms'. send_fd sock fd = checked (Ev (Send_ctl sock ms')) ''sendmsg()'' \<and> first_fd ms' = fd"
    unfolding send_fd_def by (rule exI, rule conjI, rule refl) simp
qed

end
