(* ===== verification/Pflask.thy ===== *)
theory Pflask
  imports Dev Netif Cgroup Capabilities Machine Pty
begin

text \<open>
  pflask.c: main.  The options become a configuration (lists and clone flags),
  then the process clones; the child sets up and enters the container, the
  parent sets up what the child cannot, and then relays or serves the terminal
  until the container ends.

  Parameters are what the preprocessor decides (a record), libcap-ng's table of
  names, and the contents of malloc'ed blocks.  The option parser is not part of this file: \<open>args\<close> is the
  record that cmdline_parser fills.
\<close>

unbundle bit_operations_syntax

section \<open>Options and configuration\<close>

record build =
  b_overlay :: ovl_build
  b_newcgroup :: bool
  b_capng :: bool
  b_dbus :: bool

text \<open>
  The fields of struct gengetopt_args_info that main reads.  An argument that
  was not given is None, or an empty list; each --netif has an optional argument.
\<close>

record args =
  mount_arg :: "cstring list"
  netif_arg :: "cstring option list"
  user_given :: bool
  user_arg :: cstring
  user_map_arg :: "cstring list"
  cgroup_arg :: "cstring list"
  caps_arg :: "cstring list"
  no_userns :: bool
  no_mountns :: bool
  no_netns :: bool
  no_ipcns :: bool
  no_utsns :: bool
  no_pidns :: bool
  attach_arg :: "u32 option"
  detach_flag :: bool
  ephemeral_flag :: bool
  hostname_arg :: "cstring option"
  chroot_arg :: "path option"
  chdir_arg :: "path option"
  keepenv_flag :: bool
  setenv_arg :: "cstring list"
  command :: "cstring list"

record conf =
  cf_flags :: u32
  cf_mounts :: "mount list"
  cf_netifs :: "netif list"
  cf_users :: "user list"
  cf_cgroups :: "cgroup list"
  cf_caps :: "capability list"

definition CLONE_NEWNS :: u32 where "CLONE_NEWNS = 0x20000"
definition CLONE_NEWCGROUP :: u32 where "CLONE_NEWCGROUP = 0x2000000"
definition CLONE_NEWUTS :: u32 where "CLONE_NEWUTS = 0x4000000"
definition CLONE_NEWIPC :: u32 where "CLONE_NEWIPC = 0x8000000"
definition CLONE_NEWUSER :: u32 where "CLONE_NEWUSER = 0x10000000"
definition CLONE_NEWPID :: u32 where "CLONE_NEWPID = 0x20000000"
definition CLONE_NEWNET :: u32 where "CLONE_NEWNET = 0x40000000"

definition init_conf :: "build \<Rightarrow> conf" where
  "init_conf build =
     \<lparr>cf_flags = CLONE_NEWNS OR CLONE_NEWIPC OR CLONE_NEWPID OR
        (if b_newcgroup build then CLONE_NEWCGROUP else 0) OR CLONE_NEWUTS,
      cf_mounts = [], cf_netifs = [], cf_users = [], cf_cgroups = [], cf_caps = []\<rparr>"

text \<open>One function per loop body of main, in the order of the loops.\<close>

definition opt_mount :: "build \<Rightarrow> conf \<Rightarrow> cstring \<Rightarrow> conf io" where
  "opt_mount build c arg =
     io_bind (io_lift (validate_optlist plenty (Some arg))) (\<lambda>_.
     io_bind (io_lift (mount_add_from_spec (b_overlay build) (cf_mounts c) arg)) (\<lambda>ms.
       io_ret (c\<lparr>cf_mounts := ms\<rparr>)))"

definition opt_netif :: "conf \<Rightarrow> cstring option \<Rightarrow> conf io" where
  "opt_netif c arg =
     (let c = c\<lparr>cf_flags := cf_flags c OR CLONE_NEWNET\<rparr> in
      io_bind (io_lift (validate_optlist plenty arg)) (\<lambda>_.
      io_bind (netif_add_from_spec (cf_netifs c) arg) (\<lambda>ifs.
        io_ret (c\<lparr>cf_netifs := ifs\<rparr>))))"

definition opt_user :: "args \<Rightarrow> conf \<Rightarrow> conf io" where
  "opt_user args c =
     (if user_given args \<and> user_map_arg args = [] then
        io_bind (user_get_uid_gid (user_arg args)) (\<lambda>(found, uid, gid).
          let c = c\<lparr>cf_flags := cf_flags c OR CLONE_NEWUSER\<rparr> in
          io_ret
            (if found
             then c\<lparr>cf_users := user_add_map (user_add_map (cf_users c) CHR ''u'' uid uid 1)
                                  CHR ''g'' gid gid 1\<rparr>
             else c))
      else io_ret c)"

definition opt_user_map :: "conf \<Rightarrow> cstring \<Rightarrow> conf io" where
  "opt_user_map c arg =
     io_bind (io_lift (handle_user_map (cf_users c) arg)) (\<lambda>us.
       io_ret (c\<lparr>cf_flags := cf_flags c OR CLONE_NEWUSER, cf_users := us\<rparr>))"

definition opt_cgroup :: "conf \<Rightarrow> cstring \<Rightarrow> conf io" where
  "opt_cgroup c arg =
     io_bind (cgroup_add (cf_cgroups c) arg) (\<lambda>gs. io_ret (c\<lparr>cf_cgroups := gs\<rparr>))"

definition opt_cap :: "build \<Rightarrow> (cstring \<Rightarrow> int) \<Rightarrow> conf \<Rightarrow> cstring \<Rightarrow> conf io" where
  "opt_cap build to_cap c arg =
     (if b_capng build
      then io_bind (io_lift (capability_add to_cap (cf_caps c) arg)) (\<lambda>caps.
             io_ret (c\<lparr>cf_caps := caps\<rparr>))
      else io_ret c)"

definition clear_flag :: "bool \<Rightarrow> u32 \<Rightarrow> u32 \<Rightarrow> u32" where
  "clear_flag given flag f = (if given then f AND NOT flag else f)"

definition share_namespaces :: "args \<Rightarrow> u32 \<Rightarrow> u32" where
  "share_namespaces args f =
     (let f = clear_flag (no_userns args) CLONE_NEWUSER f;
          f = clear_flag (no_mountns args) CLONE_NEWNS f;
          f = clear_flag (no_netns args) CLONE_NEWNET f;
          f = clear_flag (no_ipcns args) CLONE_NEWIPC f;
          f = clear_flag (no_utsns args) CLONE_NEWUTS f
      in clear_flag (no_pidns args) CLONE_NEWPID f)"

definition configure :: "build \<Rightarrow> (cstring \<Rightarrow> int) \<Rightarrow> args \<Rightarrow> conf io" where
  "configure build to_cap args =
     io_bind (io_fold (opt_mount build) (init_conf build) (mount_arg args)) (\<lambda>c.
     io_bind (io_fold opt_netif c (netif_arg args)) (\<lambda>c.
     io_bind (opt_user args c) (\<lambda>c.
     io_bind (io_fold opt_user_map c (user_map_arg args)) (\<lambda>c.
     io_bind (io_fold opt_cgroup c (cgroup_arg args)) (\<lambda>c.
     io_bind (io_fold (opt_cap build to_cap) c (caps_arg args)) (\<lambda>c.
       io_ret (c\<lparr>cf_flags := share_namespaces args (cf_flags c)\<rparr>)))))))"

section \<open>Cloning\<close>

text \<open>The flags with SIGCHLD (17); an old kernel without user namespaces says EINVAL.\<close>

definition do_clone :: "u32 \<Rightarrow> (int \<times> u32) io" where
  "do_clone flags =
     (let flags = flags OR 17 in
      io_bind (sys (Clone flags)) (\<lambda>r.
      io_bind
        (if rc r < 0 \<and> errno r = EINVAL then
           let flags = flags AND NOT CLONE_NEWUSER in
           io_bind (sys (Clone flags)) (\<lambda>r. io_ret (rc r, flags))
         else io_ret (rc r, flags)) (\<lambda>(pid, flags).
      io_seq (sys_fail_if (pid < 0) ''Error cloning process'') (io_ret (pid, flags)))))"

definition do_chroot :: "path \<Rightarrow> unit io" where
  "do_chroot dest =
     io_seq (checked (Chdir dest) ''chdir()'')
     (io_seq (checked (Chroot ''.'') ''Error chrooting'')
       (checked (Chdir ''/'') ''chdir(/)''))"

text \<open>The call of openlog does not fail and is left out.\<close>

definition do_daemonize :: "unit io" where
  "do_daemonize = checked (Proc Daemon) ''Error daemonizing''"

section \<open>The child\<close>

definition setup_root :: "path \<Rightarrow> cstring \<Rightarrow> unit io" where
  "setup_root dest master =
     io_seq (setup_nodes dest)
     (io_seq (setup_ptmx dest)
     (io_seq (setup_symlinks dest)
     (io_seq (setup_console dest master)
       (do_chroot dest))))"

definition setup_env :: "args \<Rightarrow> unit io" where
  "setup_env args =
     io_seq
       (if chroot_arg args \<noteq> None then
          io_bind (sys (Getenv ''TERM'')) (\<lambda>t.
          io_seq (if keepenv_flag args then io_ret ok else sys (Proc Clearenv))
          (io_seq (sys (Proc (Setenv ''PATH'' ''/usr/sbin:/usr/bin:/sbin:/bin'')))
          (io_seq (sys (Proc (Setenv ''USER'' (user_arg args))))
          (io_seq (sys (Proc (Setenv ''LOGNAME'' (user_arg args))))
            (case sdata t of
               None \<Rightarrow> io_ret ()
             | Some term \<Rightarrow> io_bind (sys (Proc (Setenv ''TERM'' term))) (\<lambda>_. io_ret ()))))))
        else io_ret ())
       (io_seq
         (io_iter (\<lambda>e. io_bind (sys (Proc (Putenv e))) (\<lambda>r.
            sys_fail_if (rc r \<noteq> 0) ''Error setting environment'')) (setenv_arg args))
         (io_bind (sys (Proc (Setenv ''container'' ''pflask''))) (\<lambda>_. io_ret ())))"

definition exec_call :: "args \<Rightarrow> call" where
  "exec_call args =
     (case command args of
        [] \<Rightarrow> Proc (Exec ''/bin/bash'' [''-bash''])
      | c # cs \<Rightarrow> Proc (Exec c (c # cs)))"

text \<open>From the barrier on; what follows the mounts is in child_tail.\<close>

definition child_tail :: "build \<Rightarrow> (call list \<Rightarrow> byte list) \<Rightarrow> args \<Rightarrow> conf \<Rightarrow> u32 \<Rightarrow> unit io" where
  "child_tail build junk args c flags =
     io_seq (if flags AND CLONE_NEWNET \<noteq> 0 then config_netif junk else io_ret ())
     (io_seq (sys (Umask 0x12))
     (io_seq (if b_capng build then setup_capabilities (cf_caps c) else io_ret ())
     (io_seq (case chdir_arg args of None \<Rightarrow> io_ret ()
              | Some d \<Rightarrow> checked (Chdir d) ''Error changing cwd'')
     (io_seq (setup_env args)
       (checked (exec_call args) ''Error executing command'')))))"

definition child ::
  "build \<Rightarrow> (call list \<Rightarrow> byte list) \<Rightarrow> args \<Rightarrow> conf \<Rightarrow> u32 \<Rightarrow> int \<Rightarrow> cstring \<Rightarrow> tty_state \<Rightarrow>
   path option \<Rightarrow> sync_fds \<Rightarrow> unit io" where
  "child build junk args c flags master_fd master st ephemeral_dir fds =
     io_seq (close_fd master_fd)
     (io_seq (checked (Proc Prctl) ''prctl(PR_SET_PDEATHSIG)'')
     (io_seq (checked (Proc Setsid) ''setsid()'')
     (io_seq (sync_barrier_parent fds SYNC_START)
     (io_seq (sync_close fds)
     (io_seq (open_slave_pty st master)
     (io_seq (setup_user (user_arg args))
     (io_seq (case hostname_arg args of None \<Rightarrow> io_ret ()
              | Some n \<Rightarrow> checked (Proc (Sethostname n)) ''Error setting hostname'')
     (io_seq (setup_mount (b_overlay build) (cf_mounts c) (chroot_arg args) ephemeral_dir)
     (io_seq (case chroot_arg args of None \<Rightarrow> io_ret () | Some dest \<Rightarrow> setup_root dest master)
       (child_tail build junk args c flags))))))))))"

section \<open>The parent\<close>

definition parent_setup ::
  "build \<Rightarrow> (call list \<Rightarrow> byte list) \<Rightarrow> args \<Rightarrow> conf \<Rightarrow> u32 \<Rightarrow>
   int \<Rightarrow> cstring \<Rightarrow> unit io" where
  "parent_setup build junk args c flags pid master =
     io_seq (if chroot_arg args \<noteq> None \<and> flags AND CLONE_NEWUSER \<noteq> 0
             then setup_console_owner master (cf_users c) else io_ret ())
     (io_seq (setup_cgroup (cf_cgroups c) pid)
     (io_seq (setup_netif junk (cf_netifs c) (of_int pid))
     (io_seq (if b_dbus build
              then register_machine pid (case chroot_arg args of Some d \<Rightarrow> d | None \<Rightarrow> '''')
              else io_ret ())
       (if flags AND CLONE_NEWUSER \<noteq> 0 then setup_user_map (cf_users c) (of_int pid)
        else io_ret ()))))"

definition parent_sync ::
  "build \<Rightarrow> (call list \<Rightarrow> byte list) \<Rightarrow> args \<Rightarrow> conf \<Rightarrow> u32 \<Rightarrow>
   int \<Rightarrow> cstring \<Rightarrow> sync_fds \<Rightarrow> sync_fds io" where
  "parent_sync build junk args c flags pid master fds =
     io_seq (sync_wait_child fds SYNC_START)
     (io_seq (parent_setup build junk args c flags pid master)
     (io_seq (sync_wake_child fds SYNC_DONE)
       (sync_close fds)))"

text \<open>
  The end of the container; the result is the exit status of main.  What it prints
  about the container's end is in Messages.
\<close>

definition parent_end :: "conf \<Rightarrow> int \<Rightarrow> sync_fds \<Rightarrow> path option \<Rightarrow> int io" where
  "parent_end c pid fds ephemeral_dir =
     io_seq (sys (Proc (Kill pid)))
     (io_bind (sys (Proc (Waitid pid))) (\<lambda>w.
     io_seq (sys_fail_if (rc w < 0) ''Error waiting for child'')
     (io_seq (sync_close fds)
     (io_seq (clean_cgroup (cf_cgroups c))
     (io_seq (case ephemeral_dir of None \<Rightarrow> io_ret ()
              | Some d \<Rightarrow> io_bind (sys (Rmdir d)) (\<lambda>r.
                  sys_fail_if (rc r \<noteq> 0) ''Error deleting ephemeral directory: %s''))
       (io_ret (num w)))))))"

section \<open>main\<close>

text \<open>
  \<open>n\<close> bounds the rounds of the terminal loops; the result None means that the
  process is still relaying.  After the clone the same program continues in both
  processes, and the pid decides.  The child's program ends with exec.
\<close>

definition attach :: "nat \<Rightarrow> u32 \<Rightarrow> int option io" where
  "attach n pid =
     io_bind (recv_pty pid) (\<lambda>master_fd.
     io_seq (fail_if (master_fd < 0) ''Invalid PID %u'')
     (io_bind (process_pty n tty_init master_fd) (\<lambda>done.
       if \<not> done then io_ret None
       else io_seq (close_fd master_fd) (io_ret (Some 0)))))"

definition make_ephemeral :: "args \<Rightarrow> path option io" where
  "make_ephemeral args =
     (if ephemeral_flag args then
        io_bind (sys (Mkdtemp ''/tmp/pflask-ephemeral-XXXXXX'')) (\<lambda>r.
          case sdata r of None \<Rightarrow> io_stop (Sysf ''mkdtemp()'') | Some d \<Rightarrow> io_ret (Some d))
      else io_ret None)"

definition parent ::
  "build \<Rightarrow> (call list \<Rightarrow> byte list) \<Rightarrow> nat \<Rightarrow> args \<Rightarrow> conf \<Rightarrow> u32 \<Rightarrow>
   int \<Rightarrow> int \<Rightarrow> cstring \<Rightarrow> tty_state \<Rightarrow> path option \<Rightarrow> sync_fds \<Rightarrow>
   int option io" where
  "parent build junk n args c flags pid master_fd master st ephemeral_dir fds =
     io_bind (parent_sync build junk args c flags pid master fds) (\<lambda>fds.
     io_bind (if detach_flag args then serve_pty n master_fd else process_pty n st master_fd) (\<lambda>done.
       if \<not> done then io_ret None
       else io_bind (parent_end c pid fds ephemeral_dir) (\<lambda>status.
         io_seq (close_fd master_fd) (io_ret (Some status)))))"

definition start_container ::
  "build \<Rightarrow> (call list \<Rightarrow> byte list) \<Rightarrow> nat \<Rightarrow> args \<Rightarrow> conf \<Rightarrow>
   int \<Rightarrow> cstring \<Rightarrow> tty_state \<Rightarrow> int option io" where
  "start_container build junk n args c master_fd master st =
     io_seq (if detach_flag args then do_daemonize else io_ret ())
     (io_bind sync_init (\<lambda>fds.
      io_bind (make_ephemeral args) (\<lambda>ephemeral_dir.
     io_bind (do_clone (cf_flags c)) (\<lambda>(pid, flags).
       if pid = 0 then
         io_seq (child build junk args c flags master_fd master st ephemeral_dir fds) (io_ret None)
       else parent build junk n args c flags pid master_fd master st ephemeral_dir fds))))"

definition run_main ::
  "build \<Rightarrow> (cstring \<Rightarrow> int) \<Rightarrow> (call list \<Rightarrow> byte list) \<Rightarrow> nat \<Rightarrow>
   args \<Rightarrow> int option io" where
  "run_main build to_cap junk n args =
     io_bind (configure build to_cap args) (\<lambda>c.
     case attach_arg args of
       Some pid \<Rightarrow> attach n pid
     | None \<Rightarrow>
         io_bind (open_master_pty tty_init) (\<lambda>(master_fd, master, st).
           start_container build junk n args c master_fd master st))"

section \<open>Calls that the components do not make\<close>

text \<open>
  The calls of the synchronisation, of the child's two preparations and of its
  exec; with the mounts of Mount, the calls that the properties of main watch.
\<close>

definition is_step :: "call \<Rightarrow> bool" where
  "is_step c =
     (case c of
        Proc p \<Rightarrow> (case p of Prctl \<Rightarrow> True | Setsid \<Rightarrow> True | Exec f a \<Rightarrow> True | _ \<Rightarrow> False)
      | Sync s \<Rightarrow> True
      | _ \<Rightarrow> False)"

definition watched :: "(call \<Rightarrow> bool) \<Rightarrow> bool" where
  "watched P \<longleftrightarrow> P = is_step \<or> P = is_mount"

lemma watched_not [simp]:
  assumes "watched P"
  shows "\<not> P (Tty t)" "\<not> P (Ev e)" "\<not> P (Open p f m)" "\<not> P (Getpwnam s)" "\<not> P (Setresgid a b c)"
    "\<not> P (Setresuid a b c)" "\<not> P (Setgroups n)" "\<not> P Socket" "\<not> P Bind" "\<not> P (Sendmsg d)"
    "\<not> P (Recvmsg n)" "\<not> P Close" "\<not> P Getpid" "\<not> P (Umask w)" "\<not> P (Cap cc)" "\<not> P (Chdir p)"
    "\<not> P (Chroot p)" "\<not> P (Getenv s)" "\<not> P (Symlink s p)" "\<not> P (Chmod p m)"
    "\<not> P (Proc (Setenv s v))" "\<not> P (Proc Clearenv)" "\<not> P (Proc (Putenv s))" "\<not> P (Proc (Sethostname s))"
  using assms by (auto simp: watched_def is_step_def is_mount_def)

lemma is_step_simps [simp]:
  "is_step (Proc Prctl)" "is_step (Proc Setsid)" "is_step (Proc (Exec f a))" "is_step (Sync y)"
  "\<not> is_step (Mount s1 s2 s3 s4 s5)" "\<not> is_step (Stat p)" "\<not> is_step (Mkdir p m)"
  by (simp_all add: is_step_def)

lemma is_mount_more [simp]: "\<not> is_mount (Proc p)" "\<not> is_mount (Sync s)"
  by (simp_all add: is_mount_def)

lemma watched_cases: "watched is_step" "watched is_mount"
  by (simp_all add: watched_def)

lemmas avoids_intros = avoid.keeps_intros keeps_avoids_iter avoids_one

lemma close_fd_avoids: "watched P \<Longrightarrow> keeps (avoids P) (close_fd fd)"
  unfolding close_fd_def by (auto intro!: avoids_intros)

lemma open_slave_avoids: "watched P \<Longrightarrow> keeps (avoids P) (open_slave_pty st m)"
  unfolding open_slave_pty_def Let_def by (auto intro!: avoids_intros close_fd_avoids)

lemma setup_user_avoids: "watched P \<Longrightarrow> keeps (avoids P) (setup_user u)"
  unfolding setup_user_def user_get_uid_gid_def
  by (auto intro!: avoids_intros split: prod.split)

lemma io_malloc_avoids: "keeps (avoids P) (io_malloc junk)"
  by (simp add: keeps_def io_malloc_def avoids_def)

lemma nl_transact_avoids: "watched P \<Longrightarrow> keeps (avoids P) (nl_transact r)"
  unfolding nl_transact_def nl_send_def nl_recv_def Let_def
  by (cases r) (auto intro!: avoids_intros)

lemma config_netif_avoids: "watched P \<Longrightarrow> keeps (avoids P) (config_netif junk)"
  unfolding config_netif_def nl_open_def if_up_def
  by (auto intro!: avoids_intros io_malloc_avoids nl_transact_avoids)

lemma setup_capabilities_avoids: "watched P \<Longrightarrow> keeps (avoids P) (setup_capabilities caps)"
  unfolding setup_capabilities_def apply_one_def by (auto intro!: avoids_intros)

lemma setup_env_avoids: "watched P \<Longrightarrow> keeps (avoids P) (setup_env args)"
  unfolding setup_env_def by (auto intro!: avoids_intros split: option.split)

lemma do_chroot_avoids: "watched P \<Longrightarrow> keeps (avoids P) (do_chroot d)"
  unfolding do_chroot_def by (auto intro!: avoids_intros)

lemma setup_root_steps: "keeps (avoids is_step) (setup_root d m)"
  unfolding setup_root_def setup_nodes_def setup_one_node_def setup_ptmx_def setup_symlinks_def
    setup_console_def Let_def
  by (auto intro!: avoids_intros do_chroot_avoids simp: watched_cases split: prod.split)

lemma lift_avoids: "keeps (avoids P) (io_lift r)"
  by (simp add: keeps_def io_lift_def avoids_def)

lemma setup_mount_steps: "keeps (avoids is_step) (setup_mount b ms dest e)"
  unfolding setup_mount_def setup_ephemeral_def setup_one_mount_def make_mount_dir_def
    make_bind_dest_def Let_def
  by (auto intro!: avoids_intros lift_avoids simp: watched_cases split: option.split)

text \<open>The same with the exec at the end of the child.\<close>

lemma child_tail_run:
  assumes "child_tail build junk args c flags k h = (Inr u, h')" and P: "watched P"
  shows "\<exists>cs. h' = h @ cs @ [exec_call args] \<and> filter P cs = []"
proof -
  let ?m = "io_seq (if flags AND CLONE_NEWNET \<noteq> 0 then config_netif junk else io_ret ())
     (io_seq (sys (Umask 0x12))
     (io_seq (if b_capng build then setup_capabilities (cf_caps c) else io_ret ())
     (io_seq (case chdir_arg args of None \<Rightarrow> io_ret ()
              | Some d \<Rightarrow> checked (Chdir d) ''Error changing cwd'')
       (setup_env args))))"
  have "keeps (avoids P) ?m"
    using P by (auto intro!: avoids_intros config_netif_avoids setup_capabilities_avoids setup_env_avoids
        split: option.split)
  moreover have "child_tail build junk args c flags =
      io_seq ?m (checked (exec_call args) ''Error executing command'')"
    by (simp only: child_tail_def io_seq_def io_bind_assoc)
  then obtain h1 where "?m k h = (Inr (), h1)" "h' = h1 @ [exec_call args]"
    using assms(1) by (auto simp: io_Inr_iffs)
  ultimately show ?thesis
    using keepsE by (fastforce simp: avoids_def)
qed

section \<open>The child's calls\<close>

text \<open>What an operation of the protocol is in terms of calls.\<close>

definition end_fd :: "sync_fds \<Rightarrow> nat \<Rightarrow> int" where
  "end_fd fds e = (if e = 0 then fst fds else snd fds)"

definition close_calls :: "sync_fds \<Rightarrow> call list" where
  "close_calls fds = map (\<lambda>f. Sync (Close_fd f)) (filter (\<lambda>f. f \<noteq> -1) [fst fds, snd fds])"

fun op_calls :: "sync_fds \<Rightarrow> call \<Rightarrow> op \<Rightarrow> call list" where
  "op_calls fds x (Do A_prctl) = [Proc Prctl]"
| "op_calls fds x (Do A_setsid) = [Proc Setsid]"
| "op_calls fds x (Do A_run) = [x]"
| "op_calls fds x (Do _) = []"
| "op_calls fds x (Wake e v) = [Sync (Write_int (end_fd fds e) v)]"
| "op_calls fds x (Wait e v) = [Sync (Read_int (end_fd fds e))]"
| "op_calls fds x Close_ends = close_calls fds"

lemma barrier_run:
  "sync_barrier_parent fds v k h = (Inr u, h') \<Longrightarrow>
   h' = h @ [Sync (Write_int (fst fds) v), Sync (Read_int (fst fds))]"
  by (auto simp: sync_barrier_parent_def sync_barrier_def sync_wake_def sync_wait_def io_Inr_iffs
      io_lift_Inr_iff)

lemma sync_close_run:
  "sync_close fds k h = (Inr fds', h') \<Longrightarrow> h' = h @ close_calls fds \<and> fds' = (-1, -1)"
  by (cases fds)
     (auto simp: sync_close_def sync_close_child_def sync_close_parent_def close_calls_def io_Inr_iffs
       split: if_splits)

lemma close_calls_filter [simp]:
  "filter is_step (close_calls fds) = close_calls fds" "filter is_mount (close_calls fds) = []"
  by (simp_all add: close_calls_def)

lemma end_fd_simps [simp]: "end_fd fds 0 = fst fds" "end_fd fds (Suc 0) = snd fds"
  by (simp_all add: end_fd_def)

lemma is_step_exec [simp]: "is_step (exec_call args)"
  by (simp add: exec_call_def split: list.split)

lemma is_mount_exec [simp]: "\<not> is_mount (exec_call args)"
  by (simp add: exec_call_def split: list.split)

lemma child_parts:
  assumes "child build junk args c flags master_fd master st e fds k h = (Inr u, h')"
  obtains h1 h2 h3 h4 h5 h6 where
    "close_fd master_fd k h = (Inr (), h1)"
    "open_slave_pty st master k (h1 @ [Proc Prctl, Proc Setsid, Sync (Write_int (fst fds) 0), Sync (Read_int (fst fds))] @
        close_calls fds) = (Inr (), h2)"
    "setup_user (user_arg args) k h2 = (Inr (), h3)"
    "(case hostname_arg args of None \<Rightarrow> io_ret ()
      | Some n \<Rightarrow> checked (Proc (Sethostname n)) ''Error setting hostname'') k h3 = (Inr (), h4)"
    "setup_mount (b_overlay build) (cf_mounts c) (chroot_arg args) e k h4 = (Inr (), h5)"
    "(case chroot_arg args of None \<Rightarrow> io_ret () | Some dest \<Rightarrow> setup_root dest master) k h5 = (Inr (), h6)"
    "child_tail build junk args c flags k h6 = (Inr u, h')"
proof -
  obtain h1 g1 g2 h2 h3 h4 h5 h6 x y where
    1: "close_fd master_fd k h = (Inr (), h1)"
    and b: "sync_barrier_parent fds SYNC_START k (h1 @ [Proc Prctl, Proc Setsid]) = (Inr x, g1)"
    and cl: "sync_close fds k g1 = (Inr y, g2)"
    and rest: "open_slave_pty st master k g2 = (Inr (), h2)"
    "setup_user (user_arg args) k h2 = (Inr (), h3)"
    "(case hostname_arg args of None \<Rightarrow> io_ret ()
      | Some n \<Rightarrow> checked (Proc (Sethostname n)) ''Error setting hostname'') k h3 = (Inr (), h4)"
    "setup_mount (b_overlay build) (cf_mounts c) (chroot_arg args) e k h4 = (Inr (), h5)"
    "(case chroot_arg args of None \<Rightarrow> io_ret () | Some dest \<Rightarrow> setup_root dest master) k h5 = (Inr (), h6)"
    "child_tail build junk args c flags k h6 = (Inr u, h')"
    using assms unfolding child_def by (auto simp only: io_seq_Inr_iff checked_Inr_iff append_assoc append.simps)
  have "g2 = h1 @ [Proc Prctl, Proc Setsid, Sync (Write_int (fst fds) 0), Sync (Read_int (fst fds))] @
        close_calls fds"
    using barrier_run [OF b] sync_close_run [OF cl] by (simp add: SYNC_START_def)
  with 1 rest show ?thesis using that by blast
qed

lemma hostname_avoids:
  "watched P \<Longrightarrow> keeps (avoids P) (case hostname_arg args of None \<Rightarrow> io_ret ()
      | Some n \<Rightarrow> checked (Proc (Sethostname n)) ''Error setting hostname'')"
  by (auto intro!: avoids_intros split: option.split)

lemma child_steps:
  assumes "child build junk args c flags master_fd master st e fds k [] = (Inr u, h')"
  shows "filter is_step h' = concat (map (op_calls fds (exec_call args)) (program Child))"
proof -
  from assms show ?thesis
  proof (rule child_parts)
    fix h1 h2 h3 h4 h5 h6
    assume r: "close_fd master_fd k [] = (Inr (), h1)"
      "open_slave_pty st master k (h1 @ [Proc Prctl, Proc Setsid, Sync (Write_int (fst fds) 0), Sync (Read_int (fst fds))] @
        close_calls fds) = (Inr (), h2)"
      "setup_user (user_arg args) k h2 = (Inr (), h3)"
      "(case hostname_arg args of None \<Rightarrow> io_ret ()
        | Some n \<Rightarrow> checked (Proc (Sethostname n)) ''Error setting hostname'') k h3 = (Inr (), h4)"
      "setup_mount (b_overlay build) (cf_mounts c) (chroot_arg args) e k h4 = (Inr (), h5)"
      "(case chroot_arg args of None \<Rightarrow> io_ret () | Some dest \<Rightarrow> setup_root dest master) k h5 = (Inr (), h6)"
      "child_tail build junk args c flags k h6 = (Inr u, h')"
    have root: "keeps (avoids is_step) (case chroot_arg args of None \<Rightarrow> io_ret () | Some dest \<Rightarrow> setup_root dest master)"
      by (auto intro!: avoids_intros setup_root_steps split: option.split)
    have "filter is_step h6 = [Proc Prctl, Proc Setsid, Sync (Write_int (fst fds) 0), Sync (Read_int (fst fds))] @
        close_calls fds"
      using keeps_avoids_filter [OF close_fd_avoids [OF watched_cases(1)] r(1)]
        keeps_avoids_filter [OF open_slave_avoids [OF watched_cases(1)] r(2)]
        keeps_avoids_filter [OF setup_user_avoids [OF watched_cases(1)] r(3)]
        keeps_avoids_filter [OF hostname_avoids [OF watched_cases(1)] r(4)]
        keeps_avoids_filter [OF setup_mount_steps r(5)]
        keeps_avoids_filter [OF root r(6)] by simp
    with child_tail_run [OF r(7) watched_cases(1)] show ?thesis
      by (auto simp: program_simps)
  qed
qed

text \<open>The mounts and the change of root that follow setup_mount.\<close>

definition root_mounts :: "path \<Rightarrow> cstring \<Rightarrow> call list" where
  "root_mounts dest master =
     map (\<lambda>n. Mount (Some n) (dest @ n) None MS_BIND None) node_list @
     [Mount (Some master) (dest @ ''/dev/console'') None MS_BIND None]"

lemma node_calls_mounts:
  "filter is_mount (concat (map (node_calls dest) ns)) =
     map (\<lambda>n. Mount (Some n) (dest @ n) None MS_BIND None) ns"
  by (induction ns) (simp_all add: node_calls_def)

lemma setup_nodes_mounts:
  assumes "setup_nodes dest k h = (Inr u, h')"
  shows "filter is_mount h' = filter is_mount h @
    map (\<lambda>n. Mount (Some n) (dest @ n) None MS_BIND None) node_list"
proof -
  obtain v h1 w where loop: "io_iter (setup_one_node dest) node_list k (h @ [Umask 0]) = (Inr v, h1)"
    and h': "h' = h1 @ [Umask w]"
    using assms by (auto simp: setup_nodes_def io_Inr_iffs)
  have "h1 = (h @ [Umask 0]) @ concat (map (node_calls dest) node_list)"
    using issues_Inr [OF dev_nodes.iter_issues loop] .
  with h' show ?thesis by (simp add: node_calls_mounts watched_cases)
qed

lemma setup_root_run:
  assumes "setup_root dest master k h = (Inr u, h')"
  shows "\<exists>cs. h' = cs @ [Chdir dest, Chroot ''.'', Chdir ''/''] \<and>
    filter is_mount cs = filter is_mount h @ root_mounts dest master"
proof -
  obtain h1 h2 h3 h4 where p: "setup_nodes dest k h = (Inr (), h1)" "setup_ptmx dest k h1 = (Inr (), h2)"
    "setup_symlinks dest k h2 = (Inr (), h3)" "setup_console dest master k h3 = (Inr (), h4)"
    "do_chroot dest k h4 = (Inr u, h')"
    using assms by (auto simp: setup_root_def io_seq_Inr_iff)
  have ptmx: "keeps (avoids is_mount) (setup_ptmx dest)" and sym: "keeps (avoids is_mount) (setup_symlinks dest)"
    unfolding setup_ptmx_def setup_symlinks_def
    by (auto intro!: avoids_intros simp: watched_cases split: prod.split)
  have "filter is_mount h3 = filter is_mount h @
      map (\<lambda>n. Mount (Some n) (dest @ n) None MS_BIND None) node_list"
    using setup_nodes_mounts [OF p(1)] keeps_avoids_filter [OF ptmx p(2)] keeps_avoids_filter [OF sym p(3)]
    by simp
  moreover have "h4 = h3 @ [Chmod master 0x180, Mount (Some master) (dest @ ''/dev/console'') None MS_BIND None]"
    using p(4) by (auto simp: setup_console_def io_Inr_iffs)
  ultimately have "filter is_mount h4 = filter is_mount h @ root_mounts dest master"
    by (simp add: root_mounts_def watched_cases)
  moreover have "h' = h4 @ [Chdir dest, Chroot ''.'', Chdir ''/'']"
    using p(5) by (auto simp: do_chroot_def io_Inr_iffs)
  ultimately show ?thesis by blast
qed

lemma child_mounts_run:
  assumes "child build junk args c flags master_fd master st e fds k [] = (Inr u, h')"
    and "chroot_arg args = Some dest"
  shows "\<exists>pre post. h' = pre @ [Chdir dest, Chroot ''.'', Chdir ''/''] @ post @ [exec_call args] \<and>
    filter is_mount pre = slave_root # ephemeral_mounts (Some dest) e @
      map (mount_call (Some dest)) (system_mounts dest (root_overlay (b_overlay build) e) @ cf_mounts c) @
      root_mounts dest master \<and>
    filter is_mount post = []"
  using assms(1)
proof (rule child_parts)
  fix h1 h2 h3 h4 h5 h6
  assume r: "close_fd master_fd k [] = (Inr (), h1)"
    "open_slave_pty st master k (h1 @ [Proc Prctl, Proc Setsid, Sync (Write_int (fst fds) 0), Sync (Read_int (fst fds))] @
        close_calls fds) = (Inr (), h2)"
    "setup_user (user_arg args) k h2 = (Inr (), h3)"
    "(case hostname_arg args of None \<Rightarrow> io_ret ()
      | Some n \<Rightarrow> checked (Proc (Sethostname n)) ''Error setting hostname'') k h3 = (Inr (), h4)"
    "setup_mount (b_overlay build) (cf_mounts c) (chroot_arg args) e k h4 = (Inr (), h5)"
    "(case chroot_arg args of None \<Rightarrow> io_ret () | Some dest \<Rightarrow> setup_root dest master) k h5 = (Inr (), h6)"
    "child_tail build junk args c flags k h6 = (Inr u, h')"
  have h4: "filter is_mount h4 = []"
    using keeps_avoids_filter [OF close_fd_avoids [OF watched_cases(2)] r(1)]
      keeps_avoids_filter [OF open_slave_avoids [OF watched_cases(2)] r(2)]
      keeps_avoids_filter [OF setup_user_avoids [OF watched_cases(2)] r(3)]
      keeps_avoids_filter [OF hostname_avoids [OF watched_cases(2)] r(4)] by simp
  have "setup_root dest master k h5 = (Inr (), h6)" using r(6) assms(2) by simp
  from setup_root_run [OF this] obtain pre where pre: "h6 = pre @ [Chdir dest, Chroot ''.'', Chdir ''/'']"
    "filter is_mount pre = filter is_mount h5 @ root_mounts dest master" by blast
  from child_tail_run [OF r(7) watched_cases(2)] obtain post where
    "h' = h6 @ post @ [exec_call args]" "filter is_mount post = []" by blast
  with pre setup_mount_mounts [OF r(5)] h4 assms(2) show ?thesis
    by (intro exI [of _ pre] exI [of _ post]) simp
qed

section \<open>The parent's calls\<close>

lemma setup_console_owner_grows [grows_intros]: "grows (setup_console_owner p us)"
proof -
  have s: "grows (sync_close fds)" for fds
    unfolding sync_close_def sync_close_child_def sync_close_parent_def by (auto intro!: grows_intros)
  have w: "grows (sync_wait fd v)" "grows (sync_wake fd v)" for fd v
    unfolding sync_wait_def sync_wake_def by (auto intro!: grows_intros)
  have o: "grows (on_path c r)" for c r
    unfolding grows_def using on_path_run [of c r] by (metis snd_conv)
  have m: "grows (setup_user_map us' pid)" for us' pid
    unfolding setup_user_map_def setup_user_map2_def Let_def by (auto intro!: grows_intros o)
  have u: "grows (setup_user n)" for n
    unfolding setup_user_def user_get_uid_gid_def by (auto intro!: grows_intros split: prod.split)
  show ?thesis
    unfolding setup_console_owner_def console_helper_def sync_init_def sync_wait_child_def
      sync_wake_child_def sync_barrier_parent_def sync_barrier_def Let_def
    by (auto intro!: grows_intros s w m u split: option.split)
qed

lemma user_map_grows [grows_intros]: "grows (setup_user_map us pid)"
proof -
  have o: "grows (on_path c r)" for c r
    unfolding grows_def using on_path_run [of c r] by (metis snd_conv)
  show ?thesis
    unfolding setup_user_map_def setup_user_map2_def Let_def by (auto intro!: grows_intros o)
qed

lemma nl_transact_grows [grows_intros]: "grows (nl_transact r)"
  unfolding nl_transact_def nl_send_def nl_recv_def Let_def by (cases r) (auto intro!: grows_intros)

lemma io_malloc_grows [grows_intros]: "grows (io_malloc junk)"
  by (simp add: grows_def io_malloc_def)

lemma setup_netif_grows [grows_intros]: "grows (setup_netif junk ifs pid)"
proof -
  have one: "grows (setup_one_netif junk pid i)" for i
    unfolding setup_one_netif_def move_and_rename_if_def create_macvlan_def create_ipvlan_def
      create_veth_pair_def if_index_of_def Let_def
    by (cases "nif_type i") (auto intro!: grows_intros)
  show ?thesis unfolding setup_netif_def nl_open_def by (auto intro!: grows_intros one)
qed

lemma setup_cgroup_grows [grows_intros]: "grows (setup_cgroup gs pid)"
  unfolding setup_cgroup_def setup_one_cgroup_def create_cgroup_def attach_cgroup_def
  by (auto intro!: grows_intros)

lemma parent_setup_grows: "grows (parent_setup build junk args c flags pid master)"
  unfolding parent_setup_def by (auto intro!: grows_intros register_machine_grows)

lemma parent_sync_run:
  assumes "parent_sync build junk args c flags pid master fds k [] = (Inr fds', h')"
  shows "\<exists>mid. parent_setup build junk args c flags pid master k [Sync (Read_int (snd fds))] =
      (Inr (), Sync (Read_int (snd fds)) # mid) \<and>
    h' = Sync (Read_int (snd fds)) # mid @ Sync (Write_int (snd fds) 1) # close_calls fds"
proof -
  obtain h1 where s: "parent_setup build junk args c flags pid master k [Sync (Read_int (snd fds))] = (Inr (), h1)"
    and cl: "sync_close fds k (h1 @ [Sync (Write_int (snd fds) 1)]) = (Inr fds', h')"
    using assms
    by (auto simp: parent_sync_def sync_wait_child_def sync_wake_child_def sync_wait_def sync_wake_def
        SYNC_START_def SYNC_DONE_def io_Inr_iffs io_lift_Inr_iff)
  obtain mid where "h1 = [Sync (Read_int (snd fds))] @ mid"
    using growsE [OF parent_setup_grows s] by blast
  with s sync_close_run [OF cl] show ?thesis by simp
qed

section \<open>The configuration\<close>

lemma opt_mount_flags: "opt_mount b c x k h = (Inr c', h') \<Longrightarrow> cf_flags c' = cf_flags c"
  by (auto simp: opt_mount_def io_Inr_iffs io_lift_Inr_iff)

lemma opt_netif_flags: "opt_netif c x k h = (Inr c', h') \<Longrightarrow> cf_flags c' = cf_flags c OR CLONE_NEWNET"
  by (auto simp: opt_netif_def io_Inr_iffs io_lift_Inr_iff Let_def)

lemma opt_user_flags:
  "opt_user args c k h = (Inr c', h') \<Longrightarrow> cf_flags c' =
     (if user_given args \<and> user_map_arg args = [] then cf_flags c OR CLONE_NEWUSER else cf_flags c)"
  by (auto simp: opt_user_def io_Inr_iffs Let_def split: if_splits)

lemma opt_user_map_flags: "opt_user_map c x k h = (Inr c', h') \<Longrightarrow> cf_flags c' = cf_flags c OR CLONE_NEWUSER"
  by (auto simp: opt_user_map_def io_Inr_iffs io_lift_Inr_iff)

lemma opt_cgroup_flags: "opt_cgroup c x k h = (Inr c', h') \<Longrightarrow> cf_flags c' = cf_flags c"
  by (auto simp: opt_cgroup_def io_Inr_iffs)

lemma opt_cap_flags: "opt_cap b t c x k h = (Inr c', h') \<Longrightarrow> cf_flags c' = cf_flags c"
  by (auto simp: opt_cap_def io_Inr_iffs io_lift_Inr_iff split: if_splits)

lemma configureE:
  assumes "configure build to_cap args k h = (Inr c, h')"
  obtains c1 h1 c2 h2 c3 h3 c4 h4 c5 h5 c6 where
    "io_fold (opt_mount build) (init_conf build) (mount_arg args) k h = (Inr c1, h1)"
    "io_fold opt_netif c1 (netif_arg args) k h1 = (Inr c2, h2)"
    "opt_user args c2 k h2 = (Inr c3, h3)"
    "io_fold opt_user_map c3 (user_map_arg args) k h3 = (Inr c4, h4)"
    "io_fold opt_cgroup c4 (cgroup_arg args) k h4 = (Inr c5, h5)"
    "io_fold (opt_cap build to_cap) c5 (caps_arg args) k h5 = (Inr c6, h')"
    "c = c6\<lparr>cf_flags := share_namespaces args (cf_flags c6)\<rparr>"
  using assms by (auto simp: configure_def io_Inr_iffs)

lemma configure_flags_eq:
  assumes "configure build to_cap args k h = (Inr c, h')"
  shows "cf_flags c = share_namespaces args
    (let f = cf_flags (init_conf build);
         f = (if netif_arg args = [] then f else f OR CLONE_NEWNET)
     in if user_given args \<or> user_map_arg args \<noteq> [] then f OR CLONE_NEWUSER else f)"
proof -
  from assms obtain c1 h1 c2 h2 c3 h3 c4 h4 c5 h5 c6 where
    p: "io_fold (opt_mount build) (init_conf build) (mount_arg args) k h = (Inr c1, h1)"
    "io_fold opt_netif c1 (netif_arg args) k h1 = (Inr c2, h2)"
    "opt_user args c2 k h2 = (Inr c3, h3)"
    "io_fold opt_user_map c3 (user_map_arg args) k h3 = (Inr c4, h4)"
    "io_fold opt_cgroup c4 (cgroup_arg args) k h4 = (Inr c5, h5)"
    "io_fold (opt_cap build to_cap) c5 (caps_arg args) k h5 = (Inr c6, h')"
    "c = c6\<lparr>cf_flags := share_namespaces args (cf_flags c6)\<rparr>"
    by (rule configureE)
  have 1: "cf_flags c1 = cf_flags (init_conf build)"
    using io_fold_field [where g = cf_flags and u = "\<lambda>f. f", OF opt_mount_flags _ p(1)] by simp
  have 2: "cf_flags c2 = (if netif_arg args = [] then cf_flags c1 else cf_flags c1 OR CLONE_NEWNET)"
    using io_fold_field [where g = cf_flags and u = "\<lambda>f. f OR CLONE_NEWNET", OF opt_netif_flags _ p(2)]
    by (simp add: or.assoc)
  have 4: "cf_flags c4 = (if user_map_arg args = [] then cf_flags c3 else cf_flags c3 OR CLONE_NEWUSER)"
    using io_fold_field [where g = cf_flags and u = "\<lambda>f. f OR CLONE_NEWUSER", OF opt_user_map_flags _ p(4)]
    by (simp add: or.assoc)
  have 5: "cf_flags c5 = cf_flags c4"
    using io_fold_field [where g = cf_flags and u = "\<lambda>f. f", OF opt_cgroup_flags _ p(5)] by simp
  have 6: "cf_flags c6 = cf_flags c5"
    using io_fold_field [where g = cf_flags and u = "\<lambda>f. f", OF opt_cap_flags _ p(6)] by simp
  from 1 2 opt_user_flags [OF p(3)] 4 5 6 p(7) show ?thesis by (simp add: Let_def)
qed

lemma flag_bits:
  "bit CLONE_NEWNS n \<longleftrightarrow> n = 17" "bit CLONE_NEWCGROUP n \<longleftrightarrow> n = 25" "bit CLONE_NEWUTS n \<longleftrightarrow> n = 26"
  "bit CLONE_NEWIPC n \<longleftrightarrow> n = 27" "bit CLONE_NEWUSER n \<longleftrightarrow> n = 28" "bit CLONE_NEWPID n \<longleftrightarrow> n = 29"
  "bit CLONE_NEWNET n \<longleftrightarrow> n = 30"
proof -
  have *: "bit (2 ^ m :: u32) n \<longleftrightarrow> n = m" if "m < 32" for m
    using that by (auto simp: bit_exp_iff)
  have eqs: "CLONE_NEWNS = 2 ^ 17" "CLONE_NEWCGROUP = 2 ^ 25" "CLONE_NEWUTS = 2 ^ 26"
    "CLONE_NEWIPC = 2 ^ 27" "CLONE_NEWUSER = 2 ^ 28" "CLONE_NEWPID = 2 ^ 29" "CLONE_NEWNET = 2 ^ 30"
    by (simp_all add: CLONE_NEWNS_def CLONE_NEWCGROUP_def CLONE_NEWUTS_def CLONE_NEWIPC_def
        CLONE_NEWUSER_def CLONE_NEWPID_def CLONE_NEWNET_def)
  show "bit CLONE_NEWNS n \<longleftrightarrow> n = 17" "bit CLONE_NEWCGROUP n \<longleftrightarrow> n = 25" "bit CLONE_NEWUTS n \<longleftrightarrow> n = 26"
    "bit CLONE_NEWIPC n \<longleftrightarrow> n = 27" "bit CLONE_NEWUSER n \<longleftrightarrow> n = 28" "bit CLONE_NEWPID n \<longleftrightarrow> n = 29"
    "bit CLONE_NEWNET n \<longleftrightarrow> n = 30"
    unfolding eqs by (rule *, simp)+
qed

lemma clear_flag_bit: "bit (clear_flag b g f) n \<longleftrightarrow> bit f n \<and> \<not> (b \<and> bit g n)" for f :: u32
  by (auto simp: clear_flag_def bit_and_iff bit_not_iff dest: bit_imp_le_length)

lemma configured_bits:
  assumes "configure build to_cap args k h = (Inr c, h')"
  shows "bit (cf_flags c) n \<longleftrightarrow>
    n = 17 \<and> \<not> no_mountns args \<or> n = 25 \<and> b_newcgroup build \<or> n = 26 \<and> \<not> no_utsns args \<or>
    n = 27 \<and> \<not> no_ipcns args \<or> n = 29 \<and> \<not> no_pidns args \<or>
    n = 28 \<and> (user_given args \<or> user_map_arg args \<noteq> []) \<and> \<not> no_userns args \<or>
    n = 30 \<and> netif_arg args \<noteq> [] \<and> \<not> no_netns args"
  by (auto simp: configure_flags_eq [OF assms] share_namespaces_def Let_def clear_flag_bit flag_bits
      init_conf_def bit_or_iff)

lemma user_without_root:
  assumes "opt_user args c k h = (Inr c', h')" and "cf_users c = []"
    and "rc (k h (Getpwnam (user_arg args))) \<ge> 0 \<longrightarrow> st_uid (k h (Getpwnam (user_arg args))) \<noteq> 0"
    and "user_arg args \<noteq> ''root''"
  shows "user_get_mapped_root (cf_users c') CHR ''u'' = None"
  using assms strneq_long [of "''root''" 5 "user_arg args"]
  by (auto simp: opt_user_def user_get_uid_gid_def io_Inr_iffs Let_def user_add_map_def
      split: if_splits)

text \<open>The mappings of a configuration come from \<open>--user\<close> alone when there is no \<open>--user-map\<close>.\<close>

lemma opt_mount_users: "opt_mount b c x k h = (Inr c', h') \<Longrightarrow> cf_users c' = cf_users c"
  by (auto simp: opt_mount_def io_Inr_iffs io_lift_Inr_iff)

lemma opt_netif_users: "opt_netif c x k h = (Inr c', h') \<Longrightarrow> cf_users c' = cf_users c"
  by (auto simp: opt_netif_def io_Inr_iffs io_lift_Inr_iff Let_def)

lemma opt_cgroup_users: "opt_cgroup c x k h = (Inr c', h') \<Longrightarrow> cf_users c' = cf_users c"
  by (auto simp: opt_cgroup_def io_Inr_iffs)

lemma opt_cap_users: "opt_cap b t c x k h = (Inr c', h') \<Longrightarrow> cf_users c' = cf_users c"
  by (auto simp: opt_cap_def io_Inr_iffs io_lift_Inr_iff split: if_splits)

lemma configure_users:
  assumes "configure build to_cap args k h = (Inr c, h')" and "user_map_arg args = []"
  obtains c2 h2 c3 h3 where "opt_user args c2 k h2 = (Inr c3, h3)" "cf_users c2 = []"
    "cf_users c = cf_users c3"
proof -
  from assms(1) obtain c1 h1 c2 h2 c3 h3 c4 h4 c5 h5 c6 where
    p: "io_fold (opt_mount build) (init_conf build) (mount_arg args) k h = (Inr c1, h1)"
    "io_fold opt_netif c1 (netif_arg args) k h1 = (Inr c2, h2)"
    "opt_user args c2 k h2 = (Inr c3, h3)"
    "io_fold opt_user_map c3 (user_map_arg args) k h3 = (Inr c4, h4)"
    "io_fold opt_cgroup c4 (cgroup_arg args) k h4 = (Inr c5, h5)"
    "io_fold (opt_cap build to_cap) c5 (caps_arg args) k h5 = (Inr c6, h')"
    "c = c6\<lparr>cf_flags := share_namespaces args (cf_flags c6)\<rparr>"
    by (rule configureE)
  have "cf_users c1 = []"
    using io_fold_field [where g = cf_users and u = "\<lambda>f. f", OF opt_mount_users _ p(1)]
    by (simp add: init_conf_def)
  then have 2: "cf_users c2 = []"
    using io_fold_field [where g = cf_users and u = "\<lambda>f. f", OF opt_netif_users _ p(2)] by simp
  have 4: "c4 = c3" using p(4) assms(2) by (simp add: io_ret_Inr_iff)
  have 5: "cf_users c5 = cf_users c4"
    using io_fold_field [where g = cf_users and u = "\<lambda>f. f", OF opt_cgroup_users _ p(5)] by simp
  have 6: "cf_users c6 = cf_users c5"
    using io_fold_field [where g = cf_users and u = "\<lambda>f. f", OF opt_cap_users _ p(6)] by simp
  show ?thesis by (rule that [OF p(3) 2]) (simp add: 4 5 6 p(7))
qed

text \<open>A clone that is accepted at once keeps the flags.\<close>

lemma do_clone_once:
  assumes "do_clone flags k h = (Inr (pid, flags'), h @ [Clone (flags OR 17)])"
  shows "flags' = flags OR 17"
  using assms by (auto simp: do_clone_def io_Inr_iffs Let_def split: if_splits)

text \<open>Option-less arguments and a plain build, for the witnesses.\<close>

definition no_args :: args where
  "no_args = \<lparr>mount_arg = [], netif_arg = [], user_given = False, user_arg = ''root'',
     user_map_arg = [], cgroup_arg = [], caps_arg = [], no_userns = False, no_mountns = False,
     no_netns = False, no_ipcns = False, no_utsns = False, no_pidns = False, attach_arg = None,
     detach_flag = False, ephemeral_flag = False, hostname_arg = None, chroot_arg = None,
     chdir_arg = None, keepenv_flag = False, setenv_arg = [], command = []\<rparr>"

definition plain_build :: build where
  "plain_build = \<lparr>b_overlay = Have_overlay, b_newcgroup = False, b_capng = True, b_dbus = False\<rparr>"

text \<open>Runs on a kernel on which every call succeeds, for the witnesses.\<close>

definition calm :: kernel where
  "calm h c = (case c of Tty (Isatty f) \<Rightarrow> ok\<lparr>rc := 1\<rparr> | _ \<Rightarrow> ok\<lparr>st_dir := True\<rparr>)"

definition succeeds :: "'a io \<Rightarrow> bool" where
  "succeeds m \<longleftrightarrow> (\<forall>h. \<exists>a h'. m calm h = (Inr a, h'))"

lemma calm_rc [simp]: "0 \<le> rc (calm h c)" "\<not> rc (calm h c) < 0"
  by (auto simp: calm_def split: call.split tty_call.split)

lemma succeeds_ret: "succeeds (io_ret a)"
  by (simp add: succeeds_def io_ret_def)

lemma succeeds_bind: "succeeds m \<Longrightarrow> (\<And>a. succeeds (f a)) \<Longrightarrow> succeeds (io_bind m f)"
  unfolding succeeds_def io_bind_def by (metis (no_types, lifting) case_prod_conv sum.case(2))

lemma succeeds_seq: "succeeds m \<Longrightarrow> succeeds n \<Longrightarrow> succeeds (io_seq m n)"
  by (simp add: io_seq_def succeeds_bind)

lemma succeeds_checked: "succeeds (checked c e)"
  by (simp add: succeeds_def checked_def io_simps)

lemma succeeds_sys: "succeeds (sys c)"
  by (simp add: succeeds_def sys_def)

lemma succeeds_iter: "(\<And>x. x \<in> set xs \<Longrightarrow> succeeds (f x)) \<Longrightarrow> succeeds (io_iter f xs)"
  by (induction xs) (auto intro: succeeds_ret succeeds_seq)

lemmas succeeds_intros = succeeds_ret succeeds_bind succeeds_seq succeeds_checked succeeds_sys succeeds_iter

lemma succeeds_call: "(\<And>h. \<exists>a h'. f (calm h c) calm (h @ [c]) = (Inr a, h')) \<Longrightarrow> succeeds (io_bind (sys c) f)"
  by (simp add: succeeds_def io_bind_def sys_def)

lemma calm_mount:
  assumes "m_type i = ''overlay'' \<longrightarrow> (\<exists>o1. m_data i = Ovl o1)"
    and "m_type i = ''bind'' \<or> m_type i = ''bind-ro'' \<longrightarrow> m_src i \<noteq> None"
  shows "succeeds (setup_one_mount dest i)"
  using assms
  by (auto simp: succeeds_def setup_one_mount_def make_overlay_opts_def make_mount_dir_def
      make_bind_dest_def io_simps Let_def calm_def split: option.split)

lemma no_args_simps:
  "user_arg no_args = ''root''" "hostname_arg no_args = None" "cf_mounts (init_conf b) = []"
  by (simp_all add: no_args_def init_conf_def)

lemma calm_barrier: "succeeds (sync_barrier_parent fds v)"
  by (simp add: succeeds_def sync_barrier_parent_def sync_barrier_def sync_wake_def sync_wait_def
      sync_check_def io_simps calm_def)

lemma calm_close: "succeeds (sync_close fds)" "succeeds (close_fd fd)"
  by (simp_all add: succeeds_def sync_close_def sync_close_child_def sync_close_parent_def close_fd_def
      io_simps)

lemma calm_slave: "succeeds (open_slave_pty st m)"
  by (simp add: succeeds_def open_slave_pty_def close_fd_def io_simps calm_def Let_def)

lemma calm_user: "succeeds (setup_user ''root'')"
  by (simp add: succeeds_def setup_user_def user_get_uid_gid_def strneq_long io_simps)

lemma calm_system_mounts: "succeeds (setup_mount b [] (Some dest) None)"
  unfolding setup_mount_def setup_ephemeral_def system_mounts_def mount_add_def
  by (auto intro!: succeeds_intros calm_mount)

lemma calm_root: "succeeds (setup_root dest m)"
  unfolding setup_root_def setup_nodes_def setup_one_node_def setup_ptmx_def setup_symlinks_def
    setup_console_def do_chroot_def Let_def
  by (auto intro!: succeeds_intros split: prod.split)

lemma calm_tail: "succeeds (child_tail plain_build junk (no_args\<lparr>chroot_arg := Some dest\<rparr>) (init_conf plain_build) 0)"
  by (simp add: succeeds_def child_tail_def setup_env_def setup_capabilities_def init_conf_def no_args_def
      plain_build_def exec_call_def io_simps calm_def)

lemma calm_child:
  "succeeds (child plain_build junk (no_args\<lparr>chroot_arg := Some dest\<rparr>) (init_conf plain_build) 0
    master_fd master st None fds)"
  unfolding child_def
  by (auto intro!: succeeds_intros calm_barrier calm_close calm_slave calm_system_mounts calm_root calm_tail
      simp: calm_user no_args_simps)

section \<open>Properties\<close>

text \<open>
  The namespaces of the container: the clone flags that main computes contain
  a namespace exactly when it is wanted: mounts, IPC, hostname and pids unless
  disabled; users when --user or --user-map was given and network when --netif
  was given, unless disabled; control groups when the headers have them; and no
  other bit.
\<close>

lemma configure_namespaces:
  assumes "configure build to_cap args k h = (Inr c, h')"
  shows "bit (cf_flags c) n \<longleftrightarrow>
    n = 17 \<and> \<not> no_mountns args \<or> n = 25 \<and> b_newcgroup build \<or> n = 26 \<and> \<not> no_utsns args \<or>
    n = 27 \<and> \<not> no_ipcns args \<or> n = 29 \<and> \<not> no_pidns args \<or>
    n = 28 \<and> (user_given args \<or> user_map_arg args \<noteq> []) \<and> \<not> no_userns args \<or>
    n = 30 \<and> netif_arg args \<noteq> [] \<and> \<not> no_netns args"
  using assms by (rule configured_bits)

lemma configure_namespaces_example:
  "\<exists>c. outcome (configure plain_build (\<lambda>_. 0) (no_args\<lparr>netif_arg := [None], no_pidns := True\<rparr>))
       (\<lambda>_ _. ok) = Inr c \<and> bit (cf_flags c) 30 \<and> \<not> bit (cf_flags c) 29"
proof -
  let ?a = "no_args\<lparr>netif_arg := [None], no_pidns := True\<rparr>"
  obtain c h where run: "configure plain_build (\<lambda>_. 0) ?a (\<lambda>_ _. ok) [] = (Inr c, h)"
    by (simp add: configure_def opt_netif_def opt_user_def validate_optlist_def netif_add_from_spec_def
        no_args_def io_simps Let_def)
  from configure_namespaces [OF run, of 30] configure_namespaces [OF run, of 29] run show ?thesis
    by (simp add: outcome_def no_args_def)
qed

text \<open>
  do_clone: a returned pid comes from one clone with all the flags, or, after
  EINVAL, from a second one that differs by the user namespace only; the
  returned flags are those of the clone that succeeded, so main knows when there
  is no user namespace.
\<close>

lemma do_clone_flags:
  assumes "do_clone flags k h = (Inr (pid, flags'), h')"
  shows "0 \<le> pid \<and> last h' = Clone flags' \<and> rc (k (butlast h') (Clone flags')) = pid \<and>
    (flags' = flags OR 17 \<and> h' = h @ [Clone flags'] \<or>
     flags' = (flags OR 17) AND NOT CLONE_NEWUSER \<and> h' = h @ [Clone (flags OR 17), Clone flags'] \<and>
     rc (k h (Clone (flags OR 17))) < 0 \<and> errno (k h (Clone (flags OR 17))) = EINVAL)"
  using assms
  by (auto simp: do_clone_def Let_def io_Inr_iffs not_less butlast_append split: if_splits)

lemma do_clone_flags_example:
  "\<exists>h'. do_clone 0x10020000 (\<lambda>h c. if h = [] then failed EINVAL else ok\<lparr>rc := 9\<rparr>) [] =
     (Inr (9, 0x20011), h') \<and> last h' = Clone 0x20011"
proof -
  let ?k = "\<lambda>h c. if h = [] then failed EINVAL else ok\<lparr>rc := 9\<rparr>"
  obtain h' where run: "do_clone 0x10020000 ?k [] = (Inr (9, 0x20011), h')"
    by (simp add: do_clone_def io_simps Let_def CLONE_NEWUSER_def)
  from do_clone_flags [OF run] run show ?thesis by auto
qed

text \<open>
  C5: The child's order: when it has executed the command, it has mounted the
  slave /, the overlay, the system's and the user's file systems, the device
  nodes and the console, all of these before it changed its root; it has mounted
  nothing after that; and the exec came last.
\<close>

theorem child_mounts_then_chroots:
  assumes "child build junk args c flags master_fd master st e fds k [] = (Inr u, h')"
    and "chroot_arg args = Some dest"
  shows "\<exists>pre post. h' = pre @ [Chdir dest, Chroot ''.'', Chdir ''/''] @ post @ [exec_call args] \<and>
    filter is_mount pre = slave_root # ephemeral_mounts (Some dest) e @
      map (mount_call (Some dest)) (system_mounts dest (root_overlay (b_overlay build) e) @ cf_mounts c) @
      root_mounts dest master \<and>
    filter is_mount post = []"
  using assms by (rule child_mounts_run)

theorem child_mounts_then_chroots_witness:
  "\<exists>pre post. trace (child plain_build (\<lambda>_. []) (no_args\<lparr>chroot_arg := Some ''/c''\<rparr>) (init_conf plain_build)
       0 5 ''/dev/pts/7'' tty_init None (3, 4)) calm =
     pre @ [Chdir ''/c'', Chroot ''.'', Chdir ''/''] @ post @ [Proc (Exec ''/bin/bash'' [''-bash''])] \<and>
     filter is_mount post = []"
proof -
  let ?a = "no_args\<lparr>chroot_arg := Some ''/c''\<rparr>"
  obtain u h' where run: "child plain_build (\<lambda>_. []) ?a (init_conf plain_build) 0 5 ''/dev/pts/7''
      tty_init None (3, 4) calm [] = (Inr u, h')"
    using calm_child unfolding succeeds_def by blast
  from child_mounts_then_chroots [OF run] run show ?thesis
    by (auto simp: trace_def exec_call_def no_args_def)
qed

text \<open>
  C8: The child follows its part of the protocol: the calls of synchronisation,
  of its preparations and its exec are those of the child's program in Sync, in
  that order, and there is no other.
\<close>

theorem child_follows_program:
  assumes "child build junk args c flags master_fd master st e fds k [] = (Inr u, h')"
  shows "filter is_step h' = concat (map (op_calls fds (exec_call args)) (program Child))"
  using assms by (rule child_steps)

theorem child_follows_program_witness:
  "filter is_step (trace (child plain_build (\<lambda>_. []) (no_args\<lparr>chroot_arg := Some ''/c''\<rparr>)
       (init_conf plain_build) 0 5 ''/dev/pts/7'' tty_init None (3, 4)) calm) =
     [Proc Prctl, Proc Setsid, Sync (Write_int 3 0), Sync (Read_int 3), Sync (Close_fd 3),
      Sync (Close_fd 4), Proc (Exec ''/bin/bash'' [''-bash''])]"
proof -
  let ?a = "no_args\<lparr>chroot_arg := Some ''/c''\<rparr>"
  obtain u h' where run: "child plain_build (\<lambda>_. []) ?a (init_conf plain_build) 0 5 ''/dev/pts/7''
      tty_init None (3, 4) calm [] = (Inr u, h')"
    using calm_child unfolding succeeds_def by blast
  from child_follows_program [OF run] run show ?thesis
    by (simp add: trace_def program_simps exec_call_def no_args_def close_calls_def)
qed

text \<open>
  C39: --user for another user than root (an unknown one, or one with a uid other
  than 0), with --chroot, without --user-map and without --no-userns: where the
  kernel has user namespaces, that is, accepts the first clone, the parent stops
  for lack of a mapping of the container's root, before any other setup.
\<close>

theorem user_with_chroot_fails:
  assumes conf: "configure build to_cap args k0 h0 = (Inr c, h1)"
    and user: "user_given args" "user_arg args \<noteq> ''root''" "user_map_arg args = []"
      "\<not> no_userns args" "chroot_arg args \<noteq> None"
    and uid: "\<And>h. rc (k0 h (Getpwnam (user_arg args))) \<ge> 0 \<Longrightarrow> st_uid (k0 h (Getpwnam (user_arg args))) \<noteq> 0"
    and clone: "do_clone (cf_flags c) k h2 = (Inr (pid, flags), h2 @ [Clone (cf_flags c OR 17)])"
  shows "parent_setup build junk args c flags pid master k h =
    (Inl (Fail ''No mapping for container root user''), h @ [Geteuid, Getegid])"
proof -
  obtain c2 h3 c3 h4 where u: "opt_user args c2 k0 h3 = (Inr c3, h4)" "cf_users c2 = []"
    "cf_users c = cf_users c3"
    by (rule configure_users [OF conf user(3)])
  have "user_get_mapped_root (cf_users c) CHR ''u'' = None"
    using user_without_root [OF u(1,2)] uid [of h3] user(2) u(3) by simp
  moreover have "bit (flags AND CLONE_NEWUSER) 28"
    using configured_bits [OF conf, of 28] user
    by (simp add: do_clone_once [OF clone] bit_and_iff bit_or_iff flag_bits)
  then have "flags AND CLONE_NEWUSER \<noteq> 0" by force
  ultimately show ?thesis
    using user(5) by (simp add: parent_setup_def setup_console_owner_def io_simps)
qed

theorem user_with_chroot_fails_witness:
  "\<exists>c. outcome (configure plain_build (\<lambda>_. 0)
         (no_args\<lparr>user_given := True, user_arg := ''ghedo'', chroot_arg := Some ''/c''\<rparr>))
         (\<lambda>_ _. ok\<lparr>st_uid := 1000\<rparr>) = Inr c \<and>
     outcome (parent_setup plain_build (\<lambda>_. [])
         (no_args\<lparr>user_given := True, user_arg := ''ghedo'', chroot_arg := Some ''/c''\<rparr>) c
         (cf_flags c OR 17) 42 ''/dev/pts/7'') (\<lambda>_ _. ok\<lparr>rc := 42\<rparr>) =
       Inl (Fail ''No mapping for container root user'')"
proof -
  let ?a = "no_args\<lparr>user_given := True, user_arg := ''ghedo'', chroot_arg := Some ''/c''\<rparr>"
  let ?k = "\<lambda>_ _. ok\<lparr>st_uid := 1000\<rparr>" and ?k2 = "\<lambda>_ _. ok\<lparr>rc := 42\<rparr>"
  obtain c h where run: "configure plain_build (\<lambda>_. 0) ?a ?k [] = (Inr c, h)"
    by (simp add: configure_def opt_user_def user_get_uid_gid_def no_args_def strneq_long io_simps Let_def)
  have cl: "do_clone (cf_flags c) ?k2 [] = (Inr (42, cf_flags c OR 17), [] @ [Clone (cf_flags c OR 17)])"
    by (simp add: do_clone_def io_simps Let_def)
  have "parent_setup plain_build (\<lambda>_. []) ?a c (cf_flags c OR 17) 42 ''/dev/pts/7'' ?k2 [] =
    (Inl (Fail ''No mapping for container root user''), [] @ [Geteuid, Getegid])"
    by (rule user_with_chroot_fails [OF run _ _ _ _ _ _ cl]) (simp_all add: no_args_def)
  with run show ?thesis by (simp add: outcome_def)
qed

end
