(* ===== verification/Lifecycle.thy ===== *)
theory Lifecycle
  imports Pflask
begin

text \<open>
  The whole run of pflask.c's main: which directories it makes and what has
  become of them when it returns the container's exit status.
\<close>

section \<open>Calls that make and remove directories\<close>

definition is_dir :: "call \<Rightarrow> bool" where
  "is_dir c =
     (case c of Mkdir p m \<Rightarrow> True | Rmdir p \<Rightarrow> True | Mkdtemp p \<Rightarrow> True | _ \<Rightarrow> False)"

lemma is_dir_simps [simp]:
  "is_dir (Mkdir p m)" "is_dir (Rmdir p)" "is_dir (Mkdtemp p)"
  "\<not> is_dir (Tty t)" "\<not> is_dir (Ev e)" "\<not> is_dir (Dbus db)" "\<not> is_dir (Proc x)" "\<not> is_dir (Sync s)" "\<not> is_dir (Cap cc)"
  "\<not> is_dir (Open p f fm)" "\<not> is_dir (Getpwnam s')" "\<not> is_dir Socket" "\<not> is_dir Bind"
  "\<not> is_dir (Sendmsg d)" "\<not> is_dir (Recvmsg n)" "\<not> is_dir Close" "\<not> is_dir Getpid"
  "\<not> is_dir (Clone fl)" "\<not> is_dir (IfNametoindex s')" "\<not> is_dir (System s')" "\<not> is_dir Geteuid"
  "\<not> is_dir Getegid" "\<not> is_dir (Chown p u g)" "\<not> is_dir (Stat p)" "\<not> is_dir (Access p)"
  "\<not> is_dir (Getenv s')" "\<not> is_dir (Write s')" "\<not> is_dir (Fopen p)" "\<not> is_dir (Fprintf s')"
  "\<not> is_dir Fclose" "\<not> is_dir (Setresgid u g g')" "\<not> is_dir (Setresuid u g g')" "\<not> is_dir (Setgroups n)"
  by (simp_all add: is_dir_def)

text \<open>The calls of the synchronisation, for which the same components matter.\<close>

definition is_sync :: "call \<Rightarrow> bool" where
  "is_sync c = (case c of Sync s \<Rightarrow> True | _ \<Rightarrow> False)"

definition outer :: "(call \<Rightarrow> bool) \<Rightarrow> bool" where
  "outer P \<longleftrightarrow> P = is_dir \<or> P = is_sync"

lemma outer_not [simp]:
  assumes "outer P"
  shows "\<not> P (Dbus db)" "\<not> P (Proc x)" "\<not> P Socket" "\<not> P Bind" "\<not> P (Sendmsg d)" "\<not> P (Recvmsg n)"
    "\<not> P Close" "\<not> P Getpid" "\<not> P (IfNametoindex s')" "\<not> P (System s')" "\<not> P Geteuid"
    "\<not> P (Access p)" "\<not> P (Getenv s')" "\<not> P (Write s')" "\<not> P (Open p f fm)" "\<not> P (Fopen p)"
    "\<not> P (Fprintf s')" "\<not> P Fclose"
  using assms by (auto simp: outer_def is_sync_def)

lemma outer_cases: "outer is_dir" "outer is_sync"
  by (simp_all add: outer_def)

abbreviation no_dirs :: "'a io \<Rightarrow> bool" where
  "no_dirs \<equiv> keeps (avoids is_dir)"

lemma no_dirs_fold: "(\<And>s x. keeps (avoids P) (f s x)) \<Longrightarrow> keeps (avoids P) (io_fold f s xs)"
  by (induction xs arbitrary: s) (auto intro!: avoid.keeps_intros)

lemmas no_dirs_intros = avoids_intros no_dirs_fold lift_avoids

lemma no_dirs_netif_add: "no_dirs (netif_add_from_spec ifs s)"
  unfolding netif_add_from_spec_def opt_arg_def Let_def
  by (auto intro!: no_dirs_intros split: option.split)

lemma no_dirs_configure: "no_dirs (configure b t args)"
  unfolding configure_def opt_mount_def opt_netif_def opt_user_def opt_user_map_def opt_cgroup_def
    opt_cap_def user_get_uid_gid_def cgroup_add_def Let_def
  by (auto intro!: no_dirs_intros no_dirs_netif_add split: prod.split)

lemma no_dirs_close: "no_dirs (close_fd fd)"
  unfolding close_fd_def by (auto intro!: no_dirs_intros)

lemma no_dirs_master: "no_dirs (open_master_pty st)"
  unfolding open_master_pty_def by (auto intro!: no_dirs_intros split: option.split)

lemma no_dirs_daemonize: "no_dirs do_daemonize"
  unfolding do_daemonize_def by (auto intro!: no_dirs_intros)

lemma no_dirs_clone: "no_dirs (do_clone flags)"
  unfolding do_clone_def Let_def by (auto intro!: no_dirs_intros split: prod.split)

lemma no_dirs_sync:
  "no_dirs sync_init" "no_dirs (sync_wait fd v)" "no_dirs (sync_wake fd v)" "no_dirs (sync_close fds)"
  unfolding sync_init_def sync_wait_def sync_wake_def sync_close_def sync_close_child_def Let_def
    sync_close_parent_def
  by (auto intro!: no_dirs_intros)

lemma outer_on_path: "outer P \<Longrightarrow> keeps (avoids P) (on_path c r)"
proof -
  assume P: "outer P"
  have "keeps (avoids P) (on_path_loop c r es)" for es
    using P by (induction es) (auto intro!: no_dirs_intros)
  then show ?thesis using P unfolding on_path_def by (auto intro!: no_dirs_intros split: option.split)
qed

lemma outer_user_map: "outer P \<Longrightarrow> keeps (avoids P) (setup_user_map us pid)"
  unfolding setup_user_map_def setup_user_map2_def Let_def
  by (auto intro!: no_dirs_intros outer_on_path)

lemma no_dirs_owner: "no_dirs (setup_console_owner p us)"
  unfolding setup_console_owner_def console_helper_def sync_wait_child_def sync_wake_child_def
    sync_barrier_parent_def sync_barrier_def setup_user_def user_get_uid_gid_def
  by (auto intro!: no_dirs_intros no_dirs_sync outer_user_map outer_cases split: option.split prod.split)

lemma outer_transact: "outer P \<Longrightarrow> keeps (avoids P) (nl_transact r)"
  unfolding nl_transact_def nl_send_def nl_recv_def Let_def
  by (cases r) (auto intro!: no_dirs_intros)

lemma outer_netif: "outer P \<Longrightarrow> keeps (avoids P) (setup_netif junk ifs pid)"
proof -
  assume P: "outer P"
  have one: "keeps (avoids P) (setup_one_netif junk pid i)" for i
    unfolding setup_one_netif_def move_and_rename_if_def create_macvlan_def create_ipvlan_def
      create_veth_pair_def if_index_of_def Let_def
    using P by (cases "nif_type i") (auto intro!: no_dirs_intros io_malloc_avoids outer_transact)
  show ?thesis using P unfolding setup_netif_def nl_open_def by (auto intro!: no_dirs_intros one)
qed

lemma no_dirs_process: "no_dirs (process_pty n st fd)"
  unfolding process_pty_def pty_round_def stdin_branch_def master_branch_def signal_branch_def Let_def
  by (auto intro!: no_dirs_intros no_dirs_close avoid.keeps_rounds)

lemma no_dirs_serve: "no_dirs (serve_pty n fd)"
  unfolding serve_pty_def serve_round_def accept_branch_def server_signal_def socket_addr_def send_fd_def
    Let_def
  by (auto intro!: no_dirs_intros no_dirs_close avoid.keeps_rounds)

lemma no_dirs_attach: "no_dirs (attach n pid)"
  unfolding attach_def recv_pty_def recv_fd_def socket_addr_def Let_def
  by (auto intro!: no_dirs_intros no_dirs_close no_dirs_process)

lemmas dirs_kept = keeps_avoids_filter [where P = is_dir]

section \<open>What is made and what is removed\<close>

lemma setup_cgroup_dirs:
  assumes "setup_cgroup gs pid k h = (Inr u, h')"
  shows "filter is_dir h' = filter is_dir h @ map (\<lambda>i. Mkdir (dir_of i) mode_0755) gs"
proof -
  have "h' = h @ concat (map (join_calls pid) gs)"
    using issues_Inr [OF cg_join.iter_issues] assms by (simp add: setup_cgroup_def)
  moreover have "filter is_dir (concat (map (join_calls pid) gs)) = map (\<lambda>i. Mkdir (dir_of i) mode_0755) gs"
    by (induction gs) (simp_all add: join_calls_def)
  ultimately show ?thesis by simp
qed

lemma clean_cgroup_dirs:
  assumes "clean_cgroup gs k h = (Inr u, h')"
  shows "filter is_dir h' = filter is_dir h @ map (\<lambda>i. Rmdir (dir_of i)) gs"
proof -
  have "filter is_dir (map (\<lambda>i. Rmdir (dir_of i)) gs) = map (\<lambda>i. Rmdir (dir_of i)) gs"
    by (induction gs) simp_all
  with clean_Inr [OF assms] show ?thesis by simp
qed

lemma parent_setup_dirs:
  assumes run: "parent_setup build junk args c flags pid master k h = (Inr u, h')"
  shows "filter is_dir h' = filter is_dir h @ map (\<lambda>i. Mkdir (dir_of i) mode_0755) (cf_cgroups c)"
proof -
  have own: "no_dirs (if chroot_arg args \<noteq> None \<and> flags AND CLONE_NEWUSER \<noteq> 0
      then setup_console_owner master (cf_users c) else io_ret ())"
    by (simp add: no_dirs_owner avoid.keeps_ret)
  have rest: "no_dirs (io_seq (setup_netif junk (cf_netifs c) (of_int pid))
     (io_seq (if b_dbus build
              then register_machine pid (case chroot_arg args of Some d \<Rightarrow> d | None \<Rightarrow> '''')
              else io_ret ())
       (if flags AND CLONE_NEWUSER \<noteq> 0 then setup_user_map (cf_users c) (of_int pid)
        else io_ret ())))"
    by (auto intro!: no_dirs_intros outer_netif outer_user_map register_machine_avoids simp: outer_cases)
  from run obtain u1 h1 u2 h2 where
    "(if chroot_arg args \<noteq> None \<and> flags AND CLONE_NEWUSER \<noteq> 0
      then setup_console_owner master (cf_users c) else io_ret ()) k h = (Inr u1, h1)"
    and cg: "setup_cgroup (cf_cgroups c) pid k h1 = (Inr u2, h2)"
    and "io_seq (setup_netif junk (cf_netifs c) (of_int pid))
     (io_seq (if b_dbus build
              then register_machine pid (case chroot_arg args of Some d \<Rightarrow> d | None \<Rightarrow> '''')
              else io_ret ())
       (if flags AND CLONE_NEWUSER \<noteq> 0 then setup_user_map (cf_users c) (of_int pid)
        else io_ret ())) k h2 = (Inr u, h')"
    unfolding parent_setup_def io_seq_Inr_iff [of _ "io_seq (setup_cgroup _ _) _"]
      io_seq_Inr_iff [of "setup_cgroup _ _"] by blast
  then show ?thesis
    using dirs_kept [OF own] dirs_kept [OF rest] setup_cgroup_dirs [OF cg] by metis
qed

lemma parent_sync_dirs:
  assumes run: "parent_sync build junk args c flags pid master fds k h = (Inr fds', h')"
  shows "filter is_dir h' = filter is_dir h @ map (\<lambda>i. Mkdir (dir_of i) mode_0755) (cf_cgroups c)"
proof -
  from run obtain u1 h1 u2 h2 u3 h3 where
    "sync_wait_child fds SYNC_START k h = (Inr u1, h1)"
    and set: "parent_setup build junk args c flags pid master k h1 = (Inr u2, h2)"
    and "sync_wake_child fds SYNC_DONE k h2 = (Inr u3, h3)" and "sync_close fds k h3 = (Inr fds', h')"
    unfolding parent_sync_def io_seq_Inr_iff by blast
  then show ?thesis
    using parent_setup_dirs [OF set] no_dirs_sync dirs_kept
    unfolding sync_wait_child_def sync_wake_child_def by metis
qed

lemma parent_end_dirs:
  assumes run: "parent_end c pid fds eph k h = (Inr st, h')"
  shows "filter is_dir h' = filter is_dir h @ map (\<lambda>i. Rmdir (dir_of i)) (cf_cgroups c) @
      (case eph of None \<Rightarrow> [] | Some d \<Rightarrow> [Rmdir d])"
proof -
  from run obtain fds' h1 h2 u where
    sc: "sync_close fds k (h @ [Proc (Kill pid), Proc (Waitid pid)]) = (Inr fds', h1)"
    and cg: "clean_cgroup (cf_cgroups c) k h1 = (Inr u, h2)"
    and h': "h' = h2 @ (case eph of None \<Rightarrow> [] | Some d \<Rightarrow> [Rmdir d])"
    by (cases eph; cases fds) (auto simp: parent_end_def io_Inr_iffs)
  from dirs_kept [OF no_dirs_sync(4) sc] clean_cgroup_dirs [OF cg] h' show ?thesis
    by (simp split: option.split)
qed

lemma make_ephemeral_dirs:
  assumes run: "make_ephemeral args k h = (Inr eph, h')"
  shows "(eph \<noteq> None) = ephemeral_flag args \<and>
    filter is_dir h' = filter is_dir h @
      (case eph of None \<Rightarrow> [] | Some d \<Rightarrow> [Mkdtemp ''/tmp/pflask-ephemeral-XXXXXX'']) \<and>
    (case eph of None \<Rightarrow> True
       | Some d \<Rightarrow> sdata (k h (Mkdtemp ''/tmp/pflask-ephemeral-XXXXXX'')) = Some d)"
  using run by (auto simp: make_ephemeral_def io_Inr_iffs split: if_splits option.splits)

text \<open>The groups of the configuration are those of the command line, in order.\<close>

definition controllers :: "conf \<Rightarrow> cstring list" where
  "controllers c = map cg_controller (cf_cgroups c)"

lemma opt_cgroup_adds: "opt_cgroup c g k h = (Inr c', h') \<Longrightarrow> controllers c' = controllers c @ [g]"
  by (auto simp: opt_cgroup_def cgroup_add_def io_Inr_iffs controllers_def)

lemma cgroup_fold:
  "io_fold opt_cgroup c gs k h = (Inr c', h') \<Longrightarrow> controllers c' = controllers c @ gs"
proof (induction gs arbitrary: c h)
  case Nil
  then show ?case by (simp add: io_Inr_iffs)
next
  case (Cons g gs)
  then obtain c1 h1 where s: "opt_cgroup c g k h = (Inr c1, h1)" "io_fold opt_cgroup c1 gs k h1 = (Inr c', h')"
    unfolding io_fold.simps io_bind_Inr_iff by blast
  from Cons.IH [OF s(2)] opt_cgroup_adds [OF s(1)] show ?case by simp
qed

lemma others_keep_groups:
  "opt_mount b c x k h = (Inr c', h') \<Longrightarrow> controllers c' = controllers c"
  "opt_netif c y k h = (Inr c', h') \<Longrightarrow> controllers c' = controllers c"
  "opt_user args c k h = (Inr c', h') \<Longrightarrow> controllers c' = controllers c"
  "opt_user_map c x k h = (Inr c', h') \<Longrightarrow> controllers c' = controllers c"
  "opt_cap b t c x k h = (Inr c', h') \<Longrightarrow> controllers c' = controllers c"
  by (auto simp: opt_mount_def opt_netif_def opt_user_def opt_user_map_def opt_cap_def io_Inr_iffs
      io_lift_Inr_iff controllers_def Let_def split: if_splits)

lemma fold_keeps_groups:
  assumes "io_fold f s xs k h = (Inr s', h')"
    and "\<And>s x k h s' h'. f s x k h = (Inr s', h') \<Longrightarrow> controllers s' = controllers s"
  shows "controllers s' = controllers s"
  using io_fold_field [where g = controllers and u = "\<lambda>y. y", OF assms(2) _ assms(1)] by simp

lemma configure_groups:
  assumes "configure build to_cap args k h = (Inr c, h')"
  shows "map cg_controller (cf_cgroups c) = cgroup_arg args"
  using assms
proof (rule configureE)
  fix c1 h1 c2 h2 c3 h3 c4 h4 c5 h5 c6
  assume p: "io_fold (opt_mount build) (init_conf build) (mount_arg args) k h = (Inr c1, h1)"
    "io_fold opt_netif c1 (netif_arg args) k h1 = (Inr c2, h2)"
    "opt_user args c2 k h2 = (Inr c3, h3)"
    "io_fold opt_user_map c3 (user_map_arg args) k h3 = (Inr c4, h4)"
    "io_fold opt_cgroup c4 (cgroup_arg args) k h4 = (Inr c5, h5)"
    "io_fold (opt_cap build to_cap) c5 (caps_arg args) k h5 = (Inr c6, h')"
    "c = c6\<lparr>cf_flags := share_namespaces args (cf_flags c6)\<rparr>"
  have "controllers (init_conf build) = []" by (simp add: controllers_def init_conf_def)
  then have "controllers c4 = []"
    using fold_keeps_groups [OF p(1) others_keep_groups(1)] fold_keeps_groups [OF p(2) others_keep_groups(2)]
      others_keep_groups(3) [OF p(3)] fold_keeps_groups [OF p(4) others_keep_groups(4)] by simp
  with cgroup_fold [OF p(5)] fold_keeps_groups [OF p(6) others_keep_groups(5)] p(7) show ?thesis
    by (simp add: controllers_def)
qed

section \<open>The parent's run\<close>

lemma parentE:
  assumes "parent build junk n args c flags pid master_fd master tty eph fds k h = (Inr (Some st), h')"
  obtains fds' h1 h2 h3 w where
    "parent_sync build junk args c flags pid master fds k h = (Inr fds', h1)"
    "(if detach_flag args then serve_pty n master_fd else process_pty n tty master_fd) k h1 = (Inr True, h2)"
    "parent_end c pid fds' eph k h2 = (Inr st, h3)" "close_fd master_fd k h3 = (Inr w, h')"
proof -
  from assms obtain fds' h1 d h2 where
    r: "parent_sync build junk args c flags pid master fds k h = (Inr fds', h1)"
    "(if detach_flag args then serve_pty n master_fd else process_pty n tty master_fd) k h1 = (Inr d, h2)"
    "(if \<not> d then io_ret None
      else io_bind (parent_end c pid fds' eph) (\<lambda>status.
        io_seq (close_fd master_fd) (io_ret (Some status)))) k h2 = (Inr (Some st), h')"
    unfolding parent_def io_bind_Inr_iff [of "parent_sync _ _ _ _ _ _ _ _"]
      io_bind_Inr_iff [of "if _ then serve_pty _ _ else _"] by blast
  then obtain h3 w where "d" "parent_end c pid fds' eph k h2 = (Inr st, h3)"
    "close_fd master_fd k h3 = (Inr w, h')"
    by (cases d) (auto simp: io_bind_Inr_iff io_seq_Inr_iff io_ret_Inr_iff)
  with that r show ?thesis by simp
qed

lemma startE:
  assumes "start_container build junk n args c master_fd master tty k h = (Inr (Some st), h')"
  obtains u h1 fds h2 eph h3 pid flags h4 where
    "(if detach_flag args then do_daemonize else io_ret ()) k h = (Inr u, h1)"
    "sync_init k h1 = (Inr fds, h2)" "make_ephemeral args k h2 = (Inr eph, h3)"
    "do_clone (cf_flags c) k h3 = (Inr (pid, flags), h4)" "pid \<noteq> 0"
    "parent build junk n args c flags pid master_fd master tty eph fds k h4 = (Inr (Some st), h')"
proof -
  from assms obtain u h1 fds h2 eph h3 p h4 where
    r: "(if detach_flag args then do_daemonize else io_ret ()) k h = (Inr u, h1)"
    "sync_init k h1 = (Inr fds, h2)" "make_ephemeral args k h2 = (Inr eph, h3)"
    "do_clone (cf_flags c) k h3 = (Inr p, h4)"
    and rest: "(case p of (pid, flags) \<Rightarrow>
       if pid = 0 then
         io_seq (child build junk args c flags master_fd master tty eph fds) (io_ret None)
       else parent build junk n args c flags pid master_fd master tty eph fds) k h4 = (Inr (Some st), h')"
    unfolding start_container_def io_seq_Inr_iff [of "if _ then do_daemonize else _"]
      io_bind_Inr_iff [of sync_init] io_bind_Inr_iff [of "make_ephemeral _"] io_bind_Inr_iff [of "do_clone _"]
    by blast
  obtain pid flags where p: "p = (pid, flags)" by (cases p)
  from rest p have pid: "pid \<noteq> 0" by (auto simp: io_seq_Inr_iff io_ret_Inr_iff)
  with that r rest p show ?thesis by simp
qed

section \<open>Properties\<close>

text \<open>
  C3: What main makes it removes: when pflask's own process returns the
  container's exit status, whatever the options and the kernel's replies, the
  directories that it made are the ephemeral one, exactly with --ephemeral, and
  one control group for each --cgroup, in their order; and it has removed the
  groups in the same order and then the ephemeral directory, and nothing else.
\<close>

theorem main_removes_what_it_made:
  assumes run: "run_main build to_cap junk n args k [] = (Inr (Some st), h')"
  shows "\<exists>eph gs.
    map cg_controller gs = (if attach_arg args = None then cgroup_arg args else []) \<and>
    (eph \<noteq> None \<longleftrightarrow> attach_arg args = None \<and> ephemeral_flag args) \<and>
    (eph \<noteq> None \<longrightarrow> (\<exists>h. sdata (k h (Mkdtemp ''/tmp/pflask-ephemeral-XXXXXX'')) = eph)) \<and>
    filter is_dir h' =
      (case eph of None \<Rightarrow> [] | Some d \<Rightarrow> [Mkdtemp ''/tmp/pflask-ephemeral-XXXXXX'']) @
      map (\<lambda>i. Mkdir (dir_of i) mode_0755) gs @
      map (\<lambda>i. Rmdir (dir_of i)) gs @ (case eph of None \<Rightarrow> [] | Some d \<Rightarrow> [Rmdir d])"
proof -
  from run obtain c h1 where cf: "configure build to_cap args k [] = (Inr c, h1)"
    and rest: "(case attach_arg args of
       Some pid \<Rightarrow> attach n pid
     | None \<Rightarrow>
         io_bind (open_master_pty tty_init) (\<lambda>(master_fd, master, st).
           start_container build junk n args c master_fd master st)) k h1 = (Inr (Some st), h')"
    unfolding run_main_def io_bind_Inr_iff [of "configure _ _ _"] by blast
  from dirs_kept [OF no_dirs_configure cf] have h1: "filter is_dir h1 = []" by simp
  show ?thesis
  proof (cases "attach_arg args")
    case (Some pid)
    with rest dirs_kept [OF no_dirs_attach] h1 have "filter is_dir h' = []"
      by (metis option.simps(5))
    with Some show ?thesis by (intro exI [of _ None] exI [of _ "[]"]) simp
  next
    case None
    with rest obtain master_fd master tty h2 where
      m: "open_master_pty tty_init k h1 = (Inr (master_fd, master, tty), h2)"
      and st: "start_container build junk n args c master_fd master tty k h2 = (Inr (Some st), h')"
      by (auto simp: io_bind_Inr_iff)
    from st obtain u h3 fds h4 eph h5 pid flags h6 where
      d: "(if detach_flag args then do_daemonize else io_ret ()) k h2 = (Inr u, h3)"
      and s: "sync_init k h3 = (Inr fds, h4)" and e: "make_ephemeral args k h4 = (Inr eph, h5)"
      and cl: "do_clone (cf_flags c) k h5 = (Inr (pid, flags), h6)"
      and p: "parent build junk n args c flags pid master_fd master tty eph fds k h6 = (Inr (Some st), h')"
      by (rule startE)
    from p obtain fds' h7 h8 h9 w where
      ps: "parent_sync build junk args c flags pid master fds k h6 = (Inr fds', h7)"
      and l: "(if detach_flag args then serve_pty n master_fd else process_pty n tty master_fd) k h7
                = (Inr True, h8)"
      and pe: "parent_end c pid fds' eph k h8 = (Inr st, h9)" and cm: "close_fd master_fd k h9 = (Inr w, h')"
      by (rule parentE)
    have nd: "no_dirs (if detach_flag args then do_daemonize else io_ret ())"
      "no_dirs (if detach_flag args then serve_pty n master_fd else process_pty n tty master_fd)"
      by (simp_all add: no_dirs_daemonize no_dirs_serve no_dirs_process avoid.keeps_ret)
    note dirs = h1 dirs_kept [OF no_dirs_master m] dirs_kept [OF nd(1) d] dirs_kept [OF no_dirs_sync(1) s]
      make_ephemeral_dirs [OF e] dirs_kept [OF no_dirs_clone cl] parent_sync_dirs [OF ps]
      dirs_kept [OF nd(2) l] parent_end_dirs [OF pe] dirs_kept [OF no_dirs_close cm]
    show ?thesis
      using dirs None configure_groups [OF cf]
      by (intro exI [of _ eph] exI [of _ "cf_cgroups c"]) (auto split: option.splits)
  qed
qed

text \<open>A kernel on which the container's terminal is closed at once.\<close>

definition brief :: kernel where
  "brief h c =
     (case c of
        Clone f \<Rightarrow> ok\<lparr>rc := 42\<rparr>
      | Mkdtemp p \<Rightarrow> ok\<lparr>sdata := Some ''/tmp/e''\<rparr>
      | Tty (Ptsname f) \<Rightarrow> ok\<lparr>sdata := Some ''/dev/pts/7''\<rparr>
      | _ \<Rightarrow> ok)"

theorem main_removes_what_it_made_witness:
  "\<exists>h'. run_main plain_build (\<lambda>_. 0) (\<lambda>_. []) 1
      (no_args\<lparr>cgroup_arg := [''cpu''], ephemeral_flag := True\<rparr>) brief [] = (Inr (Some 0), h') \<and>
    (\<exists>d. filter is_dir h' = [Mkdtemp ''/tmp/pflask-ephemeral-XXXXXX'', Mkdir d mode_0755, Rmdir d, Rmdir ''/tmp/e''])"
proof -
  let ?a = "no_args\<lparr>cgroup_arg := [''cpu''], ephemeral_flag := True\<rparr>"
  let ?m = "run_main plain_build (\<lambda>_. 0) (\<lambda>_. []) 1 ?a"
  have "outcome ?m brief = Inr (Some 0)"
    by code_simp
  then obtain h' where run: "?m brief [] = (Inr (Some 0), h')"
    by (cases "?m brief []") (simp add: outcome_def)
  from main_removes_what_it_made [OF run] obtain eph gs where
    g: "map cg_controller gs = (if attach_arg ?a = None then cgroup_arg ?a else [])"
    "eph \<noteq> None \<longleftrightarrow> attach_arg ?a = None \<and> ephemeral_flag ?a"
    "eph \<noteq> None \<longrightarrow> (\<exists>h. sdata (brief h (Mkdtemp ''/tmp/pflask-ephemeral-XXXXXX'')) = eph)"
    and f: "filter is_dir h' =
      (case eph of None \<Rightarrow> [] | Some d \<Rightarrow> [Mkdtemp ''/tmp/pflask-ephemeral-XXXXXX'']) @
      map (\<lambda>i. Mkdir (dir_of i) mode_0755) gs @
      map (\<lambda>i. Rmdir (dir_of i)) gs @ (case eph of None \<Rightarrow> [] | Some d \<Rightarrow> [Rmdir d])"
    by blast
  from g(2,3) have "eph = Some ''/tmp/e''" by (auto simp: brief_def no_args_def)
  moreover obtain g where "gs = [g]" using g(1) by (cases gs) (auto simp: no_args_def)
  ultimately show ?thesis using run f by auto
qed

end
