(* ===== verification/Getopt.thy ===== *)
theory Getopt
  imports Clib
begin

text \<open>
  getopt_long of the GNU C library, as src/cmdline.c uses it: the whole sequence
  of options that the calls return for a command line, and the arguments that
  are left after optind when they end.  An error ends the sequence with a
  question mark, at which the parser stops.  Without POSIXLY_CORRECT options
  and other arguments may be mixed, and the latter are moved to the end.
\<close>

section \<open>The tables of cmdline.c\<close>

text \<open>Names, has_arg (0 none, 1 required, 2 optional) and values.\<close>

definition long_options :: "(cstring \<times> nat \<times> char) list" where
  "long_options =
     [(''help'', 0, CHR ''h''), (''version'', 0, CHR ''V''), (''chroot'', 1, CHR ''r''),
      (''chdir'', 1, CHR ''c''), (''hostname'', 1, CHR ''t''), (''mount'', 1, CHR ''m''),
      (''netif'', 2, CHR ''n''), (''user'', 1, CHR ''u''), (''user-map'', 1, CHR ''e''),
      (''ephemeral'', 0, CHR ''w''), (''cgroup'', 1, CHR ''g''), (''caps'', 1, CHR ''b''),
      (''detach'', 0, CHR ''d''), (''attach'', 1, CHR ''a''), (''setenv'', 1, CHR ''s''),
      (''keepenv'', 0, CHR ''k''), (''no-userns'', 0, CHR ''U''), (''no-mountns'', 0, CHR ''M''),
      (''no-netns'', 0, CHR ''N''), (''no-ipcns'', 0, CHR ''I''), (''no-utsns'', 0, CHR ''H''),
      (''no-pidns'', 0, CHR ''P'')]"

definition short_options :: cstring where
  "short_options = ''hVr:c:t:m:n::u:e:wg:b:da:s:kUMNIHP''"

section \<open>One element of the command line\<close>

text \<open>The has_arg of a short option, by the colons behind its letter.\<close>

definition short_kind :: "char \<Rightarrow> nat option" where
  "short_kind c =
     (case dropWhile (\<lambda>x. x \<noteq> c) short_options of
        [] \<Rightarrow> None
      | _ # r \<Rightarrow>
          if c = CHR '':'' \<or> c = CHR '';'' then None
          else Some (if take 2 r = ''::'' then 2 else if take 1 r = '':'' then 1 else 0))"

text \<open>
  A long option is found by its whole name, or else by a beginning of it that no
  other option has.
\<close>

definition find_long :: "cstring \<Rightarrow> (nat \<times> char) option" where
  "find_long name =
     (case map_of long_options name of
        Some x \<Rightarrow> Some x
      | None \<Rightarrow>
          (case filter (\<lambda>(n, _). take (length name) n = name) long_options of
             [(n, x)] \<Rightarrow> Some x
           | _ \<Rightarrow> None))"

text \<open>
  What an element gives: options; options and one whose argument is the next
  element; or options and then an error.
\<close>

type_synonym given_option = "char \<times> cstring option"

datatype element =
    Options "given_option list" | Needs "given_option list" char | Wrong "given_option list"

fun with_option :: "given_option \<Rightarrow> element \<Rightarrow> element" where
  "with_option p (Options os) = Options (p # os)"
| "with_option p (Needs os c) = Needs (p # os) c"
| "with_option p (Wrong os) = Wrong (p # os)"

fun cluster :: "cstring \<Rightarrow> element" where
  "cluster [] = Options []"
| "cluster (c # cs) =
     (case short_kind c of
        None \<Rightarrow> Wrong []
      | Some k \<Rightarrow>
          if k = 0 then with_option (c, None) (cluster cs)
          else if k = 1 then (if cs = [] then Needs [] c else Options [(c, Some cs)])
          else Options [(c, if cs = [] then None else Some cs)])"

definition long_element :: "cstring \<Rightarrow> element" where
  "long_element body =
     (let name = takeWhile (\<lambda>c. c \<noteq> CHR ''='') body;
          val = (if name = body then None else Some (drop (length name + 1) body))
      in case find_long name of
           None \<Rightarrow> Wrong []
         | Some (k, c) \<Rightarrow>
             if k = 0 then (if val = None then Options [(c, None)] else Wrong [])
             else if k = 1 then (if val = None then Needs [] c else Options [(c, val)])
             else Options [(c, val)])"

definition element_of :: "cstring \<Rightarrow> element" where
  "element_of a =
     (if take 2 a = ''--'' then long_element (drop 2 a) else cluster (drop 1 a))"

section \<open>The command line\<close>

definition is_option :: "cstring \<Rightarrow> bool" where
  "is_option a \<longleftrightarrow> take 1 a = ''-'' \<and> a \<noteq> ''-''"

fun getopt_all :: "bool \<Rightarrow> cstring list \<Rightarrow> given_option list \<times> cstring list" where
  "getopt_all posix [] = ([], [])"
| "getopt_all posix (a # as) =
     (if a = ''--'' then ([], as)
      else if \<not> is_option a then
        (if posix then ([], a # as)
         else case getopt_all posix as of (os, rest) \<Rightarrow> (os, a # rest))
      else
        (case element_of a of
           Options os \<Rightarrow> (case getopt_all posix as of (os', rest) \<Rightarrow> (os @ os', rest))
         | Wrong os \<Rightarrow> (os @ [(CHR ''?'', None)], [])
         | Needs os c \<Rightarrow>
             (case as of
                [] \<Rightarrow> (os @ [(CHR ''?'', None)], [])
              | v # vs \<Rightarrow>
                  (case getopt_all posix vs of (os', rest) \<Rightarrow> (os @ (c, Some v) # os', rest)))))"

section \<open>Writing a command line\<close>

definition option_name :: "char \<Rightarrow> cstring option" where
  "option_name c = map_option fst (find (\<lambda>(n, k, d). d = c) long_options)"

definition write_option :: "given_option \<Rightarrow> cstring" where
  "write_option opt =
     (case opt of (c, v) \<Rightarrow>
        ''--'' @ the (option_name c) @ (case v of None \<Rightarrow> [] | Some x \<Rightarrow> CHR ''='' # x))"

text \<open>An argument where the option takes one, or may take one.\<close>

definition well_formed :: "given_option \<Rightarrow> bool" where
  "well_formed opt =
     (case opt of (c, v) \<Rightarrow>
        list_ex (\<lambda>(n, k, d). d = c \<and> (k = 0 \<and> v = None \<or> k = 1 \<and> v \<noteq> None \<or> k = 2)) long_options)"

lemma table_ok:
  "list_all (\<lambda>(n, k, c). find_long n = Some (k, c) \<and> option_name c = Some n \<and> CHR ''='' \<notin> set n \<and> n \<noteq> [])
     long_options"
  by code_simp

lemma table_entry:
  assumes "(n, k, c) \<in> set long_options"
  shows "find_long n = Some (k, c)" "option_name c = Some n" "CHR ''='' \<notin> set n" "n \<noteq> []"
  using table_ok assms by (auto simp: list_all_iff)

lemma long_element_name:
  assumes "(n, k, c) \<in> set long_options" and "k = 0 \<and> v = None \<or> k = 1 \<and> v \<noteq> None \<or> k = 2"
  shows "long_element (n @ (case v of None \<Rightarrow> [] | Some x \<Rightarrow> CHR ''='' # x)) = Options [(c, v)]"
proof -
  have e: "CHR ''='' \<notin> set n" using table_entry(3) [OF assms(1)] .
  then have tw: "takeWhile (\<lambda>d. d \<noteq> CHR ''='') n = n" by (auto simp: takeWhile_eq_all_conv)
  show ?thesis
  proof (cases v)
    case None
    have "long_element n = Options [(c, None)]"
      using assms(2) None unfolding long_element_def Let_def tw table_entry(1) [OF assms(1)] by auto
    with None show ?thesis by simp
  next
    case (Some x)
    have tw': "takeWhile (\<lambda>d. d \<noteq> CHR ''='') (n @ CHR ''='' # x) = n"
      using e by (subst takeWhile_append2) auto
    have "long_element (n @ CHR ''='' # x) = Options [(c, Some x)]"
      using assms(2) Some unfolding long_element_def Let_def tw' table_entry(1) [OF assms(1)] by auto
    with Some show ?thesis by simp
  qed
qed

lemma element_write:
  assumes "well_formed opt"
  shows "element_of (write_option opt) = Options [opt]" "is_option (write_option opt)" "write_option opt \<noteq> ''--''"
proof -
  obtain c v where opt: "opt = (c, v)" by (cases opt)
  from assms obtain n k where nk: "(n, k, c) \<in> set long_options"
    "k = 0 \<and> v = None \<or> k = 1 \<and> v \<noteq> None \<or> k = 2"
    by (auto simp: well_formed_def opt list_ex_iff)
  show "element_of (write_option opt) = Options [opt]" "is_option (write_option opt)"
    using long_element_name [OF nk] table_entry(2) [OF nk(1)]
    by (simp_all add: element_of_def write_option_def opt is_option_def)
  show "write_option opt \<noteq> ''--''" using table_entry(4) [OF nk(1)] table_entry(2) [OF nk(1)] by (simp add: write_option_def opt)
qed

definition write_line :: "given_option list \<Rightarrow> cstring list \<Rightarrow> cstring list" where
  "write_line opts command = map write_option opts @ ''--'' # command"

lemma getopt_write:
  "list_all well_formed opts \<Longrightarrow> getopt_all posix (write_line opts command) = (opts, command)"
proof (induction opts)
  case (Cons opt opts)
  then have "element_of (write_option opt) = Options [opt]" "is_option (write_option opt)"
    "write_option opt \<noteq> ''--''" using element_write by simp_all
  with Cons show ?case by (simp add: write_line_def)
qed (simp add: write_line_def)

section \<open>Every command line\<close>

lemma short_ok:
  "list_all (\<lambda>c. case short_kind c of None \<Rightarrow> True
     | Some k \<Rightarrow> list_ex (\<lambda>(n, k', d). d = c \<and> k' = k) long_options) short_options"
  by code_simp

lemma short_table:
  assumes "short_kind c = Some k"
  shows "\<exists>n. (n, k, c) \<in> set long_options"
proof -
  have "c \<in> set short_options"
  proof (rule ccontr)
    assume "c \<notin> set short_options"
    then have "dropWhile (\<lambda>x. x \<noteq> c) short_options = []" by (auto simp: dropWhile_eq_Nil_conv)
    with assms show False by (simp add: short_kind_def)
  qed
  with short_ok have "list_ex (\<lambda>(n, k', d). d = c \<and> k' = k) long_options"
    using assms by (auto simp: list_all_iff dest!: bspec [of _ _ c])
  then show ?thesis by (auto simp: list_ex_iff)
qed

lemma kinds_ok: "list_all (\<lambda>(n, k, c). k = 0 \<or> k = 1 \<or> k = 2) long_options"
  by code_simp

lemma table_kind: "(n, k, c) \<in> set long_options \<Longrightarrow> k = 0 \<or> k = 1 \<or> k = 2"
  using kinds_ok by (fastforce simp: list_all_iff)

lemma well_formedI:
  "(n, k, c) \<in> set long_options \<Longrightarrow> k = 0 \<and> v = None \<or> k = 1 \<and> v \<noteq> None \<or> k = 2 \<Longrightarrow>
   well_formed (c, v)"
  unfolding well_formed_def list_ex_iff by fastforce

definition element_ok :: "element \<Rightarrow> bool" where
  "element_ok e =
     (case e of
        Options os \<Rightarrow> list_all well_formed os
      | Needs os c \<Rightarrow> list_all well_formed os \<and> (\<forall>v. well_formed (c, Some v))
      | Wrong os \<Rightarrow> list_all well_formed os)"

lemma element_ok_with: "element_ok (with_option p e) \<longleftrightarrow> well_formed p \<and> element_ok e"
  by (cases e) (auto simp: element_ok_def)

lemma cluster_ok: "element_ok (cluster cs)"
proof (induction cs)
  case (Cons c cs)
  show ?case
  proof (cases "short_kind c")
    case None
    then show ?thesis by (simp add: element_ok_def)
  next
    case (Some k)
    then obtain n where n: "(n, k, c) \<in> set long_options" using short_table by blast
    show ?thesis
      using Some Cons well_formedI [OF n] table_kind [OF n]
      by (auto simp: element_ok_with) (auto simp: element_ok_def)
  qed
qed (simp add: element_ok_def)

lemma find_long_table: "find_long name = Some (k, c) \<Longrightarrow> \<exists>n. (n, k, c) \<in> set long_options"
proof -
  assume f: "find_long name = Some (k, c)"
  show ?thesis
  proof (cases "map_of long_options name")
    case None
    with f obtain n where "filter (\<lambda>(n, _). take (length name) n = name) long_options = [(n, k, c)]"
      by (auto simp: find_long_def split: list.splits)
    then have "(n, k, c) \<in> set (filter (\<lambda>(n, _). take (length name) n = name) long_options)" by simp
    then show ?thesis by auto
  next
    case (Some x)
    with f have "map_of long_options name = Some (k, c)" by (simp add: find_long_def)
    from map_of_SomeD [OF this] show ?thesis by blast
  qed
qed

lemma long_ok: "element_ok (long_element body)"
proof (cases "find_long (takeWhile (\<lambda>c. c \<noteq> CHR ''='') body)")
  case None
  then show ?thesis by (simp add: long_element_def element_ok_def)
next
  case (Some x)
  obtain k c where x: "x = (k, c)" by (cases x)
  with Some find_long_table obtain n where n: "(n, k, c) \<in> set long_options" by blast
  show ?thesis
    using Some x well_formedI [OF n] table_kind [OF n]
    by (auto simp: long_element_def element_ok_def Let_def)
qed

lemma element_of_ok: "element_ok (element_of a)"
  by (simp add: element_of_def cluster_ok long_ok)

definition from_getopt :: "given_option \<Rightarrow> bool" where
  "from_getopt opt \<longleftrightarrow> well_formed opt \<or> fst opt = CHR ''?''"

lemma getopt_well_formed: "list_all from_getopt (fst (getopt_all posix argv))"
proof (induction posix argv rule: getopt_all.induct)
  case (2 posix a as)
  note IH = "2.IH"
  have wf: "list_all well_formed os \<Longrightarrow> list_all from_getopt os" for os
    by (auto simp: list_all_iff from_getopt_def)
  consider "a = ''--''" | "a \<noteq> ''--''" "\<not> is_option a" | "a \<noteq> ''--''" "is_option a" by blast
  then show ?case
  proof cases
    case 2
    with IH(1) [OF 2] show ?thesis by (auto split: prod.split)
  next
    case 3
    show ?thesis
    proof (cases "element_of a")
      case (Options os)
      with element_of_ok [of a] have "list_all from_getopt os" by (simp add: element_ok_def wf)
      with IH(2) 3 Options show ?thesis by (auto split: prod.split)
    next
      case (Wrong os)
      with element_of_ok [of a] have "list_all from_getopt os" by (simp add: element_ok_def wf)
      moreover have "from_getopt (CHR ''?'', None)" by (simp add: from_getopt_def)
      ultimately show ?thesis using 3 Wrong by simp
    next
      case (Needs os c)
      with element_of_ok [of a] have n: "list_all from_getopt os" "from_getopt (c, Some v)" for v
        by (simp_all add: element_ok_def wf from_getopt_def)
      show ?thesis
      proof (cases as)
        case Nil
        moreover have "from_getopt (CHR ''?'', None)" by (simp add: from_getopt_def)
        ultimately show ?thesis using 3 Needs n by simp
      next
        case (Cons v vs)
        with IH(3) 3 Needs n show ?thesis by (auto split: prod.split)
      qed
    qed
  qed simp
qed simp

end
