(* ===== verification/Cmdline.thy ===== *)
theory Cmdline
  imports Getopt
begin

text \<open>
  src/cmdline.c, the option parser that gengetopt generated.  Options that may be
  given several times are split at commas, unless these are escaped by a
  backslash, into nodes of a list, which in the end is turned over into an array;
  the other options are stored at once, and refused the second time.

  The fields of struct gengetopt_args_info are indexed by their options.  The
  counters are natural numbers: a command line is too short to make them wrap.
  Strings are values here; Cmdline_Memory has the same functions with the blocks
  that they allocate and free.  The printing of messages is left out.
\<close>

section \<open>The options\<close>

datatype single =
    O_chroot | O_chdir | O_hostname | O_user | O_ephemeral | O_detach | O_attach | O_keepenv
  | O_no_userns | O_no_mountns | O_no_netns | O_no_ipcns | O_no_utsns | O_no_pidns

datatype multi = M_mount | M_netif | M_user_map | M_cgroup | M_caps | M_setenv

datatype arg_type = ARG_NO | ARG_FLAG | ARG_STRING | ARG_INT

text \<open>What a field may hold; a string is a pointer that may be NULL.\<close>

datatype field_val = FlagVal bool | IntVal "32 word" | StrVal "cstring option"

record field =
  f_arg :: field_val
  f_orig :: "cstring option"
  f_given :: "nat option"

text \<open>The arrays of a multiple option; [] stands for a NULL array.\<close>

record multi_field =
  mf_arg :: "cstring option list"
  mf_orig :: "cstring option list"
  mf_given :: nat
  mf_min :: nat
  mf_max :: nat

record args_info =
  ai_single :: "single \<Rightarrow> field"
  ai_multi :: "multi \<Rightarrow> multi_field"

text \<open>The type of an option and its letter in the switch.\<close>

definition arg_type_of :: "single \<Rightarrow> arg_type" where
  "arg_type_of s =
     (if s \<in> {O_chroot, O_chdir, O_hostname, O_user} then ARG_STRING
      else if s = O_attach then ARG_INT else ARG_FLAG)"

definition single_of :: "char \<Rightarrow> single option" where
  "single_of = map_of
     [(CHR ''r'', O_chroot), (CHR ''c'', O_chdir), (CHR ''t'', O_hostname), (CHR ''u'', O_user),
      (CHR ''w'', O_ephemeral), (CHR ''d'', O_detach), (CHR ''a'', O_attach), (CHR ''k'', O_keepenv),
      (CHR ''U'', O_no_userns), (CHR ''M'', O_no_mountns), (CHR ''N'', O_no_netns),
      (CHR ''I'', O_no_ipcns), (CHR ''H'', O_no_utsns), (CHR ''P'', O_no_pidns)]"

definition multi_of :: "char \<Rightarrow> multi option" where
  "multi_of = map_of
     [(CHR ''m'', M_mount), (CHR ''n'', M_netif), (CHR ''e'', M_user_map), (CHR ''g'', M_cgroup),
      (CHR ''b'', M_caps), (CHR ''s'', M_setenv)]"

section \<open>Initial values\<close>

text \<open>clear_given and clear_args.  The value of --attach is not initialised.\<close>

definition clear_single :: "single \<Rightarrow> 32 word \<Rightarrow> field" where
  "clear_single s junk =
     \<lparr>f_arg =
        (case arg_type_of s of
           ARG_STRING \<Rightarrow> StrVal (if s = O_user then Some ''root'' else None)
         | ARG_INT \<Rightarrow> IntVal junk
         | _ \<Rightarrow> FlagVal False),
      f_orig = None, f_given = Some 0\<rparr>"

definition clear_multi :: multi_field where
  "clear_multi = \<lparr>mf_arg = [], mf_orig = [], mf_given = 0, mf_min = 0, mf_max = 0\<rparr>"

definition cmdline_parser_init :: "32 word \<Rightarrow> args_info" where
  "cmdline_parser_init junk =
     \<lparr>ai_single = (\<lambda>s. clear_single s junk), ai_multi = (\<lambda>_. clear_multi)\<rparr>"

section \<open>Splitting at commas\<close>

text \<open>
  strchr from an index on; then the loop of both functions: the first comma
  without a backslash before it, and the number of escaped commas before it.
  \<open>prev\<close> is the character before the string, which the code reads if the string
  starts with a comma: the end of the previous argument, an equals sign, the
  option's letter, or the comma that ended the previous token.
\<close>

definition strchr_from :: "cstring \<Rightarrow> nat \<Rightarrow> char \<Rightarrow> nat option" where
  "strchr_from s i c =
     (let n = length (takeWhile (\<lambda>x. x \<noteq> c) (drop i s)) in if i + n < length s then Some (i + n) else None)"

lemma strchr_from_bounds: "strchr_from s i c = Some j \<Longrightarrow> i \<le> j \<and> j < length s"
  by (auto simp: strchr_from_def Let_def split: if_splits)

function find_tok :: "char \<Rightarrow> cstring \<Rightarrow> nat option \<Rightarrow> nat \<Rightarrow> nat option \<times> nat" where
  "find_tok prev arg None n = (None, n)"
| "find_tok prev arg (Some i) n =
     (if (if i = 0 then prev else arg ! (i - 1)) = CHR 0x5C
      then find_tok prev arg (strchr_from arg (i + 1) CHR '','') (n + 1)
      else (Some i, n))"
  by pat_completeness auto
termination
  by (relation "measure (\<lambda>(prev, arg, t, n). case t of None \<Rightarrow> 0 | Some i \<Rightarrow> Suc (length arg - i))")
    (auto split: option.split dest: strchr_from_bounds)

text \<open>The copying loop, for the rest of the string and the room that is left.\<close>

fun copy_tok :: "cstring \<Rightarrow> nat \<Rightarrow> cstring" where
  "copy_tok [] n = []"
| "copy_tok (c # cs) 0 = []"
| "copy_tok (c # cs) (Suc n) =
     (case cs of
        [] \<Rightarrow> [c]
      | d # ds \<Rightarrow> if c = CHR 0x5C \<and> d = CHR '','' then d # copy_tok ds n else c # copy_tok cs n)"

definition get_multiple_arg_token :: "char \<Rightarrow> cstring option \<Rightarrow> cstring option" where
  "get_multiple_arg_token prev arg =
     (case arg of
        None \<Rightarrow> None
      | Some arg \<Rightarrow>
          (case find_tok prev arg (strchr_from arg 0 CHR '','') 0 of (tok, num_of_escape) \<Rightarrow>
             let len = (case tok of Some i \<Rightarrow> i + 1 | None \<Rightarrow> length arg + 1) - num_of_escape
             in Some (copy_tok arg (len - 1))))"

definition get_multiple_arg_token_next :: "char \<Rightarrow> cstring option \<Rightarrow> cstring option" where
  "get_multiple_arg_token_next prev arg =
     (case arg of
        None \<Rightarrow> None
      | Some arg \<Rightarrow>
          (case fst (find_tok prev arg (strchr_from arg 0 CHR '','') 0) of
             None \<Rightarrow> None
           | Some i \<Rightarrow> if length (drop i arg) = 1 then None else Some (drop (i + 1) arg)))"

section \<open>Storing\<close>

text \<open>
  strtol with base 0: white space, a sign, 0x and hexadecimal digits, 0 and octal
  digits, or decimal digits; the value is cut off at the ends of long.
\<close>

definition digit_in :: "nat \<Rightarrow> char \<Rightarrow> nat option" where
  "digit_in base c =
     (let n = of_char c :: nat;
          v = (if 48 \<le> n \<and> n \<le> 57 then n - 48
               else if 97 \<le> n \<and> n \<le> 122 then n - 87
               else if 65 \<le> n \<and> n \<le> 90 then n - 55 else base)
      in if v < base then Some v else None)"

definition value_in :: "nat \<Rightarrow> cstring \<Rightarrow> nat" where
  "value_in base ds = foldl (\<lambda>n c. base * n + the (digit_in base c)) 0 ds"

definition strtol0 :: "cstring \<Rightarrow> int \<times> cstring" where
  "strtol0 s =
     (let s1 = dropWhile isspace s;
          neg = (take 1 s1 = ''-'');
          s2 = (if take 1 s1 = ''-'' \<or> take 1 s1 = ''+'' then drop 1 s1 else s1);
          hex = (take 1 s2 = ''0'' \<and> take 1 (drop 1 s2) \<in> {''x'', ''X''} \<and>
                 (case drop 2 s2 of c # _ \<Rightarrow> digit_in 16 c \<noteq> None | [] \<Rightarrow> False));
          base = (if hex then 16 else if take 1 s2 = ''0'' then 8 else 10);
          s3 = (if hex then drop 2 s2 else s2);
          ds = takeWhile (\<lambda>c. digit_in base c \<noteq> None) s3;
          n = int (value_in base ds)
      in if ds = [] then (0, s)
         else (max (- (2 ^ 63)) (min (2 ^ 63 - 1) (if neg then - n else n)),
               dropWhile (\<lambda>c. digit_in base c \<noteq> None) s3))"

text \<open>
  update_arg, for options without a fixed set of values; None is a failure.  The
  old string is freed, and \<open>f_given\<close> is None where the code passes no counter.
\<close>

definition update_arg ::
  "field \<Rightarrow> nat \<Rightarrow> cstring option \<Rightarrow> arg_type \<Rightarrow> bool \<Rightarrow> bool \<Rightarrow> bool \<Rightarrow> (field \<times> nat) option" where
  "update_arg fld prev_given value arg_type check_ambiguity override multiple_option =
     (let given = (case f_given fld of None \<Rightarrow> False | Some n \<Rightarrow> n \<noteq> 0) in
      if \<not> multiple_option \<and> (prev_given \<noteq> 0 \<or> check_ambiguity \<and> given) then None
      else if given \<and> \<not> override then Some (fld, prev_given)
      else
        let prev_given = prev_given + 1;
            fld = fld\<lparr>f_given := map_option Suc (f_given fld)\<rparr>
        in case arg_type of
             ARG_NO \<Rightarrow> Some (fld, prev_given)
           | ARG_FLAG \<Rightarrow>
               Some (fld\<lparr>f_arg := (case f_arg fld of FlagVal b \<Rightarrow> FlagVal (\<not> b) | v \<Rightarrow> v)\<rparr>, prev_given)
           | ARG_INT \<Rightarrow>
               (case value of
                  None \<Rightarrow> Some (fld, prev_given)
                | Some v \<Rightarrow>
                    (case strtol0 v of (n, stop_char) \<Rightarrow>
                       if stop_char \<noteq> [] then None
                       else Some (fld\<lparr>f_arg := IntVal (of_int n), f_orig := Some v\<rparr>, prev_given)))
           | ARG_STRING \<Rightarrow>
               (case value of
                  None \<Rightarrow> Some (fld, prev_given)
                | Some v \<Rightarrow> Some (fld\<lparr>f_arg := StrVal (Some v), f_orig := Some v\<rparr>, prev_given)))"

section \<open>Multiple options\<close>

text \<open>add_node with the call of update_arg on the new node.\<close>

definition new_node :: field where
  "new_node = \<lparr>f_arg = StrVal None, f_orig = None, f_given = None\<rparr>"

lemma find_tok_bound: "fst (find_tok prev arg t n) = Some i \<Longrightarrow> (\<And>j. t = Some j \<Longrightarrow> j < length arg) \<Longrightarrow> i < length arg"
  by (induction prev arg t n rule: find_tok.induct) (auto split: if_splits dest: strchr_from_bounds)

lemma next_shorter: "get_multiple_arg_token_next prev arg = Some s \<Longrightarrow> \<exists>a. arg = Some a \<and> length s < length a"
  by (auto simp: get_multiple_arg_token_next_def split: option.splits if_splits
      dest!: find_tok_bound dest: strchr_from_bounds)

text \<open>The loop, from a node on; \<open>val\<close> is what is left of the argument.\<close>

function add_tokens :: "field list \<Rightarrow> nat \<Rightarrow> char \<Rightarrow> cstring option \<Rightarrow> (field list \<times> nat) option" where
  "add_tokens list prev_given prev val =
     (case update_arg new_node prev_given (get_multiple_arg_token prev val) ARG_STRING False True True of
        None \<Rightarrow> None
      | Some (node, prev_given) \<Rightarrow>
          (case get_multiple_arg_token_next prev val of
             None \<Rightarrow> Some (node # list, prev_given)
           | Some rest \<Rightarrow> add_tokens (node # list) prev_given CHR '','' (Some rest)))"
  by pat_completeness auto
termination
  by (relation "measure (\<lambda>(l, n, p, val). case val of None \<Rightarrow> 0 | Some s \<Rightarrow> length s)")
    (auto dest: next_shorter)

definition update_multiple_arg_temp ::
  "field list \<Rightarrow> nat \<Rightarrow> cstring option \<Rightarrow> arg_type \<Rightarrow> (field list \<times> nat) option" where
  "update_multiple_arg_temp list prev_given val arg_type =
     (if arg_type = ARG_NO then Some (list, prev_given + 1)
      else add_tokens list prev_given CHR 0x00 val)"

definition node_string :: "field \<Rightarrow> cstring option" where
  "node_string node = (case f_arg node of StrVal s \<Rightarrow> s | _ \<Rightarrow> None)"

text \<open>
  The loop of update_multiple_arg: from the last position down to the first new
  one.  A list that is too short is a NULL dereference.
\<close>

fun fill :: "nat \<Rightarrow> nat \<Rightarrow> field list \<Rightarrow> cstring option list \<times> cstring option list \<Rightarrow>
   failure + (cstring option list \<times> cstring option list)" where
  "fill 0 field_given list (arg, orig) = Inr (arg, orig)"
| "fill (Suc i) field_given [] (arg, orig) = Inl (Crash ''tmp->arg'')"
| "fill (Suc i) field_given (node # list) (arg, orig) =
     fill i field_given list
       (arg[i + field_given := node_string node], orig[i + field_given := f_orig node])"

text \<open>realloc: new places hold what malloc left there, written as NULL here.\<close>

definition realloc :: "'a option list \<Rightarrow> nat \<Rightarrow> 'a option list" where
  "realloc xs n = take n xs @ replicate (n - length xs) None"

definition update_multiple_arg ::
  "multi_field \<Rightarrow> nat \<Rightarrow> cstring option \<Rightarrow> field list \<Rightarrow> failure + multi_field" where
  "update_multiple_arg mf prev_given default_value list =
     (if prev_given \<noteq> 0 \<and> list \<noteq> [] then
        (let n = mf_given mf + prev_given in
         case fill prev_given (mf_given mf) list (realloc (mf_arg mf) n, realloc (mf_orig mf) n) of
           Inl e \<Rightarrow> Inl e
         | Inr (arg, orig) \<Rightarrow> Inr (mf\<lparr>mf_arg := arg, mf_orig := orig\<rparr>))
      else if default_value \<noteq> None \<and> mf_given mf = 0 then
        Inr (mf\<lparr>mf_arg := (if mf_arg mf = [] then [default_value] else mf_arg mf),
                mf_orig := (if mf_orig mf = [] then [None] else mf_orig mf)\<rparr>)
      else Inr mf)"

section \<open>Checks\<close>

definition check_multiple_option_occurrences :: "nat \<Rightarrow> nat \<Rightarrow> nat \<Rightarrow> bool" where
  "check_multiple_option_occurrences option_given min_n max_n =
     (if option_given \<noteq> 0 \<and> (min_n > 0 \<or> max_n > 0) then
        (if min_n > 0 \<and> max_n > 0 then
           (if min_n = max_n then option_given \<noteq> min_n else option_given < min_n \<or> option_given > max_n)
         else if min_n > 0 then option_given < min_n
         else if max_n > 0 then option_given > max_n
         else False)
      else False)"

definition is_given :: "args_info \<Rightarrow> single \<Rightarrow> bool" where
  "is_given ai s \<longleftrightarrow> f_given (ai_single ai s) \<noteq> Some 0"

definition cmdline_parser_required2 :: "args_info \<Rightarrow> bool" where
  "cmdline_parser_required2 ai \<longleftrightarrow>
     list_ex (\<lambda>m. check_multiple_option_occurrences (mf_given (ai_multi ai m)) (mf_min (ai_multi ai m))
                    (mf_max (ai_multi ai m)))
       [M_mount, M_netif, M_user_map, M_cgroup, M_caps, M_setenv] \<or>
     is_given ai O_ephemeral \<and> \<not> is_given ai O_chroot"

section \<open>The parser\<close>

text \<open>The variables of cmdline_parser_internal: of local_args_info only the counters are used.\<close>

record parse =
  p_info :: args_info
  p_single :: "single \<Rightarrow> nat"
  p_multi :: "multi \<Rightarrow> nat"
  p_list :: "multi \<Rightarrow> field list"

definition parse_init :: "32 word \<Rightarrow> parse" where
  "parse_init junk =
     \<lparr>p_info = cmdline_parser_init junk, p_single = (\<lambda>_. 0), p_multi = (\<lambda>_. 0), p_list = (\<lambda>_. [])\<rparr>"

text \<open>
  One round of the switch.  --help and --version print and exit with success; a
  failure makes cmdline_parser2 exit with EXIT_FAILURE.
\<close>

definition parse_single :: "parse \<Rightarrow> single \<Rightarrow> cstring option \<Rightarrow> failure + parse" where
  "parse_single p s optarg =
     (case update_arg (ai_single (p_info p) s) (p_single p s) optarg (arg_type_of s) False False False of
        None \<Rightarrow> Inl (Exit 1)
      | Some (fld, n) \<Rightarrow>
          Inr (p\<lparr>p_info := (p_info p)\<lparr>ai_single := (ai_single (p_info p))(s := fld)\<rparr>,
                 p_single := (p_single p)(s := n)\<rparr>))"

definition parse_multi :: "parse \<Rightarrow> multi \<Rightarrow> cstring option \<Rightarrow> failure + parse" where
  "parse_multi p m optarg =
     (case update_multiple_arg_temp (p_list p m) (p_multi p m) optarg ARG_STRING of
        None \<Rightarrow> Inl (Exit 1)
      | Some (list, n) \<Rightarrow>
          Inr (p\<lparr>p_list := (p_list p)(m := list), p_multi := (p_multi p)(m := n)\<rparr>))"

definition parse_step :: "parse \<Rightarrow> given_option \<Rightarrow> failure + parse" where
  "parse_step p opt =
     (case opt of (c, optarg) \<Rightarrow>
        if c = CHR ''h'' \<or> c = CHR ''V'' then Inl (Exit 0)
        else if c = CHR ''?'' then Inl (Exit 1)
        else
          (case single_of c of
             Some s \<Rightarrow> parse_single p s optarg
           | None \<Rightarrow>
               (case multi_of c of
                  Some m \<Rightarrow> parse_multi p m optarg
                | None \<Rightarrow> Inl (Crash ''abort()''))))"

fun parse_all :: "parse \<Rightarrow> given_option list \<Rightarrow> failure + parse" where
  "parse_all p [] = Inr p"
| "parse_all p (opt # opts) =
     (case parse_step p opt of Inl e \<Rightarrow> Inl e | Inr p' \<Rightarrow> parse_all p' opts)"

text \<open>What follows the loop: the arrays, the counters, the checks.\<close>

definition finish_multi :: "parse \<Rightarrow> multi \<Rightarrow> failure + multi_field" where
  "finish_multi p m =
     (case update_multiple_arg (ai_multi (p_info p) m) (p_multi p m)
             (if m = M_caps then Some ''+all'' else None) (p_list p m) of
        Inl e \<Rightarrow> Inl e
      | Inr mf \<Rightarrow> Inr (mf\<lparr>mf_given := mf_given mf + p_multi p m\<rparr>))"

fun finish_all :: "parse \<Rightarrow> multi list \<Rightarrow> failure + parse" where
  "finish_all p [] = Inr p"
| "finish_all p (m # ms) =
     (case finish_multi p m of
        Inl e \<Rightarrow> Inl e
      | Inr mf \<Rightarrow>
          finish_all (p\<lparr>p_info := (p_info p)\<lparr>ai_multi := (ai_multi (p_info p))(m := mf)\<rparr>,
                        p_multi := (p_multi p)(m := 0)\<rparr>) ms)"

definition parse_end :: "parse \<Rightarrow> failure + args_info" where
  "parse_end p =
     (case finish_all p [M_mount, M_netif, M_user_map, M_cgroup, M_caps, M_setenv] of
        Inl e \<Rightarrow> Inl e
      | Inr p' \<Rightarrow>
          if cmdline_parser_required2 (p_info p') then Inl (Exit 1) else Inr (p_info p'))"

definition parse_options :: "32 word \<Rightarrow> given_option list \<Rightarrow> failure + args_info" where
  "parse_options junk opts =
     (case parse_all (parse_init junk) opts of Inl e \<Rightarrow> Inl e | Inr p \<Rightarrow> parse_end p)"

definition cmdline_parser :: "bool \<Rightarrow> 32 word \<Rightarrow> cstring list \<Rightarrow> failure + (args_info \<times> cstring list)" where
  "cmdline_parser posix junk argv =
     (case getopt_all posix argv of (opts, rest) \<Rightarrow>
        (case parse_options junk opts of Inl e \<Rightarrow> Inl e | Inr ai \<Rightarrow> Inr (ai, rest)))"


section \<open>Tokens\<close>

text \<open>The search for a comma, character by character.\<close>

fun scan :: "char \<Rightarrow> cstring \<Rightarrow> nat option \<times> nat" where
  "scan prev [] = (None, 0)"
| "scan prev (c # cs) =
     (if c = CHR '','' \<and> prev \<noteq> CHR 0x5C then (Some 0, 0)
      else case scan c cs of (t, n) \<Rightarrow> (map_option Suc t, if c = CHR '','' then n + 1 else n))"

lemma strchr_from_Cons:
  "i < length s \<Longrightarrow> strchr_from s i c = (if s ! i = c then Some i else strchr_from s (Suc i) c)"
proof -
  assume i: "i < length s"
  then have d: "drop i s = s ! i # drop (Suc i) s" by (simp add: Cons_nth_drop_Suc)
  from i show ?thesis by (simp add: strchr_from_def Let_def d)
qed

lemma strchr_from_end: "length s \<le> i \<Longrightarrow> strchr_from s i c = None"
  by (simp add: strchr_from_def)

lemma find_tok_scan:
  "i \<le> length arg \<Longrightarrow>
   find_tok prev arg (strchr_from arg i CHR '','') n =
     (case scan (if i = 0 then prev else arg ! (i - 1)) (drop i arg) of
        (t, m) \<Rightarrow> (map_option ((+) i) t, n + m))"
proof (induction "length arg - i" arbitrary: i n)
  case 0
  then show ?case by (simp add: strchr_from_end)
next
  case (Suc k)
  define c where "c = arg ! i"
  with Suc have i: "i < length arg" "drop i arg = c # drop (Suc i) arg"
    by (auto simp: Cons_nth_drop_Suc)
  have IH: "find_tok prev arg (strchr_from arg (Suc i) CHR '','') m =
     (case scan c (drop (Suc i) arg) of (t, l) \<Rightarrow> (map_option ((+) (Suc i)) t, m + l))" for m
    using Suc(1) [of "Suc i" m] Suc(2) i(1) by (simp add: c_def)
  have s: "strchr_from arg i CHR '','' = (if c = CHR '','' then Some i else strchr_from arg (Suc i) CHR '','')"
    using strchr_from_Cons [OF i(1)] by (simp add: c_def)
  obtain t l where tl: "scan c (drop (Suc i) arg) = (t, l)" by fastforce
  show ?case
  proof (cases "c = CHR '',''")
    case True
    with IH tl show ?thesis unfolding s i(2) by (cases t) auto
  next
    case False
    with IH tl show ?thesis unfolding s i(2) by (cases t) auto
  qed
qed

text \<open>Values in an argument: their commas escaped, and commas between them.\<close>

definition escape :: "cstring \<Rightarrow> cstring" where
  "escape v = concat (map (\<lambda>c. if c = CHR '','' then [CHR 0x5C, c] else [c]) v)"

definition commas :: "cstring \<Rightarrow> nat" where
  "commas v = length (filter (\<lambda>c. c = CHR '','') v)"

lemma escape_simps [simp]:
  "escape [] = []" "escape (c # v) = (if c = CHR '','' then [CHR 0x5C, c] else [c]) @ escape v"
  "commas [] = 0" "commas (c # v) = (if c = CHR '','' then Suc (commas v) else commas v)"
  by (simp_all add: escape_def commas_def)

lemma escape_length: "length (escape v) = length v + commas v"
  by (induction v) auto

lemma escape_hd: "escape v \<noteq> [] \<Longrightarrow> hd (escape v) \<noteq> CHR '',''"
  by (cases v) auto

text \<open>Nothing or a comma follows; a comma not after a backslash.\<close>

definition ends :: "char \<Rightarrow> cstring \<Rightarrow> cstring \<Rightarrow> bool" where
  "ends prev v r \<longleftrightarrow> r = [] \<or> hd r = CHR '','' \<and> last (prev # v) \<noteq> CHR 0x5C"

lemma ends_Cons: "ends prev (c # v) r \<longleftrightarrow> ends c v r"
  by (simp add: ends_def)

lemma scan_escape:
  "ends prev v r \<Longrightarrow>
   scan prev (escape v @ r) = (if r = [] then None else Some (length (escape v)), commas v)"
proof (induction v arbitrary: prev)
  case Nil
  then show ?case by (cases r) (auto simp: ends_def)
next
  case (Cons c v)
  then have "ends c v r" by (simp add: ends_Cons)
  note IH = Cons.IH [OF this]
  show ?case
  proof (cases "c = CHR '',''")
    case True
    with IH show ?thesis by simp
  next
    case False
    with IH show ?thesis by simp
  qed
qed

lemma copy_escape:
  "ends prev v r \<Longrightarrow> copy_tok (escape v @ r) (length v) = v"
proof (induction v arbitrary: prev)
  case Nil
  then show ?case by (cases r) auto
next
  case (Cons c v)
  then have e: "ends c v r" by (simp add: ends_Cons)
  note IH = Cons.IH [OF e]
  show ?case
  proof (cases "c = CHR '',''")
    case True
    with IH show ?thesis by simp
  next
    case False
    show ?thesis
    proof (cases "escape v @ r")
      case Nil
      then have "v = []" by (cases v) (auto split: if_splits)
      with False Nil show ?thesis by simp
    next
      case (Cons d ds)
      have "\<not> (c = CHR 0x5C \<and> d = CHR '','')"
      proof
        assume cd: "c = CHR 0x5C \<and> d = CHR '',''"
        then have "v = []" using Cons escape_hd [of v] by (cases v) (auto split: if_splits)
        with cd e Cons show False by (auto simp: ends_def)
      qed
      with False Cons IH show ?thesis by simp
    qed
  qed
qed

lemma token_escape:
  assumes "ends prev v r"
  shows "get_multiple_arg_token prev (Some (escape v @ r)) = Some v"
    and "get_multiple_arg_token_next prev (Some (escape v @ r)) =
      (if length r \<le> 1 then None else Some (tl r))"
  using scan_escape [OF assms] copy_escape [OF assms]
  by (auto simp: get_multiple_arg_token_def get_multiple_arg_token_next_def find_tok_scan Let_def escape_length
      drop_Suc drop_append le_Suc_eq)

text \<open>The tokens of an argument, NULL for a missing one.\<close>

function tokens_of :: "char \<Rightarrow> cstring option \<Rightarrow> cstring option list" where
  "tokens_of prev val =
     get_multiple_arg_token prev val #
     (case get_multiple_arg_token_next prev val of
        None \<Rightarrow> [] | Some rest \<Rightarrow> tokens_of CHR '','' (Some rest))"
  by pat_completeness auto
termination
  by (relation "measure (\<lambda>(p, val). case val of None \<Rightarrow> 0 | Some s \<Rightarrow> length s)")
    (auto dest: next_shorter)

declare tokens_of.simps [simp del] add_tokens.simps [simp del]

definition node_of :: "cstring option \<Rightarrow> field" where
  "node_of t = \<lparr>f_arg = StrVal t, f_orig = t, f_given = None\<rparr>"

lemma node_of_simps [simp]: "node_string (node_of t) = t" "f_orig (node_of t) = t"
  by (simp_all add: node_of_def node_string_def)

lemma update_new_node:
  "update_arg new_node n t ARG_STRING False True True = Some (node_of t, n + 1)"
  by (cases t) (simp_all add: update_arg_def new_node_def node_of_def)

lemma add_tokens_spec:
  "add_tokens list n prev val =
     Some (rev (map node_of (tokens_of prev val)) @ list, n + length (tokens_of prev val))"
proof (induction list n prev val rule: add_tokens.induct)
  case (1 list n prev val)
  show ?case
  proof (cases "get_multiple_arg_token_next prev val")
    case None
    then show ?thesis
      by (simp add: add_tokens.simps [of list n] tokens_of.simps [of prev] update_new_node)
  next
    case (Some rest)
    from 1 [OF update_new_node refl Some] Some show ?thesis
      by (simp add: add_tokens.simps [of list n] tokens_of.simps [of prev] update_new_node)
  qed
qed

definition value_tokens :: "cstring option \<Rightarrow> cstring option list" where
  "value_tokens val = tokens_of CHR 0x00 val"

lemma value_tokens_None [simp]: "value_tokens None = [None]"
  by (simp add: value_tokens_def tokens_of.simps get_multiple_arg_token_def get_multiple_arg_token_next_def)

lemma tokens_not_None: "None \<notin> set (tokens_of prev (Some s))"
proof (induction "length s" arbitrary: s prev rule: less_induct)
  case less
  show ?case
  proof (cases "get_multiple_arg_token_next prev (Some s)")
    case None
    then show ?thesis
      by (simp add: tokens_of.simps [of prev] get_multiple_arg_token_def split: prod.split)
  next
    case (Some r)
    with next_shorter [OF Some] less have "None \<notin> set (tokens_of CHR '','' (Some r))" by simp
    with Some show ?thesis
      by (simp add: tokens_of.simps [of prev] get_multiple_arg_token_def split: prod.split)
  qed
qed

lemma tokens_of_join:
  assumes "vs \<noteq> []" and "\<forall>v \<in> set (butlast vs). v = [] \<or> last v \<noteq> CHR 0x5C"
    and "length vs = 1 \<or> last vs \<noteq> []" and "prev \<noteq> CHR 0x5C"
  shows "tokens_of prev (Some (join CHR '','' (map escape vs))) = map Some vs"
  using assms
proof (induction vs arbitrary: prev rule: induct_list012)
  case (2 v)
  have "ends prev v []" by (simp add: ends_def)
  from token_escape [OF this] show ?case by (simp add: tokens_of.simps)
next
  case (3 v w vs)
  let ?r = "CHR '','' # join CHR '','' (map escape (w # vs))"
  have e: "ends prev v ?r" using 3(3-) by (auto simp: ends_def)
  have IH: "tokens_of CHR '','' (Some (join CHR '','' (map escape (w # vs)))) = map Some (w # vs)"
    using 3(4-) by (intro "3.IH"(2)) (auto split: if_splits)
  have "join CHR '','' (map escape (w # vs)) \<noteq> []"
  proof (cases vs)
    case Nil
    with 3(5) have "w \<noteq> []" by simp
    with Nil show ?thesis by (cases w) auto
  qed simp
  then have "\<not> length ?r \<le> 1" by simp
  with token_escape [OF e] IH show ?case by (simp add: tokens_of.simps [of prev])
qed simp


section \<open>What the options of a command line amount to\<close>

text \<open>The arguments that were given for an option, in order, and all of its tokens.\<close>

definition single_args :: "single \<Rightarrow> given_option list \<Rightarrow> cstring option list" where
  "single_args s opts = map snd (filter (\<lambda>(c, v). single_of c = Some s) opts)"

definition multi_tokens :: "multi \<Rightarrow> given_option list \<Rightarrow> cstring option list" where
  "multi_tokens m opts = concat (map (value_tokens \<circ> snd) (filter (\<lambda>(c, v). multi_of c = Some m) opts))"

definition set_single :: "single \<Rightarrow> 32 word \<Rightarrow> cstring option \<Rightarrow> field" where
  "set_single s junk v =
     \<lparr>f_arg =
        (case arg_type_of s of
           ARG_STRING \<Rightarrow> (case v of None \<Rightarrow> f_arg (clear_single s junk) | Some x \<Rightarrow> StrVal (Some x))
         | ARG_INT \<Rightarrow> IntVal (case v of None \<Rightarrow> junk | Some x \<Rightarrow> of_int (fst (strtol0 x)))
         | _ \<Rightarrow> FlagVal True),
      f_orig = (if arg_type_of s = ARG_FLAG then None else v), f_given = Some 1\<rparr>"

definition single_field :: "32 word \<Rightarrow> given_option list \<Rightarrow> single \<Rightarrow> field" where
  "single_field junk opts s =
     (case single_args s opts of [] \<Rightarrow> clear_single s junk | v # _ \<Rightarrow> set_single s junk v)"

definition multi_array :: "given_option list \<Rightarrow> multi \<Rightarrow> multi_field" where
  "multi_array opts m =
     (let ts = multi_tokens m opts in
      \<lparr>mf_arg = (if ts = [] \<and> m = M_caps then [Some ''+all''] else ts),
       mf_orig = (if ts = [] \<and> m = M_caps then [None] else ts),
       mf_given = length ts, mf_min = 0, mf_max = 0\<rparr>)"

definition described :: "32 word \<Rightarrow> given_option list \<Rightarrow> args_info" where
  "described junk opts = \<lparr>ai_single = single_field junk opts, ai_multi = multi_array opts\<rparr>"

text \<open>
  No option of the first kind twice, and a number for --attach.  \<open>plain\<close> options
  are those of the switch other than --help, --version and the errors of getopt.
\<close>

definition is_number :: "cstring option \<Rightarrow> bool" where
  "is_number v = (case v of None \<Rightarrow> True | Some x \<Rightarrow> snd (strtol0 x) = [])"

definition accepted :: "given_option list \<Rightarrow> bool" where
  "accepted opts \<longleftrightarrow>
     (\<forall>s. length (single_args s opts) \<le> 1) \<and> list_all is_number (single_args O_attach opts)"

definition plain :: "given_option \<Rightarrow> bool" where
  "plain opt \<longleftrightarrow> fst opt \<notin> {CHR ''h'', CHR ''V'', CHR ''?''} \<and>
     (single_of (fst opt) \<noteq> None \<or> multi_of (fst opt) \<noteq> None)"

text \<open>The variables of the parser after some options.\<close>

definition parsed :: "32 word \<Rightarrow> given_option list \<Rightarrow> parse" where
  "parsed junk opts =
     \<lparr>p_info = \<lparr>ai_single = single_field junk opts, ai_multi = (\<lambda>_. clear_multi)\<rparr>,
      p_single = (\<lambda>s. length (single_args s opts)),
      p_multi = (\<lambda>m. length (multi_tokens m opts)),
      p_list = (\<lambda>m. rev (map node_of (multi_tokens m opts)))\<rparr>"

lemma parsed_Nil: "parsed junk [] = parse_init junk"
  by (simp add: parsed_def parse_init_def cmdline_parser_init_def single_field_def single_args_def
      multi_tokens_def fun_eq_iff)

lemma single_args_snoc:
  "single_args s (opts @ [(c, v)]) = single_args s opts @ (if single_of c = Some s then [v] else [])"
  by (simp add: single_args_def)

lemma multi_tokens_snoc:
  "multi_tokens m (opts @ [(c, v)]) =
     multi_tokens m opts @ (if multi_of c = Some m then value_tokens v else [])"
  by (simp add: multi_tokens_def)

lemma single_not_multi: "single_of c = Some s \<Longrightarrow> multi_of c = None"
  by (auto simp: single_of_def multi_of_def split: if_splits)

lemma arg_type_cases: "arg_type_of s \<noteq> ARG_NO" "arg_type_of s = ARG_INT \<longleftrightarrow> s = O_attach"
  by (auto simp: arg_type_of_def)

lemma clear_given [simp]: "f_given (clear_single s junk) = Some 0" "f_orig (clear_single s junk) = None"
  by (simp_all add: clear_single_def)

text \<open>The first occurrence of a single option.\<close>

lemma update_first:
  "update_arg (clear_single s junk) 0 v (arg_type_of s) False False False =
     (if arg_type_of s = ARG_INT \<and> \<not> is_number v then None else Some (set_single s junk v, 1))"
  by (cases "arg_type_of s"; cases v)
    (auto simp: update_arg_def set_single_def is_number_def arg_type_cases(1) clear_single_def Let_def
      split: prod.splits)

lemma update_again:
  "n \<noteq> 0 \<Longrightarrow> update_arg fld n v t False False False = None"
  by (simp add: update_arg_def Let_def)

lemma accepted_prefix: "accepted (xs @ ys) \<Longrightarrow> accepted xs"
proof -
  assume a: "accepted (xs @ ys)"
  have app: "single_args s (xs @ ys) = single_args s xs @ single_args s ys" for s
    by (simp add: single_args_def)
  have "length (single_args s xs) \<le> 1" for s
  proof -
    have "length (single_args s xs) + length (single_args s ys) \<le> 1"
      using a by (simp add: accepted_def app)
    then show ?thesis by simp
  qed
  with a show ?thesis by (simp add: accepted_def app)
qed

lemma step_single:
  assumes s: "single_of c = Some s" and acc: "accepted opts"
  shows "parse_single (parsed junk opts) s v =
    (if accepted (opts @ [(c, v)]) then Inr (parsed junk (opts @ [(c, v)])) else Inl (Exit 1))"
proof (cases "single_args s opts")
  case Nil
  have new: "single_args s' (opts @ [(c, v)]) = (if s' = s then [v] else single_args s' opts)" for s'
    using s Nil by (auto simp: single_args_snoc)
  have a: "accepted (opts @ [(c, v)]) \<longleftrightarrow> \<not> (arg_type_of s = ARG_INT \<and> \<not> is_number v)"
    using acc by (auto simp: accepted_def new arg_type_cases)
  have m: "multi_tokens m (opts @ [(c, v)]) = multi_tokens m opts" for m
    using single_not_multi [OF s] by (simp add: multi_tokens_snoc)
  show ?thesis
    unfolding a
    using Nil by (auto simp: parse_single_def parsed_def update_first new m single_field_def fun_eq_iff)
next
  case (Cons w ws)
  then have "\<not> accepted (opts @ [(c, v)])"
    using s by (auto simp: accepted_def single_args_snoc intro!: exI [of _ s])
  moreover have "parse_single (parsed junk opts) s v = Inl (Exit 1)"
    using Cons by (simp add: parse_single_def parsed_def update_again)
  ultimately show ?thesis by simp
qed

lemma step_multi:
  assumes m: "multi_of c = Some m" and acc: "accepted opts"
  shows "accepted (opts @ [(c, v)])"
    and "parse_multi (parsed junk opts) m v = Inr (parsed junk (opts @ [(c, v)]))"
proof -
  have "single_of c = None" using single_not_multi m by (cases "single_of c") auto
  then have s: "single_args s (opts @ [(c, v)]) = single_args s opts" for s
    by (simp add: single_args_snoc)
  with acc show "accepted (opts @ [(c, v)])" by (simp add: accepted_def)
  show "parse_multi (parsed junk opts) m v = Inr (parsed junk (opts @ [(c, v)]))"
    using m
    by (auto simp: parse_multi_def update_multiple_arg_temp_def add_tokens_spec parsed_def s
        multi_tokens_snoc value_tokens_def single_field_def fun_eq_iff)
qed

lemma step_parsed:
  assumes "plain opt" and "accepted opts"
  shows "parse_step (parsed junk opts) opt =
    (if accepted (opts @ [opt]) then Inr (parsed junk (opts @ [opt])) else Inl (Exit 1))"
proof -
  obtain c v where opt: "opt = (c, v)" by (cases opt)
  show ?thesis
  proof (cases "single_of c")
    case None
    with assms(1) opt obtain m where m: "multi_of c = Some m" by (auto simp: plain_def)
    from step_multi(1) [OF m assms(2), of v] step_multi(2) [OF m assms(2), of junk v] assms(1) m None opt show ?thesis
      by (auto simp: parse_step_def plain_def)
  next
    case (Some s)
    with step_single [OF Some assms(2)] assms(1) opt show ?thesis
      by (auto simp: parse_step_def plain_def)
  qed
qed

lemma all_parsed:
  "\<lbrakk>list_all plain opts'; accepted opts\<rbrakk> \<Longrightarrow>
   parse_all (parsed junk opts) opts' =
     (if accepted (opts @ opts') then Inr (parsed junk (opts @ opts')) else Inl (Exit 1))"
proof (induction opts' arbitrary: opts)
  case (Cons o1 os)
  show ?case
  proof (cases "accepted (opts @ [o1])")
    case True
    with Cons show ?thesis by (simp add: step_parsed)
  next
    case False
    then have "\<not> accepted (opts @ o1 # os)"
      using accepted_prefix [of "opts @ [o1]" os] by auto
    with Cons.prems False show ?thesis by (simp add: step_parsed)
  qed
qed simp

section \<open>The arrays\<close>

lemma fill_list:
  "length list \<le> length arg \<Longrightarrow> length arg = length orig \<Longrightarrow>
   fill (length list) 0 list (arg, orig) =
     Inr (map node_string (rev list) @ drop (length list) arg, map f_orig (rev list) @ drop (length list) orig)"
proof (induction list arbitrary: arg orig)
  case (Cons x xs)
  then show ?case by (simp add: drop_update_cancel Cons_nth_drop_Suc [symmetric])
qed simp

lemma finish_described:
  "finish_multi (parsed junk opts) m = Inr (multi_array opts m)"
proof (cases "multi_tokens m opts")
  case Nil
  then show ?thesis
    by (auto simp: finish_multi_def parsed_def update_multiple_arg_def clear_multi_def multi_array_def)
next
  case (Cons t ts)
  have "fill (length (rev (map node_of (t # ts)))) 0 (rev (map node_of (t # ts)))
      (realloc [] (length (t # ts)), realloc [] (length (t # ts))) = Inr (t # ts, t # ts)"
    by (subst fill_list) (simp_all add: realloc_def comp_def)
  with Cons show ?thesis
    by (simp add: finish_multi_def parsed_def update_multiple_arg_def clear_multi_def multi_array_def Let_def)
qed


text \<open>The end of the parser, on the variables that the options leave.\<close>

lemma finish_all_arrays:
  "\<lbrakk>distinct ms; \<And>m. m \<in> set ms \<Longrightarrow> p_list p m = p_list (parsed junk opts) m \<and>
      p_multi p m = p_multi (parsed junk opts) m \<and> ai_multi (p_info p) m = clear_multi\<rbrakk> \<Longrightarrow>
   \<exists>p'. finish_all p ms = Inr p' \<and> ai_single (p_info p') = ai_single (p_info p) \<and>
     (\<forall>m. ai_multi (p_info p') m = (if m \<in> set ms then multi_array opts m else ai_multi (p_info p) m))"
proof (induction ms arbitrary: p)
  case (Cons m ms)
  have "ai_multi (p_info (parsed junk opts)) m = clear_multi" by (simp add: parsed_def)
  with Cons.prems(2) [of m] have "finish_multi p m = finish_multi (parsed junk opts) m"
    by (simp only: finish_multi_def list.set insertI1)
  then have m: "finish_multi p m = Inr (multi_array opts m)" by (simp add: finish_described)
  let ?p = "p\<lparr>p_info := (p_info p)\<lparr>ai_multi := (ai_multi (p_info p))(m := multi_array opts m)\<rparr>,
      p_multi := (p_multi p)(m := 0)\<rparr>"
  have "\<exists>p'. finish_all ?p ms = Inr p' \<and> ai_single (p_info p') = ai_single (p_info ?p) \<and>
     (\<forall>m'. ai_multi (p_info p') m' = (if m' \<in> set ms then multi_array opts m' else ai_multi (p_info ?p) m'))"
    using Cons.prems by (intro Cons.IH) auto
  with m Cons.prems(1) show ?case by auto
qed simp

lemma finish_parsed:
  "\<exists>p. finish_all (parsed junk opts) [M_mount, M_netif, M_user_map, M_cgroup, M_caps, M_setenv] = Inr p \<and>
     p_info p = described junk opts"
proof -
  let ?ms = "[M_mount, M_netif, M_user_map, M_cgroup, M_caps, M_setenv]"
  have "\<exists>p'. finish_all (parsed junk opts) ?ms = Inr p' \<and>
     ai_single (p_info p') = ai_single (p_info (parsed junk opts)) \<and>
     (\<forall>m. ai_multi (p_info p') m = (if m \<in> set ?ms then multi_array opts m
        else ai_multi (p_info (parsed junk opts)) m))"
    by (rule finish_all_arrays) (simp_all add: parsed_def)
  then obtain p where p: "finish_all (parsed junk opts) ?ms = Inr p"
    "ai_single (p_info p) = single_field junk opts"
    "\<And>m. ai_multi (p_info p) m = (if m \<in> set ?ms then multi_array opts m else clear_multi)"
    by (auto simp: parsed_def)
  have "ai_multi (p_info p) = multi_array opts"
  proof
    fix m show "ai_multi (p_info p) m = multi_array opts m" using p(3) [of m] by (cases m) simp_all
  qed
  with p show ?thesis by (simp add: described_def)
qed

lemma described_given:
  "is_given (described junk opts) s \<longleftrightarrow> single_args s opts \<noteq> []"
  by (simp add: is_given_def described_def single_field_def set_single_def split: list.split)

lemma described_required:
  "cmdline_parser_required2 (described junk opts) \<longleftrightarrow>
     single_args O_ephemeral opts \<noteq> [] \<and> single_args O_chroot opts = []"
  by (simp add: cmdline_parser_required2_def described_given)
    (simp add: described_def multi_array_def check_multiple_option_occurrences_def Let_def)

lemma parse_options_described:
  assumes "list_all plain opts"
  shows "parse_options junk opts =
    (if accepted opts \<and> (single_args O_ephemeral opts = [] \<or> single_args O_chroot opts \<noteq> [])
     then Inr (described junk opts) else Inl (Exit 1))"
proof -
  obtain p where p: "finish_all (parsed junk opts) [M_mount, M_netif, M_user_map, M_cgroup, M_caps, M_setenv] = Inr p"
    "p_info p = described junk opts" using finish_parsed by blast
  have "accepted []" by (simp add: accepted_def single_args_def)
  from all_parsed [OF assms this, of junk] p show ?thesis
    by (simp add: parse_options_def parsed_Nil [symmetric] parse_end_def described_required)
qed

text \<open>Only plain options get through.\<close>

lemma parse_all_plain: "parse_all p opts = Inr p' \<Longrightarrow> list_all plain opts"
proof (induction opts arbitrary: p)
  case (Cons o1 os)
  then obtain p1 where s: "parse_step p o1 = Inr p1" and "parse_all p1 os = Inr p'"
    by (auto split: sum.splits)
  moreover have "plain o1"
    using s by (auto simp: parse_step_def plain_def split: prod.splits if_splits option.splits)
  ultimately show ?case using Cons.IH by simp
qed simp

lemma parse_options_Inr:
  assumes "parse_options junk opts = Inr ai"
  shows "list_all plain opts \<and> accepted opts \<and> ai = described junk opts \<and>
    (single_args O_ephemeral opts = [] \<or> single_args O_chroot opts \<noteq> [])"
proof -
  obtain p where "parse_all (parse_init junk) opts = Inr p"
    using assms by (auto simp: parse_options_def split: sum.splits)
  then have pl: "list_all plain opts" by (rule parse_all_plain)
  with assms parse_options_described [OF pl, of junk] show ?thesis by (auto split: if_splits)
qed

text \<open>Arguments of multiple options are there, but for --netif.\<close>

lemma multi_of_table:
  "multi_of c = Some m \<Longrightarrow> m \<noteq> M_netif \<Longrightarrow> well_formed (c, v) \<Longrightarrow> v \<noteq> None"
  by (cases v) (auto simp: multi_of_def well_formed_def long_options_def split: if_splits)

lemma multi_tokens_there:
  assumes "list_all from_getopt opts" and "list_all plain opts" and "m \<noteq> M_netif"
  shows "None \<notin> set (multi_tokens m opts)"
proof
  assume "None \<in> set (multi_tokens m opts)"
  then obtain c v where cv: "(c, v) \<in> set opts" "multi_of c = Some m" "None \<in> set (value_tokens v)"
    by (auto simp: multi_tokens_def)
  with assms have "well_formed (c, v)" by (auto simp: list_all_iff from_getopt_def plain_def)
  with multi_of_table [OF cv(2) assms(3)] obtain x where "v = Some x" by blast
  with cv(3) tokens_not_None show False by (simp add: value_tokens_def)
qed

section \<open>Properties\<close>

text \<open>
  C6: What the parser makes of options: for any sequence of options other than
  --help and --version it exits with a failure if an option that may be given
  once is given twice, if the argument of --attach is not a number, or if
  --ephemeral is given without --chroot; otherwise every field holds what a
  look at the whole sequence says: the one argument that was given or the
  default, and for the others the array of all tokens in order with their
  number.
\<close>

theorem parse_options_meaning:
  assumes "list_all plain opts"
  shows "parse_options junk opts =
    (if (\<forall>s. length (single_args s opts) \<le> 1) \<and> list_all is_number (single_args O_attach opts) \<and>
        (single_args O_ephemeral opts = [] \<or> single_args O_chroot opts \<noteq> [])
     then Inr \<lparr>ai_single = single_field junk opts, ai_multi = multi_array opts\<rparr>
     else Inl (Exit 1))"
  using parse_options_described [OF assms] by (simp add: accepted_def described_def)

theorem parse_options_meaning_witness:
  "(\<exists>ai. parse_options 0 [(CHR ''w'', None), (CHR ''r'', Some ''/c''), (CHR ''m'', Some ''a,b'')] = Inr ai) \<and>
   parse_options 0 [(CHR ''w'', None)] = Inl (Exit 1)"
proof -
  have p: "list_all plain [(CHR ''w'', None), (CHR ''r'', Some ''/c''), (CHR ''m'', Some ''a,b'')]"
    "list_all plain [(CHR ''w'', None)]"
    by (simp_all add: plain_def single_of_def multi_of_def)
  have "length (single_args s [(CHR ''w'', None), (CHR ''r'', Some ''/c''), (CHR ''m'', Some ''a,b'')]) \<le> 1" for s
    by (cases s) (simp_all add: single_args_def single_of_def)
  then show ?thesis
    using parse_options_meaning [OF p(1), of 0] parse_options_meaning [OF p(2), of 0]
    by (simp add: single_args_def single_of_def)
qed

text \<open>
  C15: The values of an option that may be given several times survive a command
  line: values with their commas escaped by backslashes, joined by commas, are
  split into exactly these values, if none but the last ends in a backslash and
  the last of several is not empty.
\<close>

theorem multiple_values_round_trip:
  assumes "vs \<noteq> []" and "\<forall>v \<in> set (butlast vs). v = [] \<or> last v \<noteq> CHR 0x5C"
    and "length vs = 1 \<or> last vs \<noteq> []"
  shows "update_multiple_arg_temp list n (Some (join CHR '','' (map escape vs))) ARG_STRING =
    Some (rev (map (\<lambda>v. \<lparr>f_arg = StrVal (Some v), f_orig = Some v, f_given = None\<rparr>) vs) @ list, n + length vs)"
  using tokens_of_join [OF assms, of "CHR 0x00"]
  by (simp add: update_multiple_arg_temp_def add_tokens_spec node_of_def comp_def)

theorem multiple_values_round_trip_witness:
  "update_multiple_arg_temp [] 0 (Some [CHR ''a'', CHR 0x5C, CHR '','', CHR ''b'', CHR '','', CHR ''c'']) ARG_STRING =
     Some ([\<lparr>f_arg = StrVal (Some ''c''), f_orig = Some ''c'', f_given = None\<rparr>,
            \<lparr>f_arg = StrVal (Some ''a,b''), f_orig = Some ''a,b'', f_given = None\<rparr>], 2)"
  using multiple_values_round_trip [of "[''a,b'', ''c'']" "[]" 0] by simp

text \<open>
  C14: A written command line is read back: options in their long form with their
  arguments, a double dash and a command, whatever the command's arguments look
  like and with or without POSIXLY_CORRECT, give the fields that describe these
  options, and the command.
\<close>

theorem command_line_round_trip:
  assumes "list_all well_formed opts" and "list_all plain opts" and "accepted opts"
    and "single_args O_ephemeral opts = [] \<or> single_args O_chroot opts \<noteq> []"
  shows "cmdline_parser posix junk (map write_option opts @ ''--'' # command) =
    Inr (\<lparr>ai_single = single_field junk opts, ai_multi = multi_array opts\<rparr>, command)"
  using getopt_write [OF assms(1), of posix command] parse_options_described [OF assms(2), of junk] assms(3,4)
  by (simp add: cmdline_parser_def write_line_def described_def)

theorem command_line_round_trip_witness:
  "\<exists>ai. cmdline_parser False 0 [''--chroot=/c'', ''--netif'', ''--'', ''ls'', ''-l''] = Inr (ai, [''ls'', ''-l''])"
proof -
  let ?o = "[(CHR ''r'', Some ''/c''), (CHR ''n'', None)]"
  have p: "list_all well_formed ?o" "list_all plain ?o" "accepted ?o"
    by (simp_all add: well_formed_def long_options_def plain_def single_of_def multi_of_def accepted_def
        single_args_def)
  have w: "map write_option ?o = [''--chroot=/c'', ''--netif'']"
    by (simp add: write_option_def option_name_def long_options_def)
  from command_line_round_trip [OF p, of False 0 "[''ls'', ''-l'']"] show ?thesis
    unfolding w by (simp add: single_args_def single_of_def)
qed

text \<open>
  C22: What main may rely on, for every command line that the parser accepts: an
  array holds as many strings as its counter says, NULL only for --netif without
  an argument; an option of the other kind was given at most once; --ephemeral
  comes with --chroot; and strings that main uses without a look at their
  counters are there.
\<close>

theorem cmdline_parser_sound:
  assumes "cmdline_parser posix junk argv = Inr (ai, rest)"
  shows "(m \<noteq> M_caps \<or> mf_given (ai_multi ai m) \<noteq> 0 \<longrightarrow> length (mf_arg (ai_multi ai m)) = mf_given (ai_multi ai m)) \<and>
    (m \<noteq> M_netif \<longrightarrow> None \<notin> set (mf_arg (ai_multi ai m))) \<and>
    f_given (ai_single ai s) \<in> {Some 0, Some 1} \<and>
    (f_given (ai_single ai O_ephemeral) = Some 1 \<longrightarrow> f_given (ai_single ai O_chroot) = Some 1) \<and>
    (\<exists>u. f_arg (ai_single ai O_user) = StrVal (Some u))"
proof -
  obtain opts where g: "getopt_all posix argv = (opts, rest)" and p: "parse_options junk opts = Inr ai"
    using assms by (auto simp: cmdline_parser_def split: prod.splits sum.splits)
  have wf: "list_all from_getopt opts" using getopt_well_formed [of posix argv] g by simp
  note d = parse_options_Inr [OF p]
  then have ai: "ai = described junk opts" by simp
  have t: "m \<noteq> M_netif \<Longrightarrow> None \<notin> set (multi_tokens m opts)" using multi_tokens_there wf d by blast
  have given: "f_given (ai_single ai s) = Some (if single_args s opts = [] then 0 else 1)" for s
    by (simp add: ai described_def single_field_def set_single_def split: list.split)
  have user: "\<exists>u. f_arg (ai_single ai O_user) = StrVal (Some u)"
    by (simp add: ai described_def single_field_def set_single_def clear_single_def arg_type_of_def
        split: list.split option.split)
  show ?thesis
    using d t given user by (auto simp: ai described_def multi_array_def Let_def)
qed

theorem cmdline_parser_sound_witness:
  "\<exists>ai. cmdline_parser False 0 [''-w'', ''-r'', ''/c'', ''ls''] = Inr (ai, [''ls'']) \<and>
     f_given (ai_single ai O_chroot) = Some 1"
proof -
  have "(case cmdline_parser False 0 [''-w'', ''-r'', ''/c'', ''ls''] of Inr (ai, r) \<Rightarrow>
      r = [''ls''] \<and> f_given (ai_single ai O_ephemeral) = Some 1 | _ \<Rightarrow> False)"
    by code_simp
  then obtain ai where run: "cmdline_parser False 0 [''-w'', ''-r'', ''/c'', ''ls''] = Inr (ai, [''ls''])"
    and "f_given (ai_single ai O_ephemeral) = Some 1"
    by (auto split: sum.splits prod.splits)
  with cmdline_parser_sound [OF run, of M_mount O_chroot] show ?thesis by simp
qed

end
