(* ===== verification/Cmdline_Output.thy ===== *)
theory Cmdline_Output
  imports Cmdline
begin

text \<open>
  What src/cmdline.c prints: the help and the version, the messages of a parser that
  refuses an option, and the options that are saved to a file.  A function that
  prints is its text.  The counters of --help and --version are left out, as
  these options end the parser.
\<close>

section \<open>Help and version\<close>

definition CMDLINE_PARSER_PACKAGE :: cstring where "CMDLINE_PARSER_PACKAGE = ''pflask''"
definition CMDLINE_PARSER_PACKAGE_NAME :: cstring where "CMDLINE_PARSER_PACKAGE_NAME = ''pflask''"
definition CMDLINE_PARSER_VERSION :: cstring where "CMDLINE_PARSER_VERSION = ''0.2''"

definition gengetopt_args_info_purpose :: cstring where "gengetopt_args_info_purpose = ''''"
definition gengetopt_args_info_usage :: cstring where
  "gengetopt_args_info_usage = ''Usage: pflask [OPTIONS]...''"
definition gengetopt_args_info_versiontext :: cstring where "gengetopt_args_info_versiontext = ''''"
definition gengetopt_args_info_description :: cstring where "gengetopt_args_info_description = ''''"

definition NL :: cstring where "NL = [CHR 0x0A]"

text \<open>A default value is shown between a grave accent and a quote, on a line of its own.\<close>

definition default_text :: "cstring \<Rightarrow> cstring" where
  "default_text s = NL @ replicate 27 CHR '' '' @ ''(default=`'' @ s @ [CHR 0x27] @ '')''"

definition gengetopt_args_info_help :: "cstring list" where
  "gengetopt_args_info_help =
     [''  -h, --help             Print help and exit'',
      ''  -V, --version          Print version and exit'',
      ''  -r, --chroot=STRING    Change the root directory inside the container'',
      ''  -c, --chdir=STRING     Change the current directory inside the container'',
      ''  -t, --hostname=STRING  Set the container hostname'',
      ''  -m, --mount=STRING     Create a new mount point inside the container'',
      ''  -n, --netif[=STRING]   Disconnect the container networking from the host'',
      ''  -u, --user=STRING      Run the command under the specified user'' @ default_text ''root'',
      ''  -e, --user-map=STRING  Map container users to host users'',
      ''  -w, --ephemeral        Discard changes to /  (default=off)'',
      ''  -g, --cgroup=STRING    Create a new cgroup and move the container inside it'',
      ''  -b, --caps=STRING      Change the effective capabilities inside the container'' @ default_text ''+all'',
      ''  -d, --detach           Detach from terminal  (default=off)'',
      ''  -a, --attach=INT       Attach to the specified detached process'',
      ''  -s, --setenv=STRING    Set additional environment variables'',
      ''  -k, --keepenv          Do not clear environment  (default=off)'',
      ''  -U, --no-userns        Disable user namespace support  (default=off)'',
      ''  -M, --no-mountns       Disable mount namespace support  (default=off)'',
      ''  -N, --no-netns         Disable net namespace support  (default=off)'',
      ''  -I, --no-ipcns         Disable IPC namespace support  (default=off)'',
      ''  -H, --no-utsns         Disable UTS namespace support  (default=off)'',
      ''  -P, --no-pidns         Disable PID namespace support  (default=off)'']"

text \<open>init_args_info: the help text of every option, by its index.\<close>

definition init_args_info :: "(cstring \<times> cstring) list" where
  "init_args_info =
     map (\<lambda>(name, i). (name, gengetopt_args_info_help ! i))
       [(''help'', 0), (''version'', 1), (''chroot'', 2), (''chdir'', 3), (''hostname'', 4), (''mount'', 5),
        (''netif'', 6), (''user'', 7), (''user-map'', 8), (''ephemeral'', 9), (''cgroup'', 10), (''caps'', 11),
        (''detach'', 12), (''attach'', 13), (''setenv'', 14), (''keepenv'', 15), (''no-userns'', 16),
        (''no-mountns'', 17), (''no-netns'', 18), (''no-ipcns'', 19), (''no-utsns'', 20), (''no-pidns'', 21)]"

definition cmdline_parser_print_version :: cstring where
  "cmdline_parser_print_version =
     (if CMDLINE_PARSER_PACKAGE_NAME \<noteq> [] then CMDLINE_PARSER_PACKAGE_NAME else CMDLINE_PARSER_PACKAGE) @
       '' '' @ CMDLINE_PARSER_VERSION @ NL @
     (if gengetopt_args_info_versiontext \<noteq> [] then NL @ gengetopt_args_info_versiontext @ NL else [])"

definition print_help_common :: cstring where
  "print_help_common =
     cmdline_parser_print_version @
     (if gengetopt_args_info_purpose \<noteq> [] then NL @ gengetopt_args_info_purpose @ NL else []) @
     (if gengetopt_args_info_usage \<noteq> [] then NL @ gengetopt_args_info_usage @ NL else []) @
     NL @
     (if gengetopt_args_info_description \<noteq> [] then gengetopt_args_info_description @ NL @ NL else [])"

definition cmdline_parser_print_help :: cstring where
  "cmdline_parser_print_help = print_help_common @ concat (map (\<lambda>l. l @ NL) gengetopt_args_info_help)"

section \<open>Messages of the parser\<close>

text \<open>
  The parser of Cmdline again, for what it prints: the file descriptor (1 for
  stdout, 2 for stderr) and the text.  \<open>package_name\<close> is argv[0], \<open>getopt_error\<close> is
  what getopt_long has printed for an option that it does not accept.  The texts
  \<open>additional_error\<close> are empty.
\<close>

type_synonym printed = "(int \<times> cstring) list"

definition in_quotes :: "cstring \<Rightarrow> cstring" where
  "in_quotes s = CHR 0x27 # s @ [CHR 0x27]"

definition update_arg_error ::
  "cstring \<Rightarrow> field \<Rightarrow> nat \<Rightarrow> cstring option \<Rightarrow> arg_type \<Rightarrow> bool \<Rightarrow> bool \<Rightarrow> bool \<Rightarrow> cstring \<Rightarrow> char \<Rightarrow> cstring option" where
  "update_arg_error package_name fld prev_given value arg_type check_ambiguity override multiple_option
     long_opt short_opt =
     (let given = (case f_given fld of None \<Rightarrow> False | Some n \<Rightarrow> n \<noteq> 0) in
      if \<not> multiple_option \<and> (prev_given \<noteq> 0 \<or> check_ambiguity \<and> given) then
        Some (package_name @ '': `--'' @ long_opt @ [CHR 0x27] @
          (if short_opt \<noteq> CHR ''-'' then '' (`-'' @ [short_opt, CHR 0x27] @ '')'' else []) @
          '' option given more than once'' @ NL)
      else if given \<and> \<not> override then None
      else if arg_type = ARG_INT then
        (case value of
           None \<Rightarrow> None
         | Some v \<Rightarrow>
             if snd (strtol0 v) \<noteq> [] then Some (package_name @ '': invalid numeric value: '' @ v @ NL)
             else None)
      else None)"

text \<open>The names that the switch passes to update_arg.\<close>

definition option_strings :: "single \<Rightarrow> cstring \<times> char" where
  "option_strings s =
     (case s of
        O_chroot \<Rightarrow> (''chroot'', CHR ''r'') | O_chdir \<Rightarrow> (''chdir'', CHR ''c'')
      | O_hostname \<Rightarrow> (''hostname'', CHR ''t'') | O_user \<Rightarrow> (''user'', CHR ''u'')
      | O_ephemeral \<Rightarrow> (''ephemeral'', CHR ''w'') | O_detach \<Rightarrow> (''detach'', CHR ''d'')
      | O_attach \<Rightarrow> (''attach'', CHR ''a'') | O_keepenv \<Rightarrow> (''keepenv'', CHR ''k'')
      | O_no_userns \<Rightarrow> (''no-userns'', CHR ''U'') | O_no_mountns \<Rightarrow> (''no-mountns'', CHR ''M'')
      | O_no_netns \<Rightarrow> (''no-netns'', CHR ''N'') | O_no_ipcns \<Rightarrow> (''no-ipcns'', CHR ''I'')
      | O_no_utsns \<Rightarrow> (''no-utsns'', CHR ''H'') | O_no_pidns \<Rightarrow> (''no-pidns'', CHR ''P''))"

definition step_output :: "cstring \<Rightarrow> cstring \<Rightarrow> parse \<Rightarrow> given_option \<Rightarrow> printed" where
  "step_output package_name getopt_error p opt =
     (case opt of (c, optarg) \<Rightarrow>
        if c = CHR ''h'' then [(1, cmdline_parser_print_help)]
        else if c = CHR ''V'' then [(1, cmdline_parser_print_version)]
        else if c = CHR ''?'' then [(2, getopt_error)]
        else
          (case single_of c of
             Some s \<Rightarrow>
               (case update_arg_error package_name (ai_single (p_info p) s) (p_single p s) optarg
                       (arg_type_of s) False False False (fst (option_strings s)) (snd (option_strings s)) of
                  None \<Rightarrow> []
                | Some e \<Rightarrow> [(2, e)])
           | None \<Rightarrow>
               (case multi_of c of
                  Some m \<Rightarrow> []
                | None \<Rightarrow> [(2, CMDLINE_PARSER_PACKAGE @ '': option unknown: '' @ [c] @ NL)])))"

fun options_output :: "cstring \<Rightarrow> cstring \<Rightarrow> parse \<Rightarrow> given_option list \<Rightarrow> printed" where
  "options_output package_name getopt_error p [] = []"
| "options_output package_name getopt_error p (opt # opts) =
     step_output package_name getopt_error p opt @
     (case parse_step p opt of
        Inl e \<Rightarrow> []
      | Inr p' \<Rightarrow> options_output package_name getopt_error p' opts)"

definition occurrences_error :: "cstring \<Rightarrow> nat \<Rightarrow> nat \<Rightarrow> nat \<Rightarrow> cstring \<Rightarrow> printed" where
  "occurrences_error prog_name option_given min_n max_n option_desc =
     (if check_multiple_option_occurrences option_given min_n max_n then
        [(2, prog_name @ '': '' @ option_desc @ '' option occurrences must be '' @
           (if min_n > 0 \<and> max_n > 0 then
              (if min_n = max_n then show_nat min_n
               else ''between '' @ show_nat min_n @ '' and '' @ show_nat max_n)
            else if min_n > 0 then ''at least '' @ show_nat min_n
            else ''at most '' @ show_nat max_n) @ NL)]
      else [])"

definition option_desc :: "cstring \<Rightarrow> char \<Rightarrow> cstring" where
  "option_desc name c = in_quotes (''--'' @ name) @ '' ('' @ in_quotes [CHR ''-'', c] @ '')''"

definition required_output :: "cstring \<Rightarrow> args_info \<Rightarrow> printed" where
  "required_output prog_name ai =
     concat (map (\<lambda>(m, desc). occurrences_error prog_name (mf_given (ai_multi ai m))
                    (mf_min (ai_multi ai m)) (mf_max (ai_multi ai m)) desc)
       [(M_mount, option_desc ''mount'' CHR ''m''), (M_netif, option_desc ''netif'' CHR ''n''),
        (M_user_map, option_desc ''user-map'' CHR ''e''), (M_cgroup, option_desc ''cgroup'' CHR ''g''),
        (M_caps, option_desc ''caps'' CHR ''b''), (M_setenv, option_desc ''setenv'' CHR ''s'')]) @
     (if is_given ai O_ephemeral \<and> \<not> is_given ai O_chroot
      then [(2, prog_name @ '': '' @ option_desc ''ephemeral'' CHR ''w'' @
              '' option depends on option '' @ in_quotes ''chroot'' @ NL)]
      else [])"

text \<open>The whole parser, from the variables \<open>p\<close> on, for the options that getopt_long returns.\<close>

definition output_from :: "cstring \<Rightarrow> cstring \<Rightarrow> parse \<Rightarrow> given_option list \<Rightarrow> printed" where
  "output_from package_name getopt_error p opts =
     options_output package_name getopt_error p opts @
     (case parse_all p opts of
        Inl e \<Rightarrow> []
      | Inr p' \<Rightarrow>
          (case finish_all p' [M_mount, M_netif, M_user_map, M_cgroup, M_caps, M_setenv] of
             Inl e \<Rightarrow> []
           | Inr p'' \<Rightarrow> required_output package_name (p_info p'')))"

definition parser_output :: "cstring \<Rightarrow> cstring \<Rightarrow> 32 word \<Rightarrow> given_option list \<Rightarrow> printed" where
  "parser_output package_name getopt_error junk opts =
     output_from package_name getopt_error (parse_init junk) opts"

text \<open>update_arg prints a message exactly if it fails.\<close>

lemma update_arg_error_iff:
  "update_arg_error pkg fld n v t amb ovr mult lo so = None \<longleftrightarrow> update_arg fld n v t amb ovr mult \<noteq> None"
  by (cases t) (auto simp: update_arg_error_def update_arg_def Let_def split: option.split prod.split)

section \<open>Saving the options\<close>

definition write_into_file :: "cstring \<Rightarrow> cstring option \<Rightarrow> cstring" where
  "write_into_file opt arg =
     (case arg of Some a \<Rightarrow> opt @ [CHR ''='', CHR 0x22] @ a @ [CHR 0x22] @ NL | None \<Rightarrow> opt @ NL)"

text \<open>[] stands for a NULL array; other arrays are as long as their counter says.\<close>

fun write_multiple_into_file :: "nat \<Rightarrow> cstring \<Rightarrow> cstring option list \<Rightarrow> cstring" where
  "write_multiple_into_file 0 opt arg = []"
| "write_multiple_into_file (Suc n) opt arg =
     write_into_file opt (case arg of [] \<Rightarrow> None | a # _ \<Rightarrow> a) @ write_multiple_into_file n opt (drop 1 arg)"

definition write_single :: "args_info \<Rightarrow> cstring \<Rightarrow> single \<Rightarrow> cstring" where
  "write_single ai opt s =
     (if is_given ai s
      then write_into_file opt (if arg_type_of s = ARG_FLAG then None else f_orig (ai_single ai s))
      else [])"

definition write_multi :: "args_info \<Rightarrow> cstring \<Rightarrow> multi \<Rightarrow> cstring" where
  "write_multi ai opt m = write_multiple_into_file (mf_given (ai_multi ai m)) opt (mf_orig (ai_multi ai m))"

definition dump_order :: "(cstring \<times> (single + multi)) list" where
  "dump_order =
     [(''chroot'', Inl O_chroot), (''chdir'', Inl O_chdir), (''hostname'', Inl O_hostname),
      (''mount'', Inr M_mount), (''netif'', Inr M_netif), (''user'', Inl O_user), (''user-map'', Inr M_user_map),
      (''ephemeral'', Inl O_ephemeral), (''cgroup'', Inr M_cgroup), (''caps'', Inr M_caps),
      (''detach'', Inl O_detach), (''attach'', Inl O_attach), (''setenv'', Inr M_setenv),
      (''keepenv'', Inl O_keepenv), (''no-userns'', Inl O_no_userns), (''no-mountns'', Inl O_no_mountns),
      (''no-netns'', Inl O_no_netns), (''no-ipcns'', Inl O_no_ipcns), (''no-utsns'', Inl O_no_utsns),
      (''no-pidns'', Inl O_no_pidns)]"

text \<open>The status and the text that is written to \<open>outfile\<close>, unless this is NULL.\<close>

definition cmdline_parser_dump :: "bool \<Rightarrow> args_info \<Rightarrow> int \<times> cstring" where
  "cmdline_parser_dump outfile ai =
     (if \<not> outfile then (1, [])
      else (0, concat (map (\<lambda>(opt, x). case x of Inl s \<Rightarrow> write_single ai opt s | Inr m \<Rightarrow> write_multi ai opt m)
                         dump_order)))"

text \<open>The file is created only when fopen succeeds.\<close>

definition cmdline_parser_file_save :: "bool \<Rightarrow> args_info \<Rightarrow> int \<times> cstring option" where
  "cmdline_parser_file_save fopen_ok ai =
     (if \<not> fopen_ok then (1, None)
      else (case cmdline_parser_dump True ai of (i, text) \<Rightarrow> (i, Some text)))"

section \<open>The tables agree\<close>

text \<open>The type of an option in the switch of the parser.\<close>

definition type_of_letter :: "char \<Rightarrow> arg_type option" where
  "type_of_letter c =
     (case single_of c of Some s \<Rightarrow> Some (arg_type_of s)
      | None \<Rightarrow> (case multi_of c of Some m \<Rightarrow> Some ARG_STRING | None \<Rightarrow> if c \<in> {CHR ''h'', CHR ''V''} then Some ARG_NO else None))"

text \<open>What the help should say of an option of the table of getopt_long.\<close>

definition help_head :: "cstring \<times> nat \<times> char \<Rightarrow> cstring" where
  "help_head opt =
     (case opt of (name, k, c) \<Rightarrow>
        ''  -'' @ [c] @ '', --'' @ name @
        (if k = 0 then [] else (if k = 2 then ''['' else []) @ (if type_of_letter c = Some ARG_INT then ''=INT'' else ''=STRING'') @
           (if k = 2 then '']'' else [])))"

definition short_text :: "cstring \<times> nat \<times> char \<Rightarrow> cstring" where
  "short_text opt = (case opt of (name, k, c) \<Rightarrow> c # replicate k CHR '':'')"

definition starts_with :: "cstring \<Rightarrow> cstring \<Rightarrow> bool" where
  "starts_with p s \<longleftrightarrow> take (length p) s = p"

section \<open>Saved options give the same structure\<close>

text \<open>The options that the lines stand for.\<close>

definition saved_line :: "given_option \<Rightarrow> cstring" where
  "saved_line opt = (case opt of (c, v) \<Rightarrow> write_into_file (the (option_name c)) v)"

definition letter :: "cstring \<Rightarrow> char" where
  "letter name = (case map_of long_options name of Some (k, c) \<Rightarrow> c | None \<Rightarrow> CHR ''?'')"

definition saved_of :: "args_info \<Rightarrow> cstring \<times> (single + multi) \<Rightarrow> given_option list" where
  "saved_of ai x =
     (case x of
        (opt, Inl s) \<Rightarrow>
          if is_given ai s then [(letter opt, if arg_type_of s = ARG_FLAG then None else f_orig (ai_single ai s))] else []
      | (opt, Inr m) \<Rightarrow>
          if mf_given (ai_multi ai m) = 0 then [] else map (Pair (letter opt)) (mf_orig (ai_multi ai m)))"

definition saved :: "args_info \<Rightarrow> given_option list" where
  "saved ai = concat (map (saved_of ai) dump_order)"

lemma letters_parsed:
  "list_all (\<lambda>(opt, x). option_name (letter opt) = Some opt \<and> letter opt \<notin> {CHR ''h'', CHR ''V'', CHR ''?''} \<and>
     (case x of Inl s \<Rightarrow> single_of (letter opt) = Some s \<and> multi_of (letter opt) = None
      | Inr m \<Rightarrow> single_of (letter opt) = None \<and> multi_of (letter opt) = Some m)) dump_order"
  by code_simp

lemma dump_order_entry:
  assumes "(opt, x) \<in> set dump_order"
  shows "option_name (letter opt) = Some opt"
    and "x = Inl s \<Longrightarrow> single_of (letter opt) = Some s" and "x = Inl s \<Longrightarrow> multi_of (letter opt) = None"
    and "x = Inr m \<Longrightarrow> single_of (letter opt) = None" and "x = Inr m \<Longrightarrow> multi_of (letter opt) = Some m"
    and "letter opt \<notin> {CHR ''h'', CHR ''V'', CHR ''?''}"
  using letters_parsed assms by (auto simp: list_all_iff)

lemma write_multiple: "write_multiple_into_file (length arg) opt arg = concat (map (write_into_file opt) arg)"
  by (induction arg) simp_all

lemma concat_map_concat: "concat (map f (concat (map g xs))) = concat (map (\<lambda>x. concat (map f (g x))) xs)"
  by (induction xs) simp_all

lemma saved_lines:
  assumes "\<And>m. mf_given (ai_multi ai m) = 0 \<or> length (mf_orig (ai_multi ai m)) = mf_given (ai_multi ai m)"
  shows "snd (cmdline_parser_dump True ai) = concat (map saved_line (saved ai))"
proof -
  let ?w = "\<lambda>(opt, x). case x of Inl s \<Rightarrow> write_single ai opt s | Inr m \<Rightarrow> write_multi ai opt m"
  have w: "?w x = concat (map saved_line (saved_of ai x))" if x: "x \<in> set dump_order" for x
  proof -
    obtain opt y where y: "x = (opt, y)" by (cases x)
    from dump_order_entry(1) x y have n: "option_name (letter opt) = Some opt" by simp
    show ?thesis
    proof (cases y)
      case (Inl s)
      with n y show ?thesis by (simp add: write_single_def saved_of_def saved_line_def)
    next
      case (Inr m)
      have "write_multi ai opt m = concat (map saved_line (saved_of ai x))"
        using assms [of m] write_multiple [of "mf_orig (ai_multi ai m)" opt] n y Inr
        by (auto simp: write_multi_def saved_of_def saved_line_def comp_def)
      with y Inr show ?thesis by simp
    qed
  qed
  have "map ?w dump_order = map (\<lambda>x. concat (map saved_line (saved_of ai x))) dump_order"
    by (intro map_cong refl w)
  then show ?thesis
    by (simp only: cmdline_parser_dump_def saved_def concat_map_concat simp_thms if_False snd_conv)
qed

text \<open>The arguments of one option among those that are saved.\<close>

lemma single_args_concat: "single_args s (concat xss) = concat (map (single_args s) xss)"
  by (induction xss) (simp_all add: single_args_def)

lemma multi_tokens_concat: "multi_tokens m (concat xss) = concat (map (multi_tokens m) xss)"
  by (induction xss) (simp_all add: multi_tokens_def)

lemma concat_one:
  assumes "distinct xs" and "\<And>y. y \<in> set xs \<Longrightarrow> y \<noteq> x \<Longrightarrow> f y = []"
  shows "concat (map f xs) = (if x \<in> set xs then f x else [])"
  using assms by (induction xs) auto

lemma dump_order_all: "distinct dump_order" "\<exists>opt. (opt, x) \<in> set dump_order" "inj_on snd (set dump_order)"
proof -
  show "distinct dump_order" by code_simp
  show "\<exists>opt. (opt, x) \<in> set dump_order"
    by (cases x; rename_tac y; case_tac y) (auto simp: dump_order_def)
  have "distinct (map snd dump_order)" by code_simp
  then show "inj_on snd (set dump_order)" by (simp add: distinct_map)
qed

lemma saved_single:
  assumes "f_orig (ai_single ai s) = None \<or> arg_type_of s \<noteq> ARG_FLAG"
  shows "single_args s (saved ai) = (if is_given ai s then [f_orig (ai_single ai s)] else [])"
proof -
  obtain opt where opt: "(opt, Inl s) \<in> set dump_order" using dump_order_all(2) by blast
  have other: "single_args s (saved_of ai y) = []" if "y \<in> set dump_order" "y \<noteq> (opt, Inl s)" for y
  proof -
    obtain o' z where y: "y = (o', z)" by (cases y)
    with that opt have "z \<noteq> Inl s" using inj_onD [OF dump_order_all(3), of y "(opt, Inl s)"] by auto
    with y that dump_order_entry [of o' z] show ?thesis
      by (cases z) (auto simp: saved_of_def single_args_def)
  qed
  have "single_args s (saved_of ai (opt, Inl s)) = (if is_given ai s then [f_orig (ai_single ai s)] else [])"
    using dump_order_entry(2) [OF opt refl] assms by (auto simp: saved_of_def single_args_def)
  with concat_one [OF dump_order_all(1) other, where x = "(opt, Inl s)"] opt show ?thesis
    by (simp add: saved_def single_args_concat comp_def)
qed

lemma saved_multi:
  assumes "mf_given (ai_multi ai m) = 0 \<or> (\<forall>t \<in> set (mf_orig (ai_multi ai m)). value_tokens t = [t])"
  shows "multi_tokens m (saved ai) = (if mf_given (ai_multi ai m) = 0 then [] else mf_orig (ai_multi ai m))"
proof -
  obtain opt where opt: "(opt, Inr m) \<in> set dump_order" using dump_order_all(2) by blast
  have other: "multi_tokens m (saved_of ai y) = []" if "y \<in> set dump_order" "y \<noteq> (opt, Inr m)" for y
  proof -
    obtain o' z where y: "y = (o', z)" by (cases y)
    with that opt have "z \<noteq> Inr m" using inj_onD [OF dump_order_all(3), of y "(opt, Inr m)"] by auto
    with y that dump_order_entry [of o' z] show ?thesis
      by (cases z) (auto simp: saved_of_def multi_tokens_def)
  qed
  have one: "concat (map value_tokens ts) = ts" if "\<forall>t \<in> set ts. value_tokens t = [t]" for ts
    using that by (induction ts) simp_all
  have "multi_tokens m (saved_of ai (opt, Inr m)) = (if mf_given (ai_multi ai m) = 0 then [] else mf_orig (ai_multi ai m))"
    using dump_order_entry(5) [OF opt refl] assms one
    by (auto simp: saved_of_def multi_tokens_def comp_def filter_map)
  with concat_one [OF dump_order_all(1) other, where x = "(opt, Inr m)"] opt show ?thesis
    by (simp add: saved_def multi_tokens_concat comp_def)
qed

text \<open>A value without a comma is one token.\<close>

lemma token_without_comma: "CHR '','' \<notin> set t \<Longrightarrow> value_tokens (Some t) = [Some t]"
proof -
  assume t: "CHR '','' \<notin> set t"
  have "escape t = t" using t by (induction t) auto
  with tokens_of_join [of "[t]" "CHR 0x00"] show ?thesis by (simp add: value_tokens_def)
qed

lemma saved_plain: "list_all plain (saved ai)"
proof -
  have "plain opt" if "x \<in> set dump_order" "opt \<in> set (saved_of ai x)" for x opt
  proof -
    obtain name y where x: "x = (name, y)" by (cases x)
    with that have l: "fst opt = letter name" by (auto simp: saved_of_def split: sum.splits if_splits)
    from dump_order_entry [of name y] that(1) x l show ?thesis
      by (cases y) (auto simp: plain_def)
  qed
  then show ?thesis by (auto simp: saved_def list_all_iff)
qed

text \<open>The structure of a parsed command line, saved and parsed again.\<close>

lemma saved_described:
  assumes "\<And>m x. Some x \<in> set (multi_tokens m opts) \<Longrightarrow> CHR '','' \<notin> set x"
  shows "single_args s (saved (described junk opts)) =
      (if single_args s opts = [] then [] else [f_orig (single_field junk opts s)])"
    and "multi_tokens m (saved (described junk opts)) = multi_tokens m opts"
proof -
  have "f_orig (single_field junk opts s) = None \<or> arg_type_of s \<noteq> ARG_FLAG"
    by (auto simp: single_field_def set_single_def split: list.split)
  then show "single_args s (saved (described junk opts)) =
      (if single_args s opts = [] then [] else [f_orig (single_field junk opts s)])"
    by (subst saved_single) (simp_all add: described_given, simp_all add: described_def)
  have t: "value_tokens t = [t]" if "t \<in> set (multi_tokens m opts)" for t
    by (cases t) (use that assms token_without_comma in auto)
  then have "mf_given (ai_multi (described junk opts) m) = 0 \<or>
      (\<forall>t \<in> set (mf_orig (ai_multi (described junk opts) m)). value_tokens t = [t])"
    by (auto simp: described_def multi_array_def Let_def)
  from saved_multi [OF this] show "multi_tokens m (saved (described junk opts)) = multi_tokens m opts"
    by (auto simp: described_def multi_array_def Let_def)
qed

lemma saved_field:
  assumes "\<And>m x. Some x \<in> set (multi_tokens m opts) \<Longrightarrow> CHR '','' \<notin> set x"
  shows "single_field junk (saved (described junk opts)) s = single_field junk opts s"
proof (cases "single_args s opts")
  case Nil
  then show ?thesis using saved_described(1) [OF assms, of opts "\<lambda>m x. m" s junk] by (simp add: single_field_def)
next
  case (Cons v vs)
  then have "single_args s (saved (described junk opts)) = [f_orig (set_single s junk v)]"
    using saved_described(1) [OF assms, of opts "\<lambda>m x. m" s junk] by (simp add: single_field_def)
  with Cons show ?thesis
    by (cases "arg_type_of s") (simp_all add: single_field_def set_single_def)
qed

lemma saved_accepted:
  assumes "\<And>m x. Some x \<in> set (multi_tokens m opts) \<Longrightarrow> CHR '','' \<notin> set x" and "accepted opts"
  shows "accepted (saved (described junk opts))"
proof -
  have "is_number (f_orig (single_field junk opts O_attach))" if "single_args O_attach opts \<noteq> []"
    using assms(2) that
    by (auto simp: accepted_def single_field_def set_single_def arg_type_of_def split: list.split)
  then show ?thesis by (auto simp: accepted_def saved_described(1) [OF assms(1)])
qed

section \<open>Properties\<close>

text \<open>
  The tables of the program agree with each other.  The short options are those
  of the long ones, with a colon for every argument; the help has a line for
  every option, in the same order, with its letter, its name and the kind of its
  argument; and the switch of the parser takes an argument exactly from the options
  that have one.
\<close>

lemma option_tables_agree:
  "short_options = concat (map short_text long_options) \<and>
   map fst init_args_info = map fst long_options \<and>
   map snd init_args_info = gengetopt_args_info_help \<and>
   list_all (\<lambda>(opt, line). starts_with (help_head opt @ '' '') line) (zip long_options gengetopt_args_info_help) \<and>
   list_all (\<lambda>(name, k, c). case type_of_letter c of
       None \<Rightarrow> False | Some t \<Rightarrow> (k \<noteq> 0) = (t = ARG_STRING \<or> t = ARG_INT)) long_options"
  by (intro conjI) code_simp+

text \<open>
  C32: Saving the options of an accepted command line, when no value of an option
  that may be repeated has a comma, writes one line for each option of a command
  line that the parser turns into the same structure.
\<close>

theorem saved_options_same:
  assumes "cmdline_parser posix junk argv = Inr (ai, rest)"
    and "\<forall>m x. Some x \<in> set (mf_orig (ai_multi ai m)) \<longrightarrow> CHR '','' \<notin> set x"
  shows "\<exists>opts. cmdline_parser_file_save True ai = (0, Some (concat (map saved_line opts))) \<and>
    parse_options junk opts = Inr ai"
proof -
  obtain opts where p: "parse_options junk opts = Inr ai"
    using assms(1) by (auto simp: cmdline_parser_def split: prod.splits sum.splits)
  note d = parse_options_Inr [OF p]
  then have ai: "ai = described junk opts" by simp
  have c: "CHR '','' \<notin> set x" if "Some x \<in> set (multi_tokens m opts)" for m x
  proof -
    have "multi_tokens m opts \<noteq> []" using that by auto
    then have "mf_orig (ai_multi ai m) = multi_tokens m opts" by (simp add: ai described_def multi_array_def Let_def)
    with that assms(2) show ?thesis by metis
  qed
  have "mf_given (ai_multi ai m) = 0 \<or> length (mf_orig (ai_multi ai m)) = mf_given (ai_multi ai m)" for m
    by (auto simp: ai described_def multi_array_def Let_def)
  from saved_lines [OF this]
  have save: "cmdline_parser_file_save True ai = (0, Some (concat (map saved_line (saved ai))))"
    by (simp add: cmdline_parser_file_save_def cmdline_parser_dump_def)
  have "described junk (saved ai) = ai"
    using saved_field [OF c, where junk = junk] saved_described(2) [OF c, where junk = junk]
    by (simp add: ai described_def multi_array_def fun_eq_iff)
  moreover have "accepted (saved ai)" using saved_accepted [OF c] d by (simp add: ai)
  moreover have "single_args O_ephemeral (saved ai) = [] \<or> single_args O_chroot (saved ai) \<noteq> []"
    using d by (auto simp: ai saved_described(1) [OF c])
  ultimately have "parse_options junk (saved ai) = Inr ai"
    using parse_options_described [OF saved_plain [of ai], of junk] by simp
  with save show ?thesis by blast
qed

theorem saved_options_same_witness:
  "\<exists>ai opts. cmdline_parser False 0 [''-r'', ''/c'', ''-w'', ''-m'', ''a,b''] = Inr (ai, []) \<and>
     cmdline_parser_file_save True ai = (0, Some (concat (map saved_line opts))) \<and> parse_options 0 opts = Inr ai"
proof -
  define argv where "argv = [''-r'', ''/c'', ''-w'', ''-m'', ''a,b'']"
  have "(case cmdline_parser False 0 [''-r'', ''/c'', ''-w'', ''-m'', ''a,b''] of Inr (ai, rest) \<Rightarrow>
      rest = [] \<and> list_all (\<lambda>m. list_all (\<lambda>t. case t of None \<Rightarrow> True | Some x \<Rightarrow> list_all (\<lambda>c. c \<noteq> CHR '','') x) (mf_orig (ai_multi ai m)))
        [M_mount, M_netif, M_user_map, M_cgroup, M_caps, M_setenv] | _ \<Rightarrow> False)"
    by code_simp
  then obtain ai where run: "cmdline_parser False 0 argv = Inr (ai, [])"
    and c: "list_all (\<lambda>m. list_all (\<lambda>t. case t of None \<Rightarrow> True | Some x \<Rightarrow> list_all (\<lambda>c. c \<noteq> CHR '','') x) (mf_orig (ai_multi ai m)))
        [M_mount, M_netif, M_user_map, M_cgroup, M_caps, M_setenv]"
    unfolding argv_def [symmetric] by (auto split: sum.splits prod.splits)
  have "CHR '','' \<notin> set x" if "Some x \<in> set (mf_orig (ai_multi ai m))" for m x
    using c that by (cases m) (fastforce simp: list_all_iff)+
  then show ?thesis using saved_options_same [OF run] run unfolding argv_def by blast
qed

end
