(* ===== verification/Program.thy ===== *)
theory Program
  imports Lifecycle Cmdline_Output
begin

text \<open>
  pflask as it is started: main of src/pflask.c on a command line, with the option
  parser of src/cmdline.c before it.  \<open>posix\<close> tells whether POSIXLY_CORRECT is
  set, \<open>stack\<close> is what the uninitialised value of --attach holds, \<open>name\<close> is argv[0],
  \<open>argv\<close> the arguments after it, and \<open>getopt_error\<close> the message of getopt_long.
\<close>

section \<open>What main reads of the parser's result\<close>

definition flag_value :: "args_info \<Rightarrow> single \<Rightarrow> bool" where
  "flag_value ai s = (case f_arg (ai_single ai s) of FlagVal b \<Rightarrow> b | _ \<Rightarrow> False)"

definition string_value :: "args_info \<Rightarrow> single \<Rightarrow> cstring option" where
  "string_value ai s = (case f_arg (ai_single ai s) of StrVal v \<Rightarrow> v | _ \<Rightarrow> None)"

definition int_value :: "args_info \<Rightarrow> single \<Rightarrow> u32" where
  "int_value ai s = (case f_arg (ai_single ai s) of IntVal n \<Rightarrow> n | _ \<Rightarrow> 0)"

text \<open>The elements that a loop up to the counter reads.\<close>

definition array :: "args_info \<Rightarrow> multi \<Rightarrow> cstring option list" where
  "array ai m = take (mf_given (ai_multi ai m)) (mf_arg (ai_multi ai m))"

definition strings :: "args_info \<Rightarrow> multi \<Rightarrow> cstring list" where
  "strings ai m = map (\<lambda>s. case s of Some x \<Rightarrow> x | None \<Rightarrow> []) (array ai m)"

definition args_of :: "args_info \<Rightarrow> cstring list \<Rightarrow> args" where
  "args_of ai rest =
     \<lparr>mount_arg = strings ai M_mount, netif_arg = array ai M_netif,
      user_given = is_given ai O_user,
      user_arg = (case string_value ai O_user of Some x \<Rightarrow> x | None \<Rightarrow> []),
      user_map_arg = strings ai M_user_map, cgroup_arg = strings ai M_cgroup,
      caps_arg = strings ai M_caps, no_userns = flag_value ai O_no_userns,
      no_mountns = flag_value ai O_no_mountns, no_netns = flag_value ai O_no_netns,
      no_ipcns = flag_value ai O_no_ipcns, no_utsns = flag_value ai O_no_utsns,
      no_pidns = flag_value ai O_no_pidns,
      attach_arg = (if is_given ai O_attach then Some (int_value ai O_attach) else None),
      detach_flag = flag_value ai O_detach, ephemeral_flag = flag_value ai O_ephemeral,
      hostname_arg = (if is_given ai O_hostname then string_value ai O_hostname else None),
      chroot_arg = (if is_given ai O_chroot then string_value ai O_chroot else None),
      chdir_arg = (if is_given ai O_chdir then string_value ai O_chdir else None),
      keepenv_flag = flag_value ai O_keepenv, setenv_arg = strings ai M_setenv, command = rest\<rparr>"

text \<open>
  What the parser prints is printed before it returns or exits; it makes no other
  system call.
\<close>

definition print_all :: "printed \<Rightarrow> unit io" where
  "print_all = io_iter (\<lambda>(fd, t). io_bind (sys (Proc (Print fd t))) (\<lambda>_. io_ret ()))"

definition pflask ::
  "build \<Rightarrow> (cstring \<Rightarrow> int) \<Rightarrow> (call list \<Rightarrow> byte list) \<Rightarrow> nat \<Rightarrow>
   bool \<Rightarrow> u32 \<Rightarrow> cstring \<Rightarrow> cstring \<Rightarrow> cstring list \<Rightarrow> int option io" where
  "pflask build to_cap junk n posix stack name getopt_error argv =
     io_seq (print_all (parser_output name getopt_error stack (fst (getopt_all posix argv))))
     (io_bind (io_lift (cmdline_parser posix stack argv)) (\<lambda>(ai, rest).
       run_main build to_cap junk n (args_of ai rest)))"

section \<open>What the options of a command line say\<close>

lemma parser_described:
  assumes "cmdline_parser posix stack argv = Inr (ai, rest)"
  obtains opts where "getopt_all posix argv = (opts, rest)" "ai = described stack opts"
    "list_all plain opts" "list_all from_getopt opts"
proof -
  obtain opts where g: "getopt_all posix argv = (opts, rest)" and p: "parse_options stack opts = Inr ai"
    using assms by (auto simp: cmdline_parser_def split: prod.splits sum.splits)
  have "list_all from_getopt opts" using getopt_well_formed [of posix argv] g by simp
  with parse_options_Inr [OF p] g show ?thesis by (intro that) auto
qed

lemma flag_described:
  "arg_type_of s = ARG_FLAG \<Longrightarrow> flag_value (described stack opts) s \<longleftrightarrow> single_args s opts \<noteq> []"
  by (simp add: flag_value_def described_def single_field_def set_single_def clear_single_def
      split: list.split)

lemma array_described: "array (described stack opts) m = multi_tokens m opts"
  by (auto simp: array_def described_def multi_array_def Let_def)

lemma strings_described: "strings (described stack opts) m = [] \<longleftrightarrow> multi_tokens m opts = []"
  by (simp add: strings_def array_described)

lemma value_tokens_nonempty: "value_tokens v \<noteq> []"
  by (simp add: value_tokens_def tokens_of.simps)

lemma multi_tokens_empty:
  "multi_tokens m opts = [] \<longleftrightarrow> \<not> list_ex (\<lambda>(c, v). multi_of c = Some m) opts"
  by (auto simp: multi_tokens_def list_ex_iff value_tokens_nonempty)

lemma single_args_empty:
  "single_args s opts = [] \<longleftrightarrow> \<not> list_ex (\<lambda>(c, v). single_of c = Some s) opts"
  by (auto simp: single_args_def list_ex_iff filter_empty_conv)

text \<open>Was an option with this letter given?\<close>

definition has :: "char \<Rightarrow> given_option list \<Rightarrow> bool" where
  "has c opts \<longleftrightarrow> c \<in> fst ` set opts"

lemma single_has: "single_args s opts \<noteq> [] \<longleftrightarrow> (\<exists>c. single_of c = Some s \<and> has c opts)"
  unfolding single_args_empty by (force simp: list_ex_iff has_def)

lemma multi_has: "multi_tokens m opts \<noteq> [] \<longleftrightarrow> (\<exists>c. multi_of c = Some m \<and> has c opts)"
  unfolding multi_tokens_empty by (force simp: list_ex_iff has_def)

lemma letters:
  "single_of c = Some O_no_mountns \<longleftrightarrow> c = CHR ''M''" "single_of c = Some O_no_utsns \<longleftrightarrow> c = CHR ''H''"
  "single_of c = Some O_no_ipcns \<longleftrightarrow> c = CHR ''I''" "single_of c = Some O_no_pidns \<longleftrightarrow> c = CHR ''P''"
  "single_of c = Some O_no_userns \<longleftrightarrow> c = CHR ''U''" "single_of c = Some O_no_netns \<longleftrightarrow> c = CHR ''N''"
  "single_of c = Some O_user \<longleftrightarrow> c = CHR ''u''" "single_of c = Some O_ephemeral \<longleftrightarrow> c = CHR ''w''"
  "single_of c = Some O_chroot \<longleftrightarrow> c = CHR ''r''"
  "multi_of c = Some M_user_map \<longleftrightarrow> c = CHR ''e''" "multi_of c = Some M_netif \<longleftrightarrow> c = CHR ''n''"
  by (auto simp: single_of_def multi_of_def split: if_splits)

lemma args_described:
  "no_mountns (args_of (described stack opts) rest) \<longleftrightarrow> has CHR ''M'' opts"
  "no_utsns (args_of (described stack opts) rest) \<longleftrightarrow> has CHR ''H'' opts"
  "no_ipcns (args_of (described stack opts) rest) \<longleftrightarrow> has CHR ''I'' opts"
  "no_pidns (args_of (described stack opts) rest) \<longleftrightarrow> has CHR ''P'' opts"
  "no_userns (args_of (described stack opts) rest) \<longleftrightarrow> has CHR ''U'' opts"
  "no_netns (args_of (described stack opts) rest) \<longleftrightarrow> has CHR ''N'' opts"
  "ephemeral_flag (args_of (described stack opts) rest) \<longleftrightarrow> has CHR ''w'' opts"
  "user_given (args_of (described stack opts) rest) \<longleftrightarrow> has CHR ''u'' opts"
  "user_map_arg (args_of (described stack opts) rest) \<noteq> [] \<longleftrightarrow> has CHR ''e'' opts"
  "netif_arg (args_of (described stack opts) rest) \<noteq> [] \<longleftrightarrow> has CHR ''n'' opts"
  by (simp_all add: args_of_def flag_described arg_type_of_def single_has letters described_given
      strings_described array_described multi_has)

section \<open>Refused command lines\<close>

lemma not_plain:
  assumes "from_getopt opt" and "\<not> plain opt"
  shows "fst opt \<in> {CHR ''h'', CHR ''V'', CHR ''?''}"
proof (rule ccontr)
  assume n: "fst opt \<notin> {CHR ''h'', CHR ''V'', CHR ''?''}"
  obtain c v where opt: "opt = (c, v)" by (cases opt)
  from n assms(1) have "well_formed (c, v)" by (auto simp: from_getopt_def opt)
  with n have "single_of c \<noteq> None \<or> multi_of c \<noteq> None"
    by (auto simp: well_formed_def long_options_def single_of_def multi_of_def opt)
  with n assms(2) show False by (simp add: plain_def opt)
qed

text \<open>
  A description of what is wrong with an option after the accepted options
  \<open>before\<close>: the exit status, the file descriptor and the message.  The letters of
  the options that may be repeated are m, n, e, g, b and s.
\<close>

definition complaint ::
  "cstring \<Rightarrow> cstring \<Rightarrow> given_option list \<Rightarrow> given_option \<Rightarrow> (int \<times> int \<times> cstring) option" where
  "complaint name getopt_error before opt =
     (case opt of (c, v) \<Rightarrow>
        if c = CHR ''h'' then Some (0, 1, cmdline_parser_print_help)
        else if c = CHR ''V'' then Some (0, 1, cmdline_parser_print_version)
        else if c = CHR ''?'' then Some (1, 2, getopt_error)
        else if c \<notin> set ''mnegbs'' \<and> has c before then
          Some (1, 2, name @ '': `--'' @ the (option_name c) @ [CHR 0x27] @ '' (`-'' @ [c] @ [CHR 0x27] @
            '') option given more than once'' @ NL)
        else if c = CHR ''a'' \<and> \<not> is_number v then
          Some (1, 2, name @ '': invalid numeric value: '' @ the v @ NL)
        else None)"

text \<open>The first complaint of a command line; the last is that -w is given without -r.\<close>

fun first_complaint ::
  "cstring \<Rightarrow> cstring \<Rightarrow> given_option list \<Rightarrow> given_option list \<Rightarrow> (int \<times> int \<times> cstring) option" where
  "first_complaint name getopt_error before [] =
     (if has CHR ''w'' before \<and> \<not> has CHR ''r'' before
      then Some (1, 2, name @ '': '' @ in_quotes ''--ephemeral'' @ '' ('' @ in_quotes ''-w'' @
             '') option depends on option '' @ in_quotes ''chroot'' @ NL)
      else None)"
| "first_complaint name getopt_error before (opt # opts) =
     (case complaint name getopt_error before opt of
        Some x \<Rightarrow> Some x
      | None \<Rightarrow> first_complaint name getopt_error (before @ [opt]) opts)"

text \<open>The description meets the parser, option by option.\<close>

lemma single_letter:
  assumes "single_of c = Some s"
  shows "option_strings s = (the (option_name c), c) \<and> c \<notin> set ''mnegbs'' \<and> c \<notin> set ''hV?-'' \<and>
    (s = O_attach \<longleftrightarrow> c = CHR ''a'')"
proof -
  let ?T = "[(CHR ''r'', O_chroot), (CHR ''c'', O_chdir), (CHR ''t'', O_hostname), (CHR ''u'', O_user),
      (CHR ''w'', O_ephemeral), (CHR ''d'', O_detach), (CHR ''a'', O_attach), (CHR ''k'', O_keepenv),
      (CHR ''U'', O_no_userns), (CHR ''M'', O_no_mountns), (CHR ''N'', O_no_netns),
      (CHR ''I'', O_no_ipcns), (CHR ''H'', O_no_utsns), (CHR ''P'', O_no_pidns)]"
  have T: "(c, s) \<in> set ?T" using assms unfolding single_of_def by (rule map_of_SomeD)
  have "\<forall>(c, s) \<in> set ?T. option_strings s = (the (option_name c), c) \<and> c \<notin> set ''mnegbs'' \<and>
      c \<notin> set ''hV?-'' \<and> (s = O_attach \<longleftrightarrow> c = CHR ''a'')"
    by (simp add: option_strings_def option_name_def long_options_def)
  from bspec [OF this T, unfolded prod.case] show ?thesis .
qed

lemma single_has_letter:
  assumes "single_of c = Some s"
  shows "single_args s opts \<noteq> [] \<longleftrightarrow> has c opts"
proof -
  have "d = c" if "single_of d = Some s" for d
    using single_letter [OF that] single_letter [OF assms] by simp
  with assms show ?thesis unfolding single_has by blast
qed

lemma multi_letter: "multi_of c \<noteq> None \<Longrightarrow> c \<in> set ''mnegbs''"
  by (auto simp: multi_of_def split: if_splits)

lemma complaint_multi: "c \<in> set ''mnegbs'' \<Longrightarrow> complaint name ge before (c, v) = None"
  by (auto simp: complaint_def)

lemma complaint_single:
  "single_of c = Some s \<Longrightarrow> complaint name ge before (c, v) =
    (if has c before then
       Some (1, 2, name @ '': `--'' @ the (option_name c) @ [CHR 0x27] @ '' (`-'' @ [c] @ [CHR 0x27] @
         '') option given more than once'' @ NL)
     else if c = CHR ''a'' \<and> \<not> is_number v then
       Some (1, 2, name @ '': invalid numeric value: '' @ the v @ NL)
     else None)"
  using single_letter [of c s] by (simp add: complaint_def)

lemma single_error:
  assumes s: "single_of c = Some s"
  shows "update_arg_error name (ai_single (p_info (parsed junk opts)) s) (p_single (parsed junk opts) s) v
      (arg_type_of s) False False False (fst (option_strings s)) (snd (option_strings s)) =
    (if has c opts then
       Some (name @ '': `--'' @ the (option_name c) @ [CHR 0x27] @ '' (`-'' @ [c] @ [CHR 0x27] @
         '') option given more than once'' @ NL)
     else if c = CHR ''a'' \<and> \<not> is_number v then
       Some (name @ '': invalid numeric value: '' @ the v @ NL)
     else None)"
proof (cases "single_args s opts")
  case Nil
  have "\<not> has c opts" using Nil single_has_letter [OF s, of opts] by simp
  with Nil single_letter [OF s] show ?thesis
    by (auto simp: update_arg_error_def parsed_def single_field_def arg_type_cases is_number_def
        split: option.split)
next
  case (Cons w ws)
  moreover have "has c opts" using Cons single_has_letter [OF s, of opts] by simp
  ultimately show ?thesis
    using single_letter [OF s] by (simp add: update_arg_error_def parsed_def)
qed

lemma step_output_parsed:
  assumes "from_getopt opt"
  shows "step_output name ge (parsed junk before) opt =
    (case complaint name ge before opt of None \<Rightarrow> [] | Some (status, fd, t) \<Rightarrow> [(fd, t)])"
proof (cases "plain opt")
  case False
  then show ?thesis
    using not_plain [OF assms False] by (cases opt) (auto simp: step_output_def complaint_def)
next
  case True
  obtain c v where opt: "opt = (c, v)" by (cases opt)
  have c: "c \<noteq> CHR ''h''" "c \<noteq> CHR ''V''" "c \<noteq> CHR ''?''" using True by (simp_all add: plain_def opt)
  show ?thesis
  proof (cases "single_of c")
    case None
    with True opt obtain m where m: "multi_of c = Some m" by (auto simp: plain_def)
    have "complaint name ge before opt = None"
      unfolding opt by (rule complaint_multi, rule multi_letter) (simp add: m)
    with None m c show ?thesis by (simp add: step_output_def opt)
  next
    case (Some s)
    with c show ?thesis
      by (simp add: step_output_def opt single_error complaint_single)
  qed
qed

lemma step_complaint:
  assumes "from_getopt opt" and acc: "accepted before"
  shows "(case complaint name ge before opt of
      Some (status, fd, t) \<Rightarrow> parse_step (parsed junk before) opt = Inl (Exit status)
    | None \<Rightarrow> accepted (before @ [opt]) \<and> parse_step (parsed junk before) opt = Inr (parsed junk (before @ [opt])))"
proof (cases "plain opt")
  case False
  then show ?thesis
    using not_plain [OF assms(1) False] by (cases opt) (auto simp: parse_step_def complaint_def)
next
  case True
  obtain c v where opt: "opt = (c, v)" by (cases opt)
  have c: "c \<noteq> CHR ''h''" "c \<noteq> CHR ''V''" "c \<noteq> CHR ''?''" using True by (simp_all add: plain_def opt)
  show ?thesis
  proof (cases "single_of c")
    case None
    with True opt obtain m where m: "multi_of c = Some m" by (auto simp: plain_def)
    have "complaint name ge before opt = None"
      unfolding opt by (rule complaint_multi, rule multi_letter) (simp add: m)
    with step_multi(1) [OF m acc, of v] step_parsed [OF True acc, of junk] show ?thesis
      by (simp add: opt)
  next
    case (Some s)
    have "update_arg_error name (ai_single (p_info (parsed junk before)) s) (p_single (parsed junk before) s) v
        (arg_type_of s) False False False (fst (option_strings s)) (snd (option_strings s)) = None \<longleftrightarrow>
      accepted (before @ [opt])"
      using step_single [OF Some acc, of junk v]
      by (auto simp: update_arg_error_iff parse_single_def opt split: option.splits if_splits)
    then have "accepted (before @ [opt]) \<longleftrightarrow> \<not> has c before \<and> \<not> (c = CHR ''a'' \<and> \<not> is_number v)"
      by (auto simp: single_error [OF Some] split: if_splits)
    with step_parsed [OF True acc, of junk] show ?thesis
      unfolding opt complaint_single [OF Some] by (auto split: if_splits)
  qed
qed

text \<open>The same for a whole command line.\<close>

lemma required_output_described:
  "required_output name (described junk opts) =
    (case first_complaint name ge opts [] of None \<Rightarrow> [] | Some (status, fd, t) \<Rightarrow> [(fd, t)])"
proof -
  have "occurrences_error name (mf_given (ai_multi (described junk opts) m)) (mf_min (ai_multi (described junk opts) m))
      (mf_max (ai_multi (described junk opts) m)) d = []" for m d
    by (simp add: occurrences_error_def check_multiple_option_occurrences_def described_def multi_array_def Let_def)
  moreover have "is_given (described junk opts) O_ephemeral \<longleftrightarrow> has CHR ''w'' opts"
    "is_given (described junk opts) O_chroot \<longleftrightarrow> has CHR ''r'' opts"
    by (simp_all add: described_given single_has letters)
  ultimately show ?thesis
    by (simp add: required_output_def option_desc_def in_quotes_def)
qed

lemma complaints_met:
  "\<lbrakk>list_all from_getopt opts; accepted before\<rbrakk> \<Longrightarrow>
   output_from name ge (parsed junk before) opts =
     (case first_complaint name ge before opts of None \<Rightarrow> [] | Some (status, fd, t) \<Rightarrow> [(fd, t)]) \<and>
   (case parse_all (parsed junk before) opts of Inl e \<Rightarrow> Inl e | Inr p \<Rightarrow> parse_end p) =
     (case first_complaint name ge before opts of
        None \<Rightarrow> Inr (described junk (before @ opts)) | Some (status, fd, t) \<Rightarrow> Inl (Exit status))"
proof (induction opts arbitrary: before)
  case Nil
  obtain p where p: "finish_all (parsed junk before) [M_mount, M_netif, M_user_map, M_cgroup, M_caps, M_setenv] = Inr p"
    "p_info p = described junk before" using finish_parsed by blast
  have "output_from name ge (parsed junk before) [] = required_output name (p_info p)"
    unfolding output_from_def parse_all.simps options_output.simps sum.case p(1) by simp
  moreover have "parse_end (parsed junk before) =
      (if has CHR ''w'' before \<and> \<not> has CHR ''r'' before then Inl (Exit 1) else Inr (described junk before))"
    unfolding parse_end_def p(1)
    using single_has [of O_ephemeral before] single_has [of O_chroot before]
    by (auto simp add: p(2) described_required letters)
  ultimately show ?case
    unfolding p(2) required_output_described [of name junk before ge] by simp
next
  case (Cons o1 os)
  then have "from_getopt o1" "list_all from_getopt os" by simp_all
  then show ?case
    using step_output_parsed [of o1 name ge junk before] step_complaint [of o1 before junk name ge]
      Cons.IH [of "before @ [o1]"] Cons.prems(2)
    by (cases "complaint name ge before o1") (auto simp: output_from_def split: option.split)
qed

lemma print_one: "print_all [(fd, t)] k h = (Inr (), h @ [Proc (Print fd t)])"
  by (simp add: print_all_def io_simps)

lemma print_none: "print_all [] = io_ret ()"
  by (simp add: print_all_def)

section \<open>Properties\<close>

text \<open>
  C17: From the command line to the namespaces: if the parser accepts the command
  line and main its options, the clone flags contain a namespace exactly when
  the letters that getopt found ask for it: mounts, hostname, IPC and pids
  unless disabled by -M, -H, -I, -P; users for -u or -e, unless disabled by -U;
  the network for -n unless disabled by -N; control groups when the headers have
  them; and no other bit.
\<close>

theorem command_line_namespaces:
  assumes "cmdline_parser posix stack argv = Inr (ai, rest)"
    and "configure build to_cap (args_of ai rest) k h = (Inr c, h')"
  shows "bit (cf_flags c) n \<longleftrightarrow>
    (let opts = fst (getopt_all posix argv) in
     n = 17 \<and> \<not> has CHR ''M'' opts \<or> n = 25 \<and> b_newcgroup build \<or> n = 26 \<and> \<not> has CHR ''H'' opts \<or>
     n = 27 \<and> \<not> has CHR ''I'' opts \<or> n = 29 \<and> \<not> has CHR ''P'' opts \<or>
     n = 28 \<and> (has CHR ''u'' opts \<or> has CHR ''e'' opts) \<and> \<not> has CHR ''U'' opts \<or>
     n = 30 \<and> has CHR ''n'' opts \<and> \<not> has CHR ''N'' opts)"
proof -
  from assms(1) obtain opts where o: "getopt_all posix argv = (opts, rest)" "ai = described stack opts"
    by (rule parser_described)
  show ?thesis
    unfolding configured_bits [OF assms(2)] o(2) args_described by (simp add: o(1))
qed

theorem command_line_namespaces_witness:
  "\<exists>ai c. cmdline_parser False 0 [''-P'', ''--netif'', ''ls''] = Inr (ai, [''ls'']) \<and>
     outcome (configure plain_build (\<lambda>_. 0) (args_of ai [''ls''])) (\<lambda>_ _. ok) = Inr c \<and>
     bit (cf_flags c) 30 \<and> \<not> bit (cf_flags c) 29"
proof -
  let ?av = "[''-P'', ''--netif'', ''ls'']"
  have "(case cmdline_parser False 0 ?av of Inr (ai, r) \<Rightarrow> r = [''ls''] \<and>
      \<not> isl (outcome (configure plain_build (\<lambda>_. 0) (args_of ai r)) (\<lambda>_ _. ok)) | _ \<Rightarrow> False)"
    by code_simp
  then obtain ai where run: "cmdline_parser False 0 ?av = Inr (ai, [''ls''])"
    and "\<not> isl (outcome (configure plain_build (\<lambda>_. 0) (args_of ai [''ls''])) (\<lambda>_ _. ok))"
    by (auto split: sum.splits prod.splits)
  then obtain c where c: "outcome (configure plain_build (\<lambda>_. 0) (args_of ai [''ls''])) (\<lambda>_ _. ok) = Inr c"
    by (cases "outcome (configure plain_build (\<lambda>_. 0) (args_of ai [''ls''])) (\<lambda>_ _. ok)") auto
  then obtain h where cf: "configure plain_build (\<lambda>_. 0) (args_of ai [''ls'']) (\<lambda>_ _. ok) [] = (Inr c, h)"
    by (cases "configure plain_build (\<lambda>_. 0) (args_of ai [''ls'']) (\<lambda>_ _. ok) []") (simp add: outcome_def)
  have g: "fst (getopt_all False ?av) = [(CHR ''P'', None), (CHR ''n'', None)]" by code_simp
  have "bit (cf_flags c) 30" "\<not> bit (cf_flags c) 29"
    unfolding command_line_namespaces [OF run cf] Let_def g by (simp_all add: has_def)
  with run c show ?thesis by blast
qed

text \<open>
  C25: What pflask does with any command line, without exception.  Unless one of the
  options that getopt_long returns is wrong, it prints nothing and runs the container
  that the options describe.  Otherwise the first wrong one decides everything:
  --help and --version print their text on stdout and exit with 0; an option that
  getopt_long refuses, a repeated option that may not be repeated, a value of
  --attach that is not a number, and at the end --ephemeral without --chroot print
  their message, and no other, on stderr and exit with 1.  The print is the only
  call that a refused command line makes.
\<close>

theorem refused_without_effect:
  "case first_complaint name getopt_error [] (fst (getopt_all posix argv)) of
     Some (status, fd, text) \<Rightarrow>
       pflask build to_cap junk n posix stack name getopt_error argv k h =
         (Inl (Exit status), h @ [Proc (Print fd text)])
   | None \<Rightarrow>
       pflask build to_cap junk n posix stack name getopt_error argv k h =
         run_main build to_cap junk n
           (args_of (described stack (fst (getopt_all posix argv))) (snd (getopt_all posix argv))) k h"
proof -
  obtain opts rest where g: "getopt_all posix argv = (opts, rest)" by fastforce
  have go: "list_all from_getopt opts" using getopt_well_formed [of posix argv] g by simp
  have acc: "accepted []" by (simp add: accepted_def single_args_def)
  have out: "parser_output name getopt_error stack opts =
      (case first_complaint name getopt_error [] opts of None \<Rightarrow> [] | Some (status, fd, t) \<Rightarrow> [(fd, t)])"
    using complaints_met [OF go acc, of name getopt_error stack] by (simp add: parser_output_def parsed_Nil)
  have res: "cmdline_parser posix stack argv =
      (case first_complaint name getopt_error [] opts of
         None \<Rightarrow> Inr (described stack opts, rest) | Some (status, fd, t) \<Rightarrow> Inl (Exit status))"
    using complaints_met [OF go acc, of name getopt_error stack] g
    by (auto simp: cmdline_parser_def parse_options_def parsed_Nil split: option.splits)
  show ?thesis
  proof (cases "first_complaint name getopt_error [] opts")
    case None
    with out res show ?thesis
      by (simp add: g pflask_def print_none io_seq_def io_bind_def io_ret_def io_lift_def)
  next
    case (Some x)
    obtain status fd t where x: "x = (status, fd, t)" by (cases x)
    with Some out res show ?thesis
      by (simp add: g pflask_def print_one io_seq_def io_bind_def io_lift_def)
  qed
qed

end
