(* ===== verification/Relay.thy ===== *)
theory Relay
  imports Pty
begin

text \<open>
  The loops of pty.c come to an end: from the first reply on that gives a reason
  to leave, no interrupted wait, resize or input keeps process_pty or serve_pty
  going, and the bound on the number of rounds no longer matters.
\<close>

section \<open>When the loops end\<close>

text \<open>
  Both loops are \<open>run_rounds\<close> of a round that waits once.  The contract of such a
  round: a round after which the loop goes on has waited, and one that starts
  where \<open>leaves\<close> holds leaves the loop, by \<open>goto done\<close> or by a failure.
\<close>

definition waits :: "call list \<Rightarrow> nat" where
  "waits h = length (filter (\<lambda>c. c = Ev Epoll_wait) h)"

lemma waits_simps [simp]:
  "waits [] = 0" "waits (c # h) = (if c = Ev Epoll_wait then Suc (waits h) else waits h)"
  "waits (g @ h) = waits g + waits h"
  by (simp_all add: waits_def)

locale wait_loop =
  fixes round :: "bool io" and leaves :: "kernel \<Rightarrow> call list \<Rightarrow> bool"
  assumes round_waits: "round k h = (Inr False, h') \<Longrightarrow> waits h < waits h'"
    and round_leaves: "leaves k h \<Longrightarrow> fst (round k h) \<noteq> Inr False"
begin

text \<open>A loop that was left is not changed by more rounds.\<close>

lemma rounds_more:
  "fst (run_rounds round n k h) \<noteq> Inr False \<Longrightarrow>
     run_rounds round (n + d) k h = run_rounds round n k h"
proof (induction n arbitrary: h)
  case (Suc n)
  then show ?case by (auto simp: io_bind_def io_ret_def split: prod.splits sum.splits)
qed (simp add: io_ret_def)

lemma rounds_end:
  assumes ends: "\<And>h. N \<le> waits h \<Longrightarrow> leaves k h" and "0 < n" and "N < waits h + n"
  shows "fst (run_rounds round n k h) \<noteq> Inr False"
  using assms(2,3)
proof (induction n arbitrary: h)
  case (Suc n)
  obtain r h1 where r: "round k h = (r, h1)" by fastforce
  show ?case
  proof (cases "r = Inr False")
    case True
    then have "\<not> leaves k h" and "waits h < waits h1"
      using r round_leaves round_waits by fastforce+
    from ends [of h] \<open>\<not> leaves k h\<close> have "waits h < N" by (meson not_le)
    with \<open>waits h < waits h1\<close> Suc.prems(2) have "0 < n" and "N < waits h1 + n" by linarith+
    from Suc.IH [OF this] True r show ?thesis by (simp add: io_bind_def)
  next
    case False
    with r show ?thesis by (auto simp: io_bind_def io_ret_def split: sum.splits)
  qed
qed simp

text \<open>So a number of rounds that does not depend on anything else is enough.\<close>

lemma rounds_settle:
  assumes "\<And>h. N \<le> waits h \<Longrightarrow> leaves k h" and "N < n"
  shows "fst (run_rounds round n k h) \<noteq> Inr False"
    and "run_rounds round n k h = run_rounds round (Suc N) k h"
proof -
  show "fst (run_rounds round n k h) \<noteq> Inr False"
    using rounds_end [OF assms(1), where n = n] assms(2) by simp
  have "fst (run_rounds round (Suc N) k h) \<noteq> Inr False"
    using rounds_end [OF assms(1), where n = "Suc N"] by simp
  from rounds_more [OF this, of "n - Suc N"] assms(2)
  show "run_rounds round n k h = run_rounds round (Suc N) k h" by simp
qed

end

text \<open>
  The replies that make the loop of process_pty end: the wait fails (an
  interrupted one is repeated), the terminal or the master is at its end, or one
  of the signals SIGINT, SIGTERM, SIGCHLD and SIGRTMIN + 4 has arrived.
\<close>

definition signal_leaves :: "kernel \<Rightarrow> int \<Rightarrow> call list \<Rightarrow> bool" where
  "signal_leaves k s h \<longleftrightarrow>
     (let r = k (h @ [Ev Epoll_wait]) (Ev (Read_fd s 128)) in
      rc r \<noteq> 128 \<or> nat (num r) \<in> {SIGINT, SIGTERM, SIGCHLD, SIGDETACH})"

definition relay_leaves :: "int \<Rightarrow> int \<Rightarrow> nat \<Rightarrow> kernel \<Rightarrow> call list \<Rightarrow> bool" where
  "relay_leaves m s l k h \<longleftrightarrow>
     (let e = k h (Ev Epoll_wait); f = num e in
      if rc e < 0 then errno e \<noteq> EINTR
      else if f = 0 \<or> f = m then rc (k (h @ [Ev Epoll_wait]) (Ev (Read_fd f l))) \<le> 0
      else f = s \<and> signal_leaves k s h)"

lemma signal_numbers:
  "SIGINT \<noteq> SIGWINCH" "SIGTERM \<noteq> SIGWINCH" "SIGCHLD \<noteq> SIGWINCH" "SIGDETACH \<noteq> SIGWINCH"
  by (simp_all add: SIGINT_def SIGTERM_def SIGCHLD_def SIGDETACH_def SIGWINCH_def)

lemma close_fd_grows [grows_intros]: "grows (close_fd f)"
  by (simp add: close_fd_def grows_ret grows_checked)

lemma branches_grow [grows_intros]:
  "grows (stdin_branch m l ev)" "grows (master_branch m l ev)" "grows (signal_branch m s ev)"
  "grows (server_signal s ev)" "grows (accept_branch fd sock ev)"
  unfolding stdin_branch_def master_branch_def signal_branch_def server_signal_def
    accept_branch_def send_fd_def Let_def
  by (auto intro!: grows_intros)

lemma wait_first:
  assumes "io_bind (sys (Ev Epoll_wait)) f k h = (r, h')" and "\<And>e. grows (f e)"
  shows "waits h < waits h'"
  using growsE [OF assms(2), of "k h (Ev Epoll_wait)" k "h @ [Ev Epoll_wait]" r h'] assms(1)
  by (auto simp: io_bind_def sys_def)

lemma branches_leave:
  "rc (k (h @ [Ev Epoll_wait]) (Ev (Read_fd 0 l))) \<le> 0 \<Longrightarrow>
     stdin_branch m l 0 k (h @ [Ev Epoll_wait]) = (Inr True, h @ [Ev Epoll_wait, Ev (Read_fd 0 l)])"
  "ev \<noteq> 0 \<Longrightarrow> stdin_branch m l ev = io_ret False"
  "rc (k (h @ [Ev Epoll_wait]) (Ev (Read_fd m l))) \<le> 0 \<Longrightarrow>
     master_branch m l m k (h @ [Ev Epoll_wait]) = (Inr True, h @ [Ev Epoll_wait, Ev (Read_fd m l)])"
  "ev \<noteq> m \<Longrightarrow> master_branch m l ev = io_ret False"
  "signal_leaves k s h \<Longrightarrow> fst (signal_branch m s s k (h @ [Ev Epoll_wait])) \<noteq> Inr False"
  using signal_numbers
  by (auto simp: stdin_branch_def master_branch_def signal_branch_def signal_leaves_def io_simps Let_def)

interpretation pty_loop: wait_loop "pty_round m s l" "relay_leaves m s l" for m s l
proof
  fix k h h' assume "pty_round m s l k h = (Inr False, h')"
  then show "waits h < waits h'"
    unfolding pty_round_def by (rule wait_first) (auto intro!: grows_intros)
next
  fix k h assume "relay_leaves m s l k h"
  then show "fst (pty_round m s l k h) \<noteq> Inr False"
    using branches_leave
    by (cases "rc (k h (Ev Epoll_wait)) < 0"; cases "num (k h (Ev Epoll_wait)) = 0";
        cases "num (k h (Ev Epoll_wait)) = m")
       (auto simp: relay_leaves_def pty_round_def io_bind_def io_seq_def sys_def sys_fail_if_def
         io_ret_def io_stop_def Let_def split: if_splits prod.splits sum.splits)
qed

text \<open>For serve_pty: the wait fails, or a signal other than SIGWINCH, which it does not block.\<close>

definition server_leaves :: "int \<Rightarrow> int \<Rightarrow> kernel \<Rightarrow> call list \<Rightarrow> bool" where
  "server_leaves sock s k h \<longleftrightarrow>
     (let e = k h (Ev Epoll_wait) in
      if rc e < 0 then errno e \<noteq> EINTR else num e = s \<and> s \<noteq> sock \<and> signal_leaves k s h)"

interpretation server_loop: wait_loop "serve_round fd sock s" "server_leaves sock s" for fd sock s
proof
  fix k h h' assume "serve_round fd sock s k h = (Inr False, h')"
  then show "waits h < waits h'"
    unfolding serve_round_def by (rule wait_first) (auto intro!: grows_intros)
next
  fix k h assume "server_leaves sock s k h"
  then show "fst (serve_round fd sock s k h) \<noteq> Inr False"
    by (auto simp: server_leaves_def signal_leaves_def serve_round_def accept_branch_def
        server_signal_def io_simps Let_def split: if_splits)
qed

definition relay_fd :: "kernel \<Rightarrow> int" where
  "relay_fd k =
     (let sigs = [SIGINT, SIGTERM, SIGCHLD, SIGWINCH, SIGDETACH] in
      rc (k [Ev Sysconf, Ev (Sigprocmask sigs)] (Ev (Signalfd sigs))))"

definition line_max :: "kernel \<Rightarrow> nat" where
  "line_max k = nat (rc (k [] (Ev Sysconf)))"

text \<open>
  C19: The relay ends.  Suppose that the kernel reports from the N-th call of
  epoll_wait on, in whatever history, a reason to leave (the terminal or the
  master is at its end, a signal other than SIGWINCH, a failure).  Then
  process_pty does return or stop, and N + 1 rounds are as good as any larger number:
  no interrupted wait, resize or input keeps it in the loop.
\<close>

theorem process_pty_ends:
  assumes "\<And>h. N \<le> waits h \<Longrightarrow> relay_leaves m (relay_fd k) (line_max k) k h" and "N < n"
  shows "outcome (process_pty n st m) k \<noteq> Inr False \<and>
    process_pty n st m k [] = process_pty (Suc N) st m k []"
proof -
  note settle = pty_loop.rounds_settle [OF assms]
  let ?sigs = "[SIGINT, SIGTERM, SIGCHLD, SIGWINCH, SIGDETACH]"
  have "fst (process_pty n st m k []) \<noteq> Inr False"
  proof
    assume "fst (process_pty n st m k []) = Inr False"
    then obtain h' where "process_pty n st m k [] = (Inr False, h')" by (metis prod.collapse)
    then obtain h h1 where
      "run_rounds (pty_round m (relay_fd k) (line_max k)) n k h = (Inr False, h1)"
      by (auto simp: process_pty_def Let_def io_Inr_iffs relay_fd_def line_max_def split: if_splits)
    with settle(1) show False by (metis fst_conv)
  qed
  moreover have "process_pty n st m k [] = process_pty (Suc N) st m k []"
    using settle(2)
    by (simp add: process_pty_def Let_def io_bind_def io_seq_def sys_def checked_def relay_fd_def
        line_max_def sys_fail_if_def io_stop_def io_ret_def del: run_rounds.simps)
  ultimately show ?thesis by (simp add: outcome_def)
qed

text \<open>A kernel whose first two waits are interrupted, and whose master is then at its end.\<close>

definition busy_kernel :: kernel where
  "busy_kernel h c =
     (case c of
        Ev Epoll_wait \<Rightarrow> if waits h < 2 then failed EINTR else ok\<lparr>num := 5\<rparr>
      | Ev (Signalfd sigs) \<Rightarrow> ok\<lparr>rc := 7\<rparr>
      | Ev Sysconf \<Rightarrow> ok\<lparr>rc := 2048\<rparr>
      | _ \<Rightarrow> ok)"

theorem process_pty_ends_witness:
  "outcome (process_pty 1000000 tty_init 5) busy_kernel \<noteq> Inr False \<and>
   process_pty 1000000 tty_init 5 busy_kernel [] = process_pty 3 tty_init 5 busy_kernel []"
proof -
  have "relay_leaves 5 (relay_fd busy_kernel) (line_max busy_kernel) busy_kernel h"
    if "2 \<le> waits h" for h
    using that by (simp add: relay_leaves_def busy_kernel_def Let_def)
  from process_pty_ends [OF this, where n = 1000000 and st = tty_init] show ?thesis
    by (simp add: numeral_3_eq_3 numeral_2_eq_2)
qed

text \<open>The server ends in the same way, when it is sent a signal.\<close>

lemma serve_pty_rounds_end:
  assumes "\<And>h. N \<le> waits h \<Longrightarrow> server_leaves sock s k h" and "N < n"
  shows "fst (run_rounds (serve_round fd sock s) n k h) \<noteq> Inr False \<and>
    run_rounds (serve_round fd sock s) n k h = run_rounds (serve_round fd sock s) (Suc N) k h"
  using server_loop.rounds_settle [OF assms] by blast

end
