(* ===== verification/Together.thy ===== *)
theory Together
  imports Lifecycle "HOL-Library.Sublist"
begin

text \<open>
  The two processes of main at the same time.  Sync shows that the protocol orders
  the work; this theory carries the order over to the code: for any interleaving
  of the calls that \<open>child\<close> and \<open>parent_sync\<close> make, also when they fail, which
  respects what a socket pair guarantees.
\<close>

section \<open>Interleavings\<close>

definition calls_of :: "proc \<Rightarrow> (proc \<times> call) list \<Rightarrow> call list" where
  "calls_of p w = map snd (filter (\<lambda>x. fst x = p) w)"

lemma calls_of_simps [simp]:
  "calls_of p [] = []"
  "calls_of p (x # w) = (if fst x = p then snd x # calls_of p w else calls_of p w)"
  "calls_of p (v @ w) = calls_of p v @ calls_of p w"
  by (simp_all add: calls_of_def)

lemma set_calls_of: "x \<in> set (calls_of p w) \<longleftrightarrow> (p, x) \<in> set w"
  by (force simp: calls_of_def)

lemma calls_of_prefix: "prefix (calls_of p (take i w)) (calls_of p w)"
  by (metis append_take_drop_id calls_of_simps(3) prefixI)

lemma calls_of_mono: "i \<le> j \<Longrightarrow> prefix (calls_of p (take i w)) (calls_of p (take j w))"
  using calls_of_prefix [of p i "take j w"] by (simp add: min_absorb1)

lemma calls_of_at: "i < length w \<Longrightarrow> w ! i = (p, x) \<Longrightarrow> calls_of p (take (Suc i) w) = calls_of p (take i w) @ [x]"
  by (simp add: take_Suc_conv_app_nth)

lemma calls_of_split:
  "calls_of p w = xs @ y # ys \<Longrightarrow> \<exists>i < length w. w ! i = (p, y) \<and> calls_of p (take i w) = xs"
proof (induction w arbitrary: xs)
  case (Cons x w)
  show ?case
  proof (cases "fst x = p \<and> xs = []")
    case True
    with Cons.prems show ?thesis by (intro exI [of _ 0]) (auto simp: prod_eq_iff)
  next
    case False
    define zs where "zs = (if fst x = p then tl xs else xs)"
    from False Cons.prems have "calls_of p w = zs @ y # ys" and xs: "xs = (if fst x = p then snd x # zs else zs)"
      by (cases xs; auto simp: zs_def)+
    from Cons.IH [OF this(1)] obtain i where "i < length w" "w ! i = (p, y)" "calls_of p (take i w) = zs"
      by blast
    with xs show ?thesis by (intro exI [of _ "Suc i"]) simp
  qed
qed simp

text \<open>
  What the kernel guarantees for the socket pair while a process holds both of
  its ends: a read gets data only if something was written to the other end
  before, it reports an end of file only if the reader itself has closed the
  other end, and a new pair has new descriptors.
\<close>

definition wrote :: "int \<Rightarrow> proc \<times> call \<Rightarrow> bool" where
  "wrote f x = (case snd x of Sync (Write_int g v) \<Rightarrow> g = f | _ \<Rightarrow> False)"

definition reads_ok :: "(proc \<times> call) list \<Rightarrow> proc \<Rightarrow> reply \<Rightarrow> int \<Rightarrow> bool" where
  "reads_ok before p r other \<longleftrightarrow>
     (0 < rc r \<longrightarrow> list_ex (wrote other) before) \<and>
     (rc r = 0 \<longrightarrow> (p, Sync (Close_fd other)) \<in> set before)"

lemma wrote_iff: "wrote f (q, c) \<longleftrightarrow> (\<exists>v. c = Sync (Write_int f v))"
  by (auto simp: wrote_def split: call.split sync_call.split)

lemma reads_okD:
  assumes "reads_ok before p r other" "0 \<le> rc r" "(p, Sync (Close_fd other)) \<notin> set before"
  obtains q v where "(q, Sync (Write_int other v)) \<in> set before"
proof -
  from assms have "list_ex (wrote other) before" by (auto simp: reads_ok_def)
  then obtain x where "x \<in> set before" "wrote other x" by (auto simp: list_ex_iff)
  with that show ?thesis by (cases x) (auto simp: wrote_iff)
qed

fun socket_ok :: "(proc \<Rightarrow> kernel) \<Rightarrow> (proc \<Rightarrow> call list) \<Rightarrow> sync_fds \<Rightarrow> (proc \<times> call) list \<Rightarrow> proc \<times> call \<Rightarrow> bool" where
  "socket_ok k h0 fds before (p, c) =
     (let r = k p (h0 p @ calls_of p before) c in
      (c = Sync (Read_int (fst fds)) \<longrightarrow> reads_ok before p r (snd fds)) \<and>
      (c = Sync (Read_int (snd fds)) \<longrightarrow> reads_ok before p r (fst fds)) \<and>
      (c = Sync Socketpair \<longrightarrow>
         list_all (\<lambda>f. f \<noteq> fst fds \<and> f \<noteq> snd fds) [fst (fd_pair r), snd (fd_pair r)]))"

definition socket_run :: "(proc \<Rightarrow> kernel) \<Rightarrow> (proc \<Rightarrow> call list) \<Rightarrow> sync_fds \<Rightarrow> (proc \<times> call) list \<Rightarrow> bool" where
  "socket_run k h0 fds w \<longleftrightarrow> list_all (\<lambda>i. socket_ok k h0 fds (take i w) (w ! i)) [0..<length w]"

lemma socket_runD:
  assumes "socket_run k h0 fds w" "i < length w"
  shows "w ! i = (p, Sync (Read_int (fst fds))) \<Longrightarrow>
      reads_ok (take i w) p (k p (h0 p @ calls_of p (take i w)) (Sync (Read_int (fst fds)))) (snd fds)"
    and "w ! i = (p, Sync (Read_int (snd fds))) \<Longrightarrow>
      reads_ok (take i w) p (k p (h0 p @ calls_of p (take i w)) (Sync (Read_int (snd fds)))) (fst fds)"
    and "w ! i = (p, Sync Socketpair) \<Longrightarrow> f \<in> {fst fds, snd fds} \<Longrightarrow>
      f \<noteq> fst (fd_pair (k p (h0 p @ calls_of p (take i w)) (Sync Socketpair))) \<and>
      f \<noteq> snd (fd_pair (k p (h0 p @ calls_of p (take i w)) (Sync Socketpair)))"
proof -
  have ok: "socket_ok k h0 fds (take i w) (w ! i)"
    using assms by (simp add: socket_run_def list_all_iff)
  show "w ! i = (p, Sync (Read_int (fst fds))) \<Longrightarrow>
      reads_ok (take i w) p (k p (h0 p @ calls_of p (take i w)) (Sync (Read_int (fst fds)))) (snd fds)"
    and "w ! i = (p, Sync (Read_int (snd fds))) \<Longrightarrow>
      reads_ok (take i w) p (k p (h0 p @ calls_of p (take i w)) (Sync (Read_int (snd fds)))) (fst fds)"
    and "w ! i = (p, Sync Socketpair) \<Longrightarrow> f \<in> {fst fds, snd fds} \<Longrightarrow>
      f \<noteq> fst (fd_pair (k p (h0 p @ calls_of p (take i w)) (Sync Socketpair))) \<and>
      f \<noteq> snd (fd_pair (k p (h0 p @ calls_of p (take i w)) (Sync Socketpair)))"
    using ok by (auto simp: Let_def)
qed

section \<open>The child's calls up to its barrier\<close>

definition barrier_calls :: "int \<Rightarrow> sync_fds \<Rightarrow> call list" where
  "barrier_calls master_fd fds =
     (if master_fd = -1 then [] else [Ev (Closefd master_fd)]) @
     [Proc Prctl, Proc Setsid, Sync (Write_int (fst fds) 0)]"

lemma keeps_grows: "keeps R m \<Longrightarrow> grows m"
  unfolding keeps_def grows_def by blast

lemma seq_checkedE:
  assumes "io_seq (checked c t) n k h = (r, h')"
  obtains "h' = h @ [c]" "rc (k h c) < 0" | "0 \<le> rc (k h c)" "n k (h @ [c]) = (r, h')"
  using assms by (auto simp: io_simps split: if_splits)

lemma seq_waitE:
  assumes "io_seq (sync_wait f v) n k h = (r, h')"
  obtains "h' = h @ [Sync (Read_int f)]"
  | "0 \<le> rc (k h (Sync (Read_int f)))" "n k (h @ [Sync (Read_int f)]) = (r, h')"
  using assms
  by (auto simp: sync_wait_def io_seq_def io_bind_def sys_def io_lift_def sync_check_def
      split: if_splits sum.splits prod.splits)

lemma child_trace:
  assumes run: "child build junk args c flags master_fd master st e fds k h = (r, h')"
  shows "\<exists>cs. h' = h @ cs \<and>
    (prefix cs (barrier_calls master_fd fds @ [Sync (Read_int (fst fds))]) \<or>
     0 \<le> rc (k (h @ barrier_calls master_fd fds) (Sync (Read_int (fst fds)))) \<and>
     prefix (barrier_calls master_fd fds @ [Sync (Read_int (fst fds))]) cs)"
proof -
  define N where "N = io_seq (sync_close fds)
     (io_seq (open_slave_pty st master)
     (io_seq (setup_user (user_arg args))
     (io_seq (case hostname_arg args of None \<Rightarrow> io_ret ()
              | Some n \<Rightarrow> checked (Proc (Sethostname n)) ''Error setting hostname'')
     (io_seq (setup_mount (b_overlay build) (cf_mounts c) (chroot_arg args) e)
     (io_seq (case chroot_arg args of None \<Rightarrow> io_ret () | Some dest \<Rightarrow> setup_root dest master)
       (child_tail build junk args c flags))))))"
  have "grows (sync_close fds)"
    unfolding sync_close_def sync_close_child_def sync_close_parent_def by (auto intro!: grows_intros)
  moreover have "grows (child_tail build junk args c flags)"
    unfolding child_tail_def
    by (auto intro!: grows_intros keeps_grows [OF config_netif_avoids] keeps_grows [OF setup_capabilities_avoids]
        keeps_grows [OF setup_env_avoids] watched_cases(1) split: option.split)
  ultimately have N: "grows N"
    unfolding N_def
    by (auto intro!: grows_intros keeps_grows [OF open_slave_avoids] keeps_grows [OF setup_user_avoids]
        keeps_grows [OF setup_mount_steps] keeps_grows [OF setup_root_steps] watched_cases(1)
        split: option.split)
  let ?C = "if master_fd = -1 then [] else [Ev (Closefd master_fd)]"
  have run': "io_seq (close_fd master_fd) (io_seq (checked (Proc Prctl) ''prctl(PR_SET_PDEATHSIG)'')
     (io_seq (checked (Proc Setsid) ''setsid()'')
     (io_seq (checked (Sync (Write_int (fst fds) SYNC_START)) ''Error waking process'')
     (io_seq (sync_wait (fst fds) (SYNC_START + 1)) N)))) k h = (r, h')"
    using run
    by (simp add: child_def N_def sync_barrier_parent_def sync_barrier_def sync_wake_def io_seq_def io_bind_assoc)
  then consider "h' = h @ ?C" | "io_seq (checked (Proc Prctl) ''prctl(PR_SET_PDEATHSIG)'')
     (io_seq (checked (Proc Setsid) ''setsid()'')
     (io_seq (checked (Sync (Write_int (fst fds) SYNC_START)) ''Error waking process'')
     (io_seq (sync_wait (fst fds) (SYNC_START + 1)) N))) k (h @ ?C) = (r, h')"
    by (cases "master_fd = -1") (auto simp: close_fd_def elim: seq_checkedE)
  then show ?thesis
  proof cases
    case 1
    then show ?thesis by (auto simp: barrier_calls_def)
  next
    case 2
    then show ?thesis
    proof (elim seq_checkedE seq_waitE)
      let ?P = "barrier_calls master_fd fds @ [Sync (Read_int (fst fds))]"
      assume rest: "N k (((((h @ ?C) @ [Proc Prctl]) @ [Proc Setsid]) @
          [Sync (Write_int (fst fds) SYNC_START)]) @ [Sync (Read_int (fst fds))]) = (r, h')"
        and rd: "0 \<le> rc (k ((((h @ ?C) @ [Proc Prctl]) @ [Proc Setsid]) @
          [Sync (Write_int (fst fds) SYNC_START)]) (Sync (Read_int (fst fds))))"
      from growsE [OF N rest] obtain ds where "h' = h @ ?P @ ds"
        by (auto simp: barrier_calls_def SYNC_START_def)
      with rd show ?thesis
        by (intro exI [of _ "?P @ ds"]) (simp add: barrier_calls_def SYNC_START_def)
    qed (auto simp: barrier_calls_def SYNC_START_def)
  qed
qed

section \<open>The parent's calls up to its wake\<close>

text \<open>
  Setting up the console's owner uses a socket pair of its own; the ends on which
  the setup reads or writes, or that it closes, are those of a pair that it has
  created.
\<close>

definition uses_end :: "int \<Rightarrow> call \<Rightarrow> bool" where
  "uses_end f c =
     (case c of
        Sync (Read_int g) \<Rightarrow> g = f
      | Sync (Write_int g v) \<Rightarrow> g = f
      | Sync (Close_fd g) \<Rightarrow> g = f
      | _ \<Rightarrow> False)"

lemma uses_end_simps [simp]:
  "\<not> uses_end f (Proc p)" "\<not> uses_end f (Chown s u g)" "\<not> uses_end f (Sync Socketpair)"
  "\<not> uses_end f (Sync (Fcntl_cloexec e))"
  "uses_end f (Sync (Read_int e)) \<longleftrightarrow> e = f" "uses_end f (Sync (Write_int e v)) \<longleftrightarrow> e = f"
  "uses_end f (Sync (Close_fd e)) \<longleftrightarrow> e = f"
  by (auto simp: uses_end_def)

text \<open>The two ends of the pair that the call at \<open>j\<close> created.\<close>

definition pair_at :: "kernel \<Rightarrow> call list \<Rightarrow> call list \<Rightarrow> nat \<Rightarrow> int set" where
  "pair_at k h cs j =
     {fst (fd_pair (k (h @ take j cs) (Sync Socketpair))), snd (fd_pair (k (h @ take j cs) (Sync Socketpair)))}"

definition own_uses :: "kernel \<Rightarrow> call list \<Rightarrow> call list \<Rightarrow> bool" where
  "own_uses k h cs \<longleftrightarrow> (\<forall>i < length cs. \<forall>f. uses_end f (cs ! i) \<longrightarrow>
     (\<exists>j < i. cs ! j = Sync Socketpair \<and> f \<in> pair_at k h cs j))"

lemma own_uses_append:
  assumes "own_uses k h cs" and "own_uses k (h @ cs) ds"
  shows "own_uses k h (cs @ ds)"
  unfolding own_uses_def
proof (intro allI impI)
  fix i f assume i: "i < length (cs @ ds)" "uses_end f ((cs @ ds) ! i)"
  show "\<exists>j<i. (cs @ ds) ! j = Sync Socketpair \<and> f \<in> pair_at k h (cs @ ds) j"
  proof (cases "i < length cs")
    case True
    with i assms(1) obtain j where j: "j < i" "cs ! j = Sync Socketpair" "f \<in> pair_at k h cs j"
      unfolding own_uses_def by (metis nth_append)
    with True show ?thesis by (intro exI [of _ j]) (simp add: nth_append pair_at_def)
  next
    case False
    define m where "m = i - length cs"
    with False i have m: "i = length cs + m" "m < length ds" "uses_end f (ds ! m)"
      by (auto simp: nth_append)
    with assms(2) obtain j where "j < m" "ds ! j = Sync Socketpair" "f \<in> pair_at k (h @ cs) ds j"
      unfolding own_uses_def by blast
    with m(1) show ?thesis by (intro exI [of _ "length cs + j"]) (simp add: nth_append pair_at_def)
  qed
qed

interpretation own: trace_law own_uses
  by unfold_locales (simp_all add: own_uses_append, simp add: own_uses_def)

text \<open>A use of an end of the pair \<open>fds\<close>, and of one of another pair.\<close>

definition on_pair :: "sync_fds \<Rightarrow> call \<Rightarrow> bool" where
  "on_pair fds c \<longleftrightarrow> uses_end (fst fds) c \<or> uses_end (snd fds) c"

definition foreign :: "sync_fds \<Rightarrow> call \<Rightarrow> bool" where
  "foreign fds c =
     (case c of
        Sync (Read_int f) \<Rightarrow> f \<notin> {fst fds, snd fds}
      | Sync (Write_int f v) \<Rightarrow> f \<notin> {fst fds, snd fds}
      | Sync (Close_fd f) \<Rightarrow> f \<notin> {fst fds, snd fds}
      | _ \<Rightarrow> False)"

lemma foreignI: "uses_end f c \<Longrightarrow> f \<notin> {fst fds, snd fds} \<Longrightarrow> foreign fds c"
  by (auto simp: uses_end_def foreign_def split: call.splits sync_call.splits)

lemma uses_end_sync: "uses_end f c \<Longrightarrow> is_sync c"
  by (auto simp: uses_end_def is_sync_def split: call.splits)

lemma avoids_mono:
  assumes "keeps (avoids P) m" and "\<And>c. Q c \<Longrightarrow> P c"
  shows "keeps (avoids Q) m"
  using assms unfolding keeps_def avoids_def filter_empty_conv by blast

lemma avoids_sync_own: "keeps (avoids is_sync) m \<Longrightarrow> keeps own_uses m"
  unfolding keeps_def avoids_def filter_empty_conv own_uses_def
  by (meson nth_mem uses_end_sync)

lemma foreign_simps [simp]:
  "\<not> foreign fds (Proc p)" "\<not> foreign fds (Chown s u g)"
  "foreign fds (Sync (Read_int f)) \<longleftrightarrow> f \<notin> {fst fds, snd fds}"
  "foreign fds (Sync (Close_fd f)) \<longleftrightarrow> f \<notin> {fst fds, snd fds}"
  "foreign fds (Sync (Write_int f v)) \<longleftrightarrow> f \<notin> {fst fds, snd fds}"
  by (simp_all add: foreign_def)

lemma foreign_is_step: "foreign fds c \<Longrightarrow> is_step c"
  by (auto simp: foreign_def is_step_def split: call.splits)

lemma foreign_is_sync: "foreign fds c \<Longrightarrow> is_sync c"
  by (auto simp: foreign_def is_sync_def split: call.splits)

lemma own_pair:
  assumes "\<And>fds. keeps (avoids (foreign fds)) (f fds)"
  shows "keeps own_uses (io_bind sync_init f)"
  unfolding keeps_def
proof (intro allI)
  fix k :: kernel and h
  let ?s = "fd_pair (k h (Sync Socketpair))"
  let ?pre = "[Sync Socketpair, Sync (Fcntl_cloexec (fst ?s))]"
  have one: "own_uses k h [Sync Socketpair]" "own_uses k h ?pre"
    by (auto simp: own_uses_def less_Suc_eq)
  obtain ds where ds: "snd (f ?s k (h @ ?pre)) = (h @ ?pre) @ ds" "filter (foreign ?s) ds = []"
    using assms [of ?s] unfolding keeps_def avoids_def by blast
  have "own_uses k h (?pre @ ds)"
    unfolding own_uses_def
  proof (intro allI impI exI [of _ 0] conjI)
    fix i g assume i: "i < length (?pre @ ds)" "uses_end g ((?pre @ ds) ! i)"
    then have "2 \<le> i" by (auto simp: nth_Cons' split: if_splits)
    then obtain n where n: "i = Suc (Suc n)" by (metis add_2_eq_Suc le_Suc_ex)
    with i have "ds ! n \<in> set ds" "uses_end g (ds ! n)" by simp_all
    with ds(2) n show "0 < i" "g \<in> pair_at k h (?pre @ ds) 0"
      using foreignI [of g "ds ! n" ?s] by (auto simp: filter_empty_conv pair_at_def)
  qed simp
  with one ds(1) show "\<exists>cs. snd (io_bind sync_init f k h) = h @ cs \<and> own_uses k h cs"
    by (auto simp: sync_init_def io_bind_def io_seq_def sys_def checked_def sys_fail_if_def io_ret_def
        io_stop_def Let_def)
qed

text \<open>Closing both ends of a pair concerns no other.\<close>

lemma sync_close_own: "keeps (avoids (foreign fds)) (sync_close fds)"
  unfolding keeps_def avoids_def
  by (auto simp: sync_close_def sync_close_child_def sync_close_parent_def io_simps)

lemma console_owner_own: "keeps own_uses (setup_console_owner path us)"
proof -
  have map: "keeps (avoids (foreign fds)) (setup_user_map us' pid)" for fds us' pid
    by (rule avoids_mono [OF outer_user_map [OF outer_cases(2)] foreign_is_sync])
  have user: "keeps (avoids (foreign fds)) (setup_user n)" for fds n
    by (rule avoids_mono [OF setup_user_avoids [OF watched_cases(1)] foreign_is_step])
  have sync: "f \<in> {fst fds, snd fds} \<Longrightarrow> keeps (avoids (foreign fds)) (sync_wait f v)"
    "f \<in> {fst fds, snd fds} \<Longrightarrow> keeps (avoids (foreign fds)) (sync_wake f v)" for fds f v
    unfolding sync_wait_def sync_wake_def by (auto intro!: avoids_intros lift_avoids)
  have helper: "keeps (avoids (foreign fds)) (console_helper fds p g)" for fds p g
    unfolding console_helper_def sync_barrier_parent_def sync_barrier_def
    by (auto intro!: avoids_intros sync sync_close_own user)
  have pair: "keeps own_uses (io_bind sync_init (\<lambda>fds.
      io_bind (sys (Proc Fork)) (\<lambda>pid.
        if rc pid = 0 then console_helper fds p g
        else
          io_seq (sync_wait_child fds SYNC_START)
          (io_seq (setup_user_map (us' pid) (of_int (rc pid)))
          (io_seq (sync_wake_child fds SYNC_DONE)
          (io_seq (sync_close fds)
            (io_bind (sys (Proc (Waitpid (rc pid)))) (\<lambda>_. io_ret ()))))))))" for p g us'
    unfolding sync_wait_child_def sync_wake_child_def
    by (rule own_pair) (auto intro!: avoids_intros sync sync_close_own map helper)
  have one: "own_uses k h [c]" if "\<not> is_sync c" for k h c
    using that uses_end_sync by (auto simp: own_uses_def)
  show ?thesis
    unfolding setup_console_owner_def
    by (auto intro!: own.keeps_intros pair one simp: is_sync_def split: option.split)
qed

lemma parent_setup_own: "keeps own_uses (parent_setup build junk args c flags pid master)"
proof -
  have cg: "keeps (avoids is_sync) (setup_cgroup gs pid)" for gs
    unfolding setup_cgroup_def setup_one_cgroup_def create_cgroup_def attach_cgroup_def
    by (auto intro!: avoids_intros simp: is_sync_def)
  have reg: "keeps (avoids is_sync) (register_machine pid d)" for d
    by (rule register_machine_avoids) (simp add: is_sync_def)
  show ?thesis
    unfolding parent_setup_def
    by (auto intro!: own.keeps_ret own.keeps_seq console_owner_own avoids_sync_own [OF cg] avoids_sync_own [OF reg]
        avoids_sync_own [OF outer_netif [OF outer_cases(2)]] avoids_sync_own [OF outer_user_map [OF outer_cases(2)]]
        split: option.split)
qed

text \<open>
  The calls \<open>ps\<close> of a parent with the setup \<open>S\<close>: it waits; it makes the setup; if
  this returns, it wakes the child before anything else.
\<close>

definition parent_form :: "unit io \<Rightarrow> kernel \<Rightarrow> call list \<Rightarrow> sync_fds \<Rightarrow> call list \<Rightarrow> bool" where
  "parent_form S k h fds ps \<longleftrightarrow> (let R = Sync (Read_int (snd fds)); W = Sync (Write_int (snd fds) 1) in
     ps = [R] \<or> 0 \<le> rc (k h R) \<and> (\<exists>mid. own_uses k (h @ [R]) mid \<and>
       ((\<exists>e. S k (h @ [R]) = (Inl e, h @ R # mid) \<and> ps = R # mid) \<or>
        S k (h @ [R]) = (Inr (), h @ R # mid) \<and> prefix (R # mid @ [W]) ps)))"

lemma parent_trace:
  assumes run: "parent_sync build junk args c flags pid master fds k h = (r, h')"
  shows "\<exists>ps. h' = h @ ps \<and> parent_form (parent_setup build junk args c flags pid master) k h fds ps"
proof -
  let ?R = "Sync (Read_int (snd fds))" and ?W = "Sync (Write_int (snd fds) 1)"
  let ?S = "parent_setup build junk args c flags pid master"
  define N where "N = io_seq ?S (io_seq (sync_wake_child fds SYNC_DONE) (sync_close fds))"
  have cl: "grows (sync_close fds)"
    unfolding sync_close_def sync_close_child_def sync_close_parent_def by (auto intro!: grows_intros)
  from run have "io_seq (sync_wait (snd fds) SYNC_START) N k h = (r, h')"
    by (simp add: parent_sync_def N_def sync_wait_child_def)
  then show ?thesis
  proof (elim seq_waitE)
    assume rd: "0 \<le> rc (k h ?R)" and n: "N k (h @ [?R]) = (r, h')"
    obtain s h1 where s: "?S k (h @ [?R]) = (s, h1)" by fastforce
    from keepsE [OF parent_setup_own s] obtain mid where mid: "h1 = h @ ?R # mid" "own_uses k (h @ [?R]) mid"
      by auto
    show ?thesis
    proof (cases s)
      case (Inl e)
      with n s mid rd show ?thesis
        by (intro exI [of _ "?R # mid"]) (auto simp: N_def io_seq_def io_bind_def parent_form_def Let_def)
    next
      case (Inr u)
      with n s mid(1) have "io_seq (checked ?W ''Error waking process'') (sync_close fds) k (h @ ?R # mid) = (r, h')"
        by (simp add: N_def io_seq_def io_bind_def sync_wake_child_def sync_wake_def SYNC_DONE_def)
      then obtain ds where "h' = h @ (?R # mid @ [?W]) @ ds"
      proof (elim seq_checkedE)
        assume "sync_close fds k ((h @ ?R # mid) @ [?W]) = (r, h')"
        from growsE [OF cl this] that show ?thesis by auto
      qed (use that [of "[]"] in simp)
      with s mid rd Inr show ?thesis
        by (intro exI [of _ "(?R # mid @ [?W]) @ ds"]) (auto simp: parent_form_def Let_def)
    qed
  qed (simp add: parent_form_def Let_def)
qed

section \<open>The order\<close>

text \<open>The position in an interleaving of a call that a process has made after \<open>xs\<close>.\<close>

lemma call_position:
  assumes "prefix (xs @ [y]) (calls_of p w)"
  obtains i where "i < length w" "w ! i = (p, y)" "calls_of p (take i w) = xs"
  using assms calls_of_split [of p w xs y] by (auto simp: prefix_def)

lemma prefix_reaches:
  assumes "prefix zs (xs @ ys)" and "y \<in> set zs" and "y \<notin> set xs"
  shows "\<exists>y' ys'. ys = y' # ys' \<and> prefix (xs @ [y']) zs"
proof -
  from assms have "\<not> prefix zs xs" using set_mono_prefix by blast
  with assms(1) obtain us where us: "zs = xs @ us" "prefix us ys"
    by (metis prefix_append)
  with assms(2,3) show ?thesis by (cases us; cases ys) auto
qed

text \<open>What child_trace and parent_trace say of the calls of the two processes.\<close>

definition child_form :: "kernel \<Rightarrow> call list \<Rightarrow> int \<Rightarrow> sync_fds \<Rightarrow> call list \<Rightarrow> bool" where
  "child_form k h master_fd fds cs \<longleftrightarrow>
     prefix cs (barrier_calls master_fd fds @ [Sync (Read_int (fst fds))]) \<or>
     0 \<le> rc (k (h @ barrier_calls master_fd fds) (Sync (Read_int (fst fds)))) \<and>
     prefix (barrier_calls master_fd fds @ [Sync (Read_int (fst fds))]) cs"

lemma barrier_calls_set:
  "Sync (Read_int f) \<notin> set (barrier_calls m fds)" "Sync (Close_fd f) \<notin> set (barrier_calls m fds)"
  "Sync (Write_int f v) \<in> set (barrier_calls m fds) \<longleftrightarrow> f = fst fds \<and> v = 0"
  by (auto simp: barrier_calls_def)

lemma child_past_barrier:
  assumes form: "child_form k h m fds cs" and pre: "prefix (C @ [x]) cs"
    and x: "x \<notin> set (barrier_calls m fds @ [Sync (Read_int (fst fds))])"
  shows "0 \<le> rc (k (h @ barrier_calls m fds) (Sync (Read_int (fst fds))))"
    and "prefix (barrier_calls m fds @ [Sync (Read_int (fst fds))]) C"
proof -
  let ?P = "barrier_calls m fds @ [Sync (Read_int (fst fds))]"
  have not_in: "\<not> prefix (C @ [x]) ?P" using x set_mono_prefix by fastforce
  with form pre have f: "0 \<le> rc (k (h @ barrier_calls m fds) (Sync (Read_int (fst fds))))" "prefix ?P cs"
    unfolding child_form_def using prefix_order.trans by blast+
  have "prefix ?P (C @ [x])" using prefix_same_cases [OF f(2) pre] not_in by blast
  with not_in have "prefix ?P C" by (auto simp: prefix_snoc)
  with f(1) show "0 \<le> rc (k (h @ barrier_calls m fds) (Sync (Read_int (fst fds))))" "prefix ?P C" by blast+
qed

lemma child_wake_after_setsid:
  assumes form: "child_form k h m fds cs" and pre: "prefix C cs" and "Sync (Write_int (fst fds) v) \<in> set C"
  shows "{Proc Prctl, Proc Setsid} \<subseteq> set C"
proof -
  define X where "X = (if m = -1 then [] else [Ev (Closefd m)]) @ [Proc Prctl, Proc Setsid]"
  let ?fin = "[Sync (Write_int (fst fds) 0), Sync (Read_int (fst fds))]"
  have "barrier_calls m fds @ [Sync (Read_int (fst fds))] = X @ ?fin" by (simp add: barrier_calls_def X_def)
  with form consider "prefix cs (X @ ?fin)" | "prefix (X @ ?fin) cs" by (auto simp: child_form_def)
  then obtain ys where "prefix C (X @ ys)"
  proof cases
    case 1
    with pre that show ?thesis using prefix_order.trans by blast
  next
    case 2
    then obtain us where "cs = X @ (?fin @ us)" by (auto simp: prefix_def)
    with pre that show ?thesis by blast
  qed
  moreover have "Sync (Write_int (fst fds) v) \<notin> set X" by (simp add: X_def)
  ultimately obtain y where "prefix (X @ [y]) C" using prefix_reaches assms(3) by metis
  then have "set X \<subseteq> set C" using set_mono_prefix by fastforce
  then show ?thesis by (simp add: X_def)
qed

text \<open>The setup does not write to the pair of main.\<close>

lemma setup_writes_elsewhere:
  assumes run: "socket_run k h0 fds w" and own: "own_uses (k p) (h0 p @ [R]) mid"
    and pre: "prefix (R # take n mid) (calls_of p w)" and f: "f \<in> {fst fds, snd fds}"
  shows "Sync (Write_int f v) \<notin> set (take n mid)"
proof
  assume "Sync (Write_int f v) \<in> set (take n mid)"
  then obtain i where i: "i < n" "i < length mid" "mid ! i = Sync (Write_int f v)"
    by (auto simp: in_set_conv_nth)
  with own obtain j where j: "j < i" "mid ! j = Sync Socketpair" "f \<in> pair_at (k p) (h0 p @ [R]) mid j"
    unfolding own_uses_def by (metis uses_end_simps(6))
  have "take (Suc j) mid = take j mid @ [Sync Socketpair]" using j i(2) by (simp add: take_Suc_conv_app_nth)
  moreover have "prefix (take (Suc j) mid) (take n mid)"
    using j(1) i(1) by (metis Suc_leI less_trans take_is_prefix take_take min.absorb1 less_or_eq_imp_le)
  ultimately have "prefix ((R # take j mid) @ [Sync Socketpair]) (calls_of p w)"
    using pre by (metis Cons_prefix_Cons append_Cons prefix_order.trans)
  then obtain q where "q < length w" "w ! q = (p, Sync Socketpair)" "calls_of p (take q w) = R # take j mid"
    by (rule call_position)
  with socket_runD(3) [OF run this(1,2) f] j(3) show False by (auto simp: pair_at_def)
qed

lemma parent_past_wait:
  assumes form: "parent_form S k h fds ps" and pre: "prefix (Z @ [x]) ps" and x: "x \<noteq> Sync (Read_int (snd fds))"
  shows "0 \<le> rc (k h (Sync (Read_int (snd fds))))" and "prefix [Sync (Read_int (snd fds))] Z"
proof -
  from form obtain us where us: "ps = Sync (Read_int (snd fds)) # us"
    by (auto simp: parent_form_def Let_def prefix_def)
  with pre x obtain Z' where Z: "Z = Sync (Read_int (snd fds)) # Z'" by (cases Z) auto
  then show "prefix [Sync (Read_int (snd fds))] Z" by simp
  have "ps \<noteq> [Sync (Read_int (snd fds))]" using pre Z by auto
  with form show "0 \<le> rc (k h (Sync (Read_int (snd fds))))" by (auto simp: parent_form_def Let_def)
qed

text \<open>The parent's wake comes after the whole setup.\<close>

lemma wake_after_setup:
  assumes form: "parent_form S (k p) (h0 p) fds ps" and run: "socket_run k h0 fds w"
    and pre: "prefix (calls_of p (take j w)) ps"
    and wake: "Sync (Write_int (snd fds) v) \<in> set (calls_of p (take j w))"
  shows "\<exists>mid. S (k p) (h0 p @ [Sync (Read_int (snd fds))]) = (Inr (), h0 p @ Sync (Read_int (snd fds)) # mid) \<and>
    prefix (Sync (Read_int (snd fds)) # mid @ [Sync (Write_int (snd fds) 1)]) (calls_of p (take j w))"
proof -
  let ?R = "Sync (Read_int (snd fds))" and ?W = "Sync (Write_int (snd fds) 1)" and ?Z = "calls_of p (take j w)"
  have "ps \<noteq> [?R]" using set_mono_prefix [OF pre] wake by auto
  with form obtain mid where own: "own_uses (k p) (h0 p @ [?R]) mid"
    and cases: "ps = ?R # mid \<or>
      S (k p) (h0 p @ [?R]) = (Inr (), h0 p @ ?R # mid) \<and> prefix (?R # mid @ [?W]) ps"
    by (auto simp: parent_form_def Let_def)
  have not: "Sync (Write_int (snd fds) v) \<notin> set (?R # take n mid)" if "prefix (?R # take n mid) ?Z" for n
  proof -
    have "prefix (?R # take n mid) (calls_of p w)"
      using that calls_of_prefix prefix_order.trans by blast
    then show ?thesis using setup_writes_elsewhere [OF run own] by auto
  qed
  have "\<not> prefix ?Z (?R # mid)"
  proof
    assume "prefix ?Z (?R # mid)"
    with wake obtain us where "?Z = ?R # us" "prefix us mid" by (cases ?Z) auto
    then have "?Z = ?R # take (length us) mid" by (auto simp: prefix_def)
    with not [of "length us"] wake show False by simp
  qed
  with cases pre have *: "S (k p) (h0 p @ [?R]) = (Inr (), h0 p @ ?R # mid)" "prefix (?R # mid @ [?W]) ps"
    by auto
  then obtain us where "prefix ?Z ((?R # mid) @ ?W # us)" using pre by (auto simp: prefix_def)
  moreover have "Sync (Write_int (snd fds) v) \<notin> set (?R # mid)"
  proof -
    have "prefix (?R # mid) ?Z"
      using \<open>\<not> prefix ?Z (?R # mid)\<close> \<open>prefix ?Z ((?R # mid) @ ?W # us)\<close> by (metis prefix_same_cases prefixI)
    with not [of "length mid"] show ?thesis by simp
  qed
  ultimately have "prefix (?R # mid @ [?W]) ?Z"
    using prefix_reaches [OF _ wake] by fastforce
  with *(1) show ?thesis by blast
qed

text \<open>
  C2: The protocol orders the two processes of main: in every interleaving of the
  calls of \<open>child\<close> and \<open>parent_sync\<close>, whatever the kernel answers and however far
  the two have come, every call of the child after its barrier (setting its
  user, mounting, the exec) comes after the parent's whole setup, which has
  returned, and every call of the parent's setup comes after the child's prctl and
  setsid.
\<close>

theorem processes_in_order:
  assumes child: "child build junk args c flags master_fd master st e fds kc hc = (r, hc @ cs)"
    and parent: "parent_sync build junk args c flags pid master fds kp hp = (r', hp @ ps)"
    and calls: "prefix (calls_of Child w) cs" "prefix (calls_of Parent w) ps"
    and run: "socket_run (case_proc kp kc) (case_proc hp hc) fds w" and "fst fds \<noteq> snd fds"
    and j: "j < length w"
  shows "(w ! j = (Child, x) \<and> x \<notin> set (barrier_calls master_fd fds @ [Sync (Read_int (fst fds))]) \<longrightarrow>
      (\<exists>mid. parent_setup build junk args c flags pid master kp (hp @ [Sync (Read_int (snd fds))]) =
          (Inr (), hp @ Sync (Read_int (snd fds)) # mid) \<and>
        prefix (Sync (Read_int (snd fds)) # mid) (calls_of Parent (take j w)))) \<and>
    (w ! j = (Parent, x) \<and> x \<noteq> Sync (Read_int (snd fds)) \<longrightarrow>
      {Proc Prctl, Proc Setsid} \<subseteq> set (calls_of Child (take j w)))"
proof -
  let ?A = "Sync (Read_int (fst fds))" and ?R = "Sync (Read_int (snd fds))"
  have cf: "child_form kc hc master_fd fds cs"
    using child_trace [OF child] by (simp add: child_form_def)
  have pf: "parent_form (parent_setup build junk args c flags pid master) kp hp fds ps"
    using parent_trace [OF parent] by simp
  have cpre: "prefix (calls_of Child (take i w)) cs" and ppre: "prefix (calls_of Parent (take i w)) ps" for i
    using calls calls_of_prefix prefix_order.trans by blast+
  show ?thesis
  proof (intro conjI impI; elim conjE)
    assume x: "w ! j = (Child, x)" "x \<notin> set (barrier_calls master_fd fds @ [?A])"
    have "prefix (calls_of Child (take j w) @ [x]) cs"
      using cpre [of "Suc j"] calls_of_at [OF j x(1)] by simp
    note past = child_past_barrier [OF cf this x(2)]
    from past(2) obtain i where i: "i < length (take j w)" "take j w ! i = (Child, ?A)"
      "calls_of Child (take i (take j w)) = barrier_calls master_fd fds"
      by (rule call_position)
    then have ij: "i < j" "i < length w" "w ! i = (Child, ?A)" "calls_of Child (take i w) = barrier_calls master_fd fds"
      by (auto simp: min_absorb1)
    have ok: "reads_ok (take i w) Child (kc (hc @ barrier_calls master_fd fds) ?A) (snd fds)"
      using socket_runD(1) [OF run ij(2,3)] ij(4) by simp
    have no: "(Child, Sync (Close_fd (snd fds))) \<notin> set (take i w)"
      "(Child, Sync (Write_int (snd fds) v)) \<notin> set (take i w)" for v
      using assms(6) barrier_calls_set by (auto simp: set_calls_of [symmetric] ij(4))
    from reads_okD [OF ok past(1) no(1)] obtain q v where "(q, Sync (Write_int (snd fds) v)) \<in> set (take i w)" .
    with no(2) have "Sync (Write_int (snd fds) v) \<in> set (calls_of Parent (take i w))"
      by (cases q) (auto simp: set_calls_of)
    from wake_after_setup [where p = Parent, OF _ run ppre this] pf obtain mid where
      "parent_setup build junk args c flags pid master kp (hp @ [?R]) = (Inr (), hp @ ?R # mid)"
      "prefix (?R # mid @ [Sync (Write_int (snd fds) 1)]) (calls_of Parent (take i w))" by auto
    moreover have "prefix (calls_of Parent (take i w)) (calls_of Parent (take j w))"
      using ij(1) by (intro calls_of_mono) simp
    ultimately show "\<exists>mid. parent_setup build junk args c flags pid master kp (hp @ [?R]) = (Inr (), hp @ ?R # mid) \<and>
        prefix (?R # mid) (calls_of Parent (take j w))"
      by (metis append_Cons append_prefixD prefix_order.trans)
  next
    assume x: "w ! j = (Parent, x)" "x \<noteq> ?R"
    have "prefix (calls_of Parent (take j w) @ [x]) ps"
      using ppre [of "Suc j"] calls_of_at [OF j x(1)] by simp
    note past = parent_past_wait [OF pf this x(2)]
    then have "prefix ([] @ [?R]) (calls_of Parent (take j w))" by simp
    then obtain i where i: "i < length (take j w)" "take j w ! i = (Parent, ?R)" "calls_of Parent (take i (take j w)) = []"
      by (rule call_position)
    then have ij: "i < j" "i < length w" "w ! i = (Parent, ?R)" "calls_of Parent (take i w) = []"
      by (auto simp: min_absorb1)
    have ok: "reads_ok (take i w) Parent (kp hp ?R) (fst fds)"
      using socket_runD(2) [OF run ij(2,3)] ij(4) by simp
    have no: "(Parent, y) \<notin> set (take i w)" for y by (simp add: set_calls_of [symmetric] ij(4))
    from reads_okD [OF ok past(1) no] obtain q v where "(q, Sync (Write_int (fst fds) v)) \<in> set (take i w)" .
    with no have "Sync (Write_int (fst fds) v) \<in> set (calls_of Child (take i w))"
      by (cases q) (auto simp: set_calls_of)
    from child_wake_after_setsid [OF cf cpre this] show "{Proc Prctl, Proc Setsid} \<subseteq> set (calls_of Child (take j w))"
      using set_mono_prefix [OF calls_of_mono [of i j Child w]] ij(1) by (meson less_imp_le subset_trans)
  qed
qed

text \<open>
  A run of both to the end, on kernels that deliver what was written: the child
  up to its wake, the parent, the rest of the child.
\<close>

definition paired :: kernel where
  "paired h c =
     (case c of
        Sync (Read_int f) \<Rightarrow> ok\<lparr>rc := 4, num := (if f = 3 then 1 else 0)\<rparr>
      | _ \<Rightarrow> calm h c)"

definition child_run :: "call list" where
  "child_run = trace (child plain_build (\<lambda>_. []) no_args (init_conf plain_build) 0 5 ''/dev/pts/7''
     tty_init None (3, 4)) paired"

definition parent_run :: "call list" where
  "parent_run = trace (parent_sync plain_build (\<lambda>_. []) no_args (init_conf plain_build) 0 42
     ''/dev/pts/7'' (3, 4)) paired"

definition both_run :: "(proc \<times> call) list" where
  "both_run = map (Pair Child) (take 4 child_run) @ map (Pair Parent) parent_run @
     map (Pair Child) (drop 4 child_run)"

lemma both_run_ok: "socket_run (case_proc paired paired) (case_proc [] []) (3, 4) both_run"
  by code_simp

lemma both_run_exec: "last both_run = (Child, exec_call no_args)" "2 \<le> length both_run"
  by code_simp+

lemma both_run_calls: "calls_of Child both_run = child_run" "calls_of Parent both_run = parent_run"
proof -
  have "calls_of p (map (Pair q) xs) = (if p = q then xs else [])" for p q xs
    by (induction xs) auto
  then show "calls_of Child both_run = child_run" "calls_of Parent both_run = parent_run"
    by (simp_all add: both_run_def)
qed

theorem processes_in_order_witness:
  "\<exists>mid. parent_setup plain_build (\<lambda>_. []) no_args (init_conf plain_build) 0 42 ''/dev/pts/7'' paired [Sync (Read_int 4)] =
       (Inr (), Sync (Read_int 4) # mid) \<and>
     prefix (Sync (Read_int 4) # mid) (calls_of Parent (butlast both_run))"
proof -
  let ?c = "child plain_build (\<lambda>_. []) no_args (init_conf plain_build) 0 5 ''/dev/pts/7'' tty_init None (3, 4)"
  let ?p = "parent_sync plain_build (\<lambda>_. []) no_args (init_conf plain_build) 0 42 ''/dev/pts/7'' (3, 4)"
  have runs: "?c paired [] = (fst (?c paired []), [] @ child_run)" "?p paired [] = (fst (?p paired []), [] @ parent_run)"
    by (simp_all add: child_run_def parent_run_def trace_def)
  have j: "length both_run - 1 < length both_run" using both_run_exec(2) by simp
  have last: "both_run ! (length both_run - 1) = (Child, exec_call no_args)"
    using both_run_exec by (metis last_conv_nth list.size(3) not_numeral_le_zero)
  have "exec_call no_args \<notin> set (barrier_calls 5 (3, 4) @ [Sync (Read_int (fst (3, 4)))])"
    by (simp add: exec_call_def no_args_def barrier_calls_def)
  with processes_in_order [OF runs _ _ both_run_ok _ j, of "exec_call no_args"] last
  show ?thesis by (simp add: both_run_calls butlast_conv_take)
qed

text \<open>
  C20: The parent follows its part: whatever the kernel answers, if a new socket
  pair has descriptors of its own, the calls of a parent_sync that returns are a
  wait, then those of a parent_setup that has returned, then one wake and the
  closing of the ends; and on the socket pair of main these calls, in this order,
  are the only ones, so the setup neither wakes the child nor closes an end.
\<close>

theorem parent_follows_program:
  assumes run: "parent_sync build junk args c flags pid master fds k [] = (Inr fds', h')"
    and fresh: "\<And>h. {fst (fd_pair (k h (Sync Socketpair))), snd (fd_pair (k h (Sync Socketpair)))} \<inter>
      {fst fds, snd fds} = {}"
  shows "filter (on_pair fds) h' = concat (map (op_calls fds (exec_call args)) (program Parent)) \<and>
    (\<exists>mid. parent_setup build junk args c flags pid master k [Sync (Read_int (snd fds))] =
        (Inr (), Sync (Read_int (snd fds)) # mid) \<and>
      h' = Sync (Read_int (snd fds)) # mid @
        concat (map (op_calls fds (exec_call args)) (drop 2 (program Parent))))"
proof -
  obtain mid where s: "parent_setup build junk args c flags pid master k [Sync (Read_int (snd fds))] =
      (Inr (), Sync (Read_int (snd fds)) # mid)"
    and h': "h' = Sync (Read_int (snd fds)) # mid @ Sync (Write_int (snd fds) 1) # close_calls fds"
    using parent_sync_run [OF run] by blast
  have own: "own_uses k [Sync (Read_int (snd fds))] mid"
    using keepsE [OF parent_setup_own s] by auto
  have "filter (on_pair fds) mid = []"
    unfolding filter_empty_conv
  proof
    fix x assume "x \<in> set mid"
    then obtain i where i: "i < length mid" "mid ! i = x" by (auto simp: in_set_conv_nth)
    show "\<not> on_pair fds x"
    proof
      assume "on_pair fds x"
      then obtain f where f: "uses_end f (mid ! i)" "f \<in> {fst fds, snd fds}"
        using i(2) by (auto simp: on_pair_def)
      with own i(1) obtain j where "f \<in> pair_at k [Sync (Read_int (snd fds))] mid j"
        unfolding own_uses_def by blast
      with f(2) fresh [of "[Sync (Read_int (snd fds))] @ take j mid"] show False
        by (auto simp: pair_at_def)
    qed
  qed
  moreover have "filter (on_pair fds) (close_calls fds) = close_calls fds"
    by (simp add: close_calls_def on_pair_def)
  ultimately show ?thesis
    using s h' by (simp add: program_simps on_pair_def)
qed

theorem parent_follows_program_witness:
  "filter (on_pair (5, 6)) (trace (parent_sync plain_build (\<lambda>_. []) no_args (init_conf plain_build) 0 42
       ''/dev/pts/7'' (5, 6)) calm) =
     [Sync (Read_int 6), Sync (Write_int 6 1), Sync (Close_fd 5), Sync (Close_fd 6)]"
proof -
  let ?m = "parent_sync plain_build (\<lambda>_. []) no_args (init_conf plain_build) 0 42
       ''/dev/pts/7'' (5, 6)"
  obtain u h' where run: "?m calm [] = (Inr u, h')"
    by (simp add: parent_sync_def parent_setup_def sync_wait_child_def sync_wake_child_def sync_wait_def
        sync_wake_def sync_check_def sync_close_def sync_close_child_def sync_close_parent_def
        setup_cgroup_def setup_netif_def nl_open_def no_args_def init_conf_def plain_build_def io_simps
        calm_def)
  have "{fst (fd_pair (calm h (Sync Socketpair))), snd (fd_pair (calm h (Sync Socketpair)))} \<inter>
      {fst (5, 6), snd (5, 6)} = {}" for h
    by (simp add: calm_def)
  from parent_follows_program [OF run this] run show ?thesis
    by (simp add: trace_def program_simps close_calls_def)
qed

end
