(* ===== verification/Messages.thy ===== *)
theory Messages
  imports Clib
begin

text \<open>
  printf.c: the messages of pflask.  A message is a format with arguments; do_log
  puts a prefix before the format and a newline behind it, in a buffer of
  LINE_MAX bytes, and prints the result to the system log or to standard error.

  The formats of the failures in the other theories are those that are passed to
  fail_printf and sysf_printf; here is what becomes of them.
\<close>

section \<open>Formatting\<close>

text \<open>
  The conversions that the messages use: a string (NULL is printed as the GNU C
  library does), an int, an unsigned int, a character.  A conversion that is not
  of these, or has no argument of its type, is undefined; so is a format that
  ends in a percent sign.  More arguments than conversions are ignored, on which
  the macros fail_if and sys_fail_if of util.h rely.
\<close>

datatype farg = Str "cstring option" | Int_arg int | Uint u32 | Char_arg char

definition conversion :: "char \<Rightarrow> farg \<Rightarrow> cstring option" where
  "conversion c a =
     (case a of
        Str s \<Rightarrow> if c = CHR ''s'' then Some (case s of None \<Rightarrow> ''(null)'' | Some s \<Rightarrow> s) else None
      | Int_arg i \<Rightarrow> if c = CHR ''d'' then Some (show_int i) else None
      | Uint u \<Rightarrow> if c = CHR ''u'' then Some (show_u32 u) else None
      | Char_arg x \<Rightarrow> if c = CHR ''c'' then Some [x] else None)"

fun vformat :: "cstring \<Rightarrow> farg list \<Rightarrow> cstring option" where
  "vformat [] as = Some []"
| "vformat (c # cs) as =
     (if c \<noteq> CHR ''%'' then map_option ((#) c) (vformat cs as)
      else case cs of
             [] \<Rightarrow> None
           | d # ds \<Rightarrow>
               if d = CHR ''%'' then map_option ((#) d) (vformat ds as)
               else (case as of
                       [] \<Rightarrow> None
                     | a # as' \<Rightarrow>
                         (case conversion d a of
                            None \<Rightarrow> None
                          | Some s \<Rightarrow> map_option ((@) s) (vformat ds as'))))"

text \<open>snprintf cuts off what does not fit, and keeps a byte for the NUL.\<close>

definition snprintf :: "nat \<Rightarrow> cstring \<Rightarrow> cstring" where
  "snprintf n s = take (n - 1) s"

section \<open>The functions\<close>

definition ESC :: char where "ESC = CHR 0x1B"

definition COLOR_GREEN :: cstring where "COLOR_GREEN = ESC # ''[1;32m''"
definition COLOR_YELLOW :: cstring where "COLOR_YELLOW = ESC # ''[1;33m''"
definition COLOR_RED :: cstring where "COLOR_RED = ESC # ''[1;31m''"
definition COLOR_OFF :: cstring where "COLOR_OFF = ESC # ''[0m''"
definition LINE_CLEAR :: cstring where "LINE_CLEAR = ESC # ''[0K''"
definition CURSOR_SHOW :: cstring where "CURSOR_SHOW = ESC # ''[?25h''"

definition LINE_MAX :: nat where "LINE_MAX = 2048"

text \<open>Where a message goes, and its text.\<close>

datatype printed = Syslog cstring | Stderr cstring

text \<open>
  do_log.  \<open>use_syslog\<close> is the variable that --detach sets, \<open>tty\<close> the answer of
  isatty for standard error; the result None is undefined behaviour of vfprintf.
\<close>

definition log_format :: "int \<Rightarrow> bool \<Rightarrow> cstring \<Rightarrow> cstring \<Rightarrow> bool \<Rightarrow> cstring" where
  "log_format use_syslog tty pre fmt cursor =
     (if use_syslog \<noteq> 0 \<or> \<not> tty then fmt @ [CHR 0x0A]
      else CHR 0x0D # LINE_CLEAR @ (if cursor then CURSOR_SHOW else []) @ pre @ fmt @ [CHR 0x0A])"

definition do_log :: "int \<Rightarrow> bool \<Rightarrow> cstring \<Rightarrow> cstring \<Rightarrow> farg list \<Rightarrow> bool \<Rightarrow> printed option" where
  "do_log use_syslog tty pre fmt args cursor =
     (let format = snprintf LINE_MAX (log_format use_syslog tty pre fmt cursor)
      in map_option (if use_syslog = 1 then Syslog else Stderr) (vformat format args))"

text \<open>The marks are a check mark, an inverted exclamation mark and a cross, in UTF-8.\<close>

definition ok_prefix :: cstring where
  "ok_prefix = ''['' @ COLOR_GREEN @ [CHR 0xE2, CHR 0x9C, CHR 0x94] @ COLOR_OFF @ ''] ''"

definition debug_prefix :: cstring where
  "debug_prefix = ''['' @ COLOR_YELLOW @ [CHR 0xC2, CHR 0xA1] @ COLOR_OFF @ ''] ''"

definition err_prefix :: cstring where
  "err_prefix = ''['' @ COLOR_RED @ [CHR 0xE2, CHR 0x9C, CHR 0x98] @ COLOR_OFF @ ''] ''"

definition ok_printf :: "int \<Rightarrow> bool \<Rightarrow> cstring \<Rightarrow> farg list \<Rightarrow> printed option" where
  "ok_printf use_syslog tty fmt args = do_log use_syslog tty ok_prefix fmt args False"

definition debug_printf :: "int \<Rightarrow> bool \<Rightarrow> cstring \<Rightarrow> farg list \<Rightarrow> printed option" where
  "debug_printf use_syslog tty fmt args = do_log use_syslog tty debug_prefix fmt args False"

definition err_printf :: "int \<Rightarrow> bool \<Rightarrow> cstring \<Rightarrow> farg list \<Rightarrow> printed option" where
  "err_printf use_syslog tty fmt args = do_log use_syslog tty err_prefix fmt args False"

text \<open>The two that end the process; what is printed before \<open>_exit(EXIT_FAILURE)\<close>.\<close>

definition fail_printf :: "int \<Rightarrow> bool \<Rightarrow> cstring \<Rightarrow> farg list \<Rightarrow> printed option" where
  "fail_printf use_syslog tty fmt args = do_log use_syslog tty err_prefix fmt args True"

text \<open>\<open>err\<close> is strerror(errno); asprintf makes the format of the message from it.\<close>

definition sysf_printf :: "int \<Rightarrow> bool \<Rightarrow> cstring \<Rightarrow> cstring \<Rightarrow> farg list \<Rightarrow> printed option" where
  "sysf_printf use_syslog tty err fmt args =
     (let format = fmt @ '': '' @ err in do_log use_syslog tty err_prefix format args True)"

text \<open>
  What main prints when the container has ended, from the siginfo of waitid;
  CLD_EXITED is 1 and CLD_KILLED is 2.
\<close>

definition quoted :: "cstring \<Rightarrow> cstring" where
  "quoted s = CHR 0x27 # s @ [CHR 0x27]"

definition exit_message :: "int \<Rightarrow> bool \<Rightarrow> int \<Rightarrow> int \<Rightarrow> printed option" where
  "exit_message use_syslog tty si_code si_status =
     (if si_code = 1 then
        (if si_status \<noteq> 0
         then err_printf use_syslog tty (''Child failed with code '' @ quoted ''%d'') [Int_arg si_status]
         else ok_printf use_syslog tty ''Child exited'' [])
      else if si_code = 2
      then err_printf use_syslog tty (''Child was terminated by signal '' @ quoted ''%d'') [Int_arg si_status]
      else err_printf use_syslog tty ''Child failed'' [])"

section \<open>What is printed\<close>

text \<open>Text without a percent sign is printed as it is, around whatever is formatted.\<close>

lemma vformat_plain: "CHR ''%'' \<notin> set p \<Longrightarrow> vformat (p @ f) as = map_option ((@) p) (vformat f as)"
  by (induction p) (cases "vformat f as"; auto)+

lemma vformat_append:
  "vformat f as = Some s \<Longrightarrow> CHR ''%'' \<notin> set p \<Longrightarrow> vformat (f @ p) as = Some (s @ p)"
proof (induction f as arbitrary: s rule: vformat.induct)
  case (1 as)
  then show ?case using vformat_plain [of p "[]" as] by simp
next
  case (2 c cs as)
  then show ?case by (auto split: if_splits list.splits option.splits)
qed

lemma prefix_simps [simp]:
  "CHR ''%'' \<notin> set ok_prefix" "CHR ''%'' \<notin> set debug_prefix" "CHR ''%'' \<notin> set err_prefix"
  "CHR ''%'' \<notin> set LINE_CLEAR" "CHR ''%'' \<notin> set CURSOR_SHOW"
  "length ok_prefix = 17" "length debug_prefix = 16" "length err_prefix = 17"
  "length LINE_CLEAR = 4" "length CURSOR_SHOW = 6"
  by (simp_all add: ok_prefix_def debug_prefix_def err_prefix_def LINE_CLEAR_def CURSOR_SHOW_def
      COLOR_GREEN_def COLOR_YELLOW_def COLOR_RED_def COLOR_OFF_def ESC_def)

lemma do_log_run:
  assumes "vformat fmt args = Some s" and "length fmt \<le> 2018"
    and "pre \<in> {ok_prefix, debug_prefix, err_prefix}"
  shows "do_log use_syslog tty pre fmt args cursor = Some
    ((if use_syslog = 1 then Syslog else Stderr)
      ((if use_syslog \<noteq> 0 \<or> \<not> tty then []
        else CHR 0x0D # LINE_CLEAR @ (if cursor then CURSOR_SHOW else []) @ pre) @ s @ [CHR 0x0A]))"
proof -
  have pre: "CHR ''%'' \<notin> set pre" "length pre \<le> 17" using assms(3) by auto
  have "vformat (fmt @ [CHR 0x0A]) args = Some (s @ [CHR 0x0A])"
    using assms(1) by (rule vformat_append) simp
  then show ?thesis
    using assms(2) pre vformat_plain [of "CHR 0x0D # LINE_CLEAR @ CURSOR_SHOW @ pre" "fmt @ [CHR 0x0A]" args]
      vformat_plain [of "CHR 0x0D # LINE_CLEAR @ pre" "fmt @ [CHR 0x0A]" args]
    by (simp add: do_log_def log_format_def snprintf_def LINE_MAX_def Let_def)
qed

text \<open>
  A failed system call is reported with the format's text, a colon and the
  error's text.
\<close>

lemma sysf_printf_prints:
  assumes "vformat fmt args = Some s" and "CHR ''%'' \<notin> set err" and "length fmt + length err \<le> 2016"
  shows "sysf_printf use_syslog tty err fmt args = Some
    ((if use_syslog = 1 then Syslog else Stderr)
      ((if use_syslog \<noteq> 0 \<or> \<not> tty then [] else CHR 0x0D # LINE_CLEAR @ CURSOR_SHOW @ err_prefix) @
        (s @ '': '' @ err) @ [CHR 0x0A]))"
proof -
  have "vformat (fmt @ '': '' @ err) args = Some (s @ '': '' @ err)"
    using vformat_append [OF assms(1), of "'': '' @ err"] assms(2) by simp
  from do_log_run [OF this, of err_prefix use_syslog tty True] assms(3) show ?thesis
    by (simp add: sysf_printf_def Let_def)
qed

text \<open>main reports a container's end for every status of waitid.\<close>

lemma exit_message_defined: "exit_message use_syslog tty si_code si_status \<noteq> None"
proof -
  have "vformat (p @ quoted ''%d'') [Int_arg i] = Some (p @ quoted (show_int i))" if "CHR ''%'' \<notin> set p" for p i
    using vformat_plain [OF that] by (simp add: quoted_def conversion_def)
  from do_log_run [OF this, where pre = err_prefix]
  have number: "do_log use_syslog tty err_prefix (p @ quoted ''%d'') [Int_arg i] False \<noteq> None"
    if "CHR ''%'' \<notin> set p" "length p \<le> 100" for p i
    using that by (simp add: quoted_def)
  have "do_log use_syslog tty err_prefix (''Child failed with code '' @ quoted ''%d'') [Int_arg si_status] False \<noteq> None"
    "do_log use_syslog tty err_prefix (''Child was terminated by signal '' @ quoted ''%d'') [Int_arg si_status] False \<noteq> None"
    by (rule number; simp)+
  moreover have "do_log use_syslog tty ok_prefix ''Child exited'' [] False \<noteq> None"
    "do_log use_syslog tty err_prefix ''Child failed'' [] False \<noteq> None"
    by (simp_all add: do_log_run)
  ultimately show ?thesis
    unfolding exit_message_def err_printf_def ok_printf_def by presburger
qed

section \<open>Properties\<close>

text \<open>
  C35: A message is printed whole.  With a prefix without conversions, and a format
  of at most 2018 characters whose arguments fit, what is printed is the
  formatted text with a newline; on a terminal, unless the messages go to the system log,
  it is preceded by the return to the start of the line, the code that clears it,
  the one that shows the cursor (when the process ends), and the mark.
\<close>

theorem do_log_prints:
  assumes "vformat fmt args = Some s" and "length fmt \<le> 2018"
    and "pre \<in> {ok_prefix, debug_prefix, err_prefix}"
  shows "do_log use_syslog tty pre fmt args cursor = Some
    ((if use_syslog = 1 then Syslog else Stderr)
      ((if use_syslog \<noteq> 0 \<or> \<not> tty then []
        else CHR 0x0D # LINE_CLEAR @ (if cursor then CURSOR_SHOW else []) @ pre) @ s @ [CHR 0x0A]))"
  using assms by (rule do_log_run)

theorem do_log_prints_witness:
  "do_log 0 True err_prefix ''stat(%s): gone'' [Str (Some ''/a'')] True =
     Some (Stderr (CHR 0x0D # LINE_CLEAR @ CURSOR_SHOW @ err_prefix @ ''stat(/a): gone'' @ [CHR 0x0A]))"
  using do_log_prints [of "''stat(%s): gone''" "[Str (Some ''/a'')]" "''stat(/a): gone''" err_prefix 0 True True]
  by (simp add: conversion_def)

end
