(* ===== verification/Alloc.thy ===== *)
theory Alloc
  imports Prelude
begin
text \<open>
  Heap memory for the code that calls malloc and free: a map from addresses to
  the blocks that are allocated, commands that may fail (an access to a block
  that is not allocated, or freeing one), and a program logic for them.

  Assertions describe a part of the heap exactly, so that nothing may be left
  over: they form a commutative monoid, with the empty heap as one and the
  separating conjunction as multiplication.
\<close>

section \<open>Heaps and commands\<close>

text \<open>
  A block holds characters, pointers, or a node of a list with two pointers and
  the next node.  Address 0 is NULL.  Addresses are not used again after free, so
  that every use of a freed block fails.
\<close>

type_synonym ptr = nat

datatype block = Chars cstring | Ptrs "ptr list" | Node ptr ptr ptr

record mem =
  blocks :: "ptr \<rightharpoonup> block"
  brk :: ptr

definition no_mem :: mem where
  "no_mem = \<lparr>blocks = Map.empty, brk = 1\<rparr>"

type_synonym 'a cmd = "mem \<Rightarrow> ('a \<times> mem) option"

definition m_ret :: "'a \<Rightarrow> 'a cmd" where
  "m_ret a m = Some (a, m)"

definition m_bind :: "'a cmd \<Rightarrow> ('a \<Rightarrow> 'b cmd) \<Rightarrow> 'b cmd" where
  "m_bind c f m = (case c m of None \<Rightarrow> None | Some (a, m') \<Rightarrow> f a m')"

definition m_seq :: "'a cmd \<Rightarrow> 'b cmd \<Rightarrow> 'b cmd" where
  "m_seq c d = m_bind c (\<lambda>_. d)"

definition m_crash :: "'a cmd" where
  "m_crash m = None"

definition m_alloc :: "block \<Rightarrow> ptr cmd" where
  "m_alloc b m = Some (brk m, m\<lparr>blocks := (blocks m)(brk m \<mapsto> b), brk := Suc (brk m)\<rparr>)"

definition m_load :: "ptr \<Rightarrow> block cmd" where
  "m_load p m = (case blocks m p of None \<Rightarrow> None | Some b \<Rightarrow> Some (b, m))"

definition m_store :: "ptr \<Rightarrow> block \<Rightarrow> unit cmd" where
  "m_store p b m = (if blocks m p = None then None else Some ((), m\<lparr>blocks := (blocks m)(p \<mapsto> b)\<rparr>))"

text \<open>free(NULL) does nothing.\<close>

definition m_free :: "ptr \<Rightarrow> unit cmd" where
  "m_free p m =
     (if p = 0 then Some ((), m)
      else if blocks m p = None then None
      else Some ((), m\<lparr>blocks := (blocks m)(p := None)\<rparr>))"

section \<open>Assertions\<close>

datatype assn = Assn (holds: "(ptr \<rightharpoonup> block) \<Rightarrow> bool")

instantiation assn :: comm_monoid_mult
begin

definition one_assn :: assn where
  "one_assn = Assn (\<lambda>h. h = Map.empty)"

definition times_assn :: "assn \<Rightarrow> assn \<Rightarrow> assn" where
  "times_assn P Q = Assn (\<lambda>h. \<exists>h1 h2. h = h1 ++ h2 \<and> dom h1 \<inter> dom h2 = {} \<and> holds P h1 \<and> holds Q h2)"

instance
proof
  fix P Q R :: assn
  have I: "holds (A * B) (h1 ++ h2)" if "dom h1 \<inter> dom h2 = {}" "holds A h1" "holds B h2" for A B h1 h2
    using that by (auto simp: times_assn_def)
  have E: "\<exists>h1 h2. h = h1 ++ h2 \<and> dom h1 \<inter> dom h2 = {} \<and> holds A h1 \<and> holds B h2" if "holds (A * B) h" for A B h
    using that by (simp add: times_assn_def)
  have 1: "holds (P * (Q * R)) h" if pqr: "holds (P * Q * R) h" for h
  proof -
    from E [OF pqr] obtain g h3 where g: "h = g ++ h3" "dom g \<inter> dom h3 = {}" "holds (P * Q) g" "holds R h3" by blast
    from E [OF g(3)] obtain h1 h2 where "g = h1 ++ h2" "dom h1 \<inter> dom h2 = {}" "holds P h1" "holds Q h2" by blast
    with g I [of h2 h3 Q R] I [of h1 "h2 ++ h3" P "Q * R"] show ?thesis by (auto simp: Int_Un_distrib)
  qed
  have 2: "holds (P * Q * R) h" if pqr: "holds (P * (Q * R)) h" for h
  proof -
    from E [OF pqr] obtain h1 g where g: "h = h1 ++ g" "dom h1 \<inter> dom g = {}" "holds P h1" "holds (Q * R) g" by blast
    from E [OF g(4)] obtain h2 h3 where "g = h2 ++ h3" "dom h2 \<inter> dom h3 = {}" "holds Q h2" "holds R h3" by blast
    with g I [of h1 h2 P Q] I [of "h1 ++ h2" h3 "P * Q" R] show ?thesis by (auto simp: Int_Un_distrib)
  qed
  show "P * Q * R = P * (Q * R)"
    by (intro assn.expand ext) (use 1 2 in blast)
  show "P * Q = Q * P"
    unfolding times_assn_def by (intro arg_cong [where f = Assn] ext) (metis inf_commute map_add_comm)
  show "1 * P = P"
    by (intro assn.expand ext) (simp add: times_assn_def one_assn_def)
qed

end

definition pts :: "ptr \<Rightarrow> block \<Rightarrow> assn" where
  "pts p b = Assn (\<lambda>h. h = [p \<mapsto> b] \<and> p \<noteq> 0)"

text \<open>A condition that says nothing of the heap, and an assertion for some value.\<close>

definition pure :: "bool \<Rightarrow> assn" where
  "pure b = Assn (\<lambda>h. b \<and> h = Map.empty)"

definition some :: "('a \<Rightarrow> assn) \<Rightarrow> assn" where
  "some P = Assn (\<lambda>h. \<exists>x. holds (P x) h)"

definition entails :: "assn \<Rightarrow> assn \<Rightarrow> bool" where
  "entails P Q \<longleftrightarrow> (\<forall>h. holds P h \<longrightarrow> holds Q h)"

lemma pure_True [simp]: "pure True = 1"
  by (simp add: pure_def one_assn_def)

lemma holds_one [simp]: "holds 1 h \<longleftrightarrow> h = Map.empty"
  by (simp add: one_assn_def)

lemma holds_pure [simp]: "holds (pure b * P) h \<longleftrightarrow> b \<and> holds P h"
  by (auto simp: pure_def times_assn_def)

lemma holds_some [simp]: "holds (some P) h \<longleftrightarrow> (\<exists>x. holds (P x) h)"
  by (simp add: some_def)

lemma some_times: "some P * Q = some (\<lambda>x. P x * Q)"
  by (intro assn.expand ext) (auto simp: some_def times_assn_def)

lemma entails_refl [simp]: "entails P P"
  by (simp add: entails_def)

lemma entails_times: "entails P P' \<Longrightarrow> entails Q Q' \<Longrightarrow> entails (P * Q) (P' * Q')"
  unfolding entails_def times_assn_def assn.sel by blast

section \<open>The logic\<close>

text \<open>
  From a heap that consists of \<open>P\<close> and anything else, the command does not fail
  and leaves \<open>Q\<close> of its result and the same anything else.
\<close>

definition fresh :: "mem \<Rightarrow> bool" where
  "fresh m \<longleftrightarrow> 0 < brk m \<and> dom (blocks m) \<subseteq> {1..<brk m}"

definition hoare :: "assn \<Rightarrow> 'a cmd \<Rightarrow> ('a \<Rightarrow> assn) \<Rightarrow> bool" where
  "hoare P c Q \<longleftrightarrow> (\<forall>F m. holds (P * F) (blocks m) \<and> fresh m \<longrightarrow>
     (\<exists>r m'. c m = Some (r, m') \<and> holds (Q r * F) (blocks m') \<and> fresh m'))"

lemma hoareI:
  assumes "\<And>F m. holds (P * F) (blocks m) \<Longrightarrow> fresh m \<Longrightarrow>
     \<exists>r m'. c m = Some (r, m') \<and> holds (Q r * F) (blocks m') \<and> fresh m'"
  shows "hoare P c Q"
  using assms by (simp add: hoare_def)

lemma hoareE:
  assumes "hoare P c Q" "holds (P * F) (blocks m)" "fresh m"
  obtains r m' where "c m = Some (r, m')" "holds (Q r * F) (blocks m')" "fresh m'"
  using assms unfolding hoare_def by blast

lemma hoare_ret: "hoare (Q a) (m_ret a) Q"
  by (rule hoareI) (simp add: m_ret_def)

lemma hoare_bind:
  assumes c: "hoare P c R" and f: "\<And>a. hoare (R a) (f a) Q"
  shows "hoare P (m_bind c f) Q"
proof (rule hoareI)
  fix F m assume "holds (P * F) (blocks m)" "fresh m"
  with c obtain a m1 where "c m = Some (a, m1)" "holds (R a * F) (blocks m1)" "fresh m1" by (rule hoareE)
  with f [of a] show "\<exists>r m'. m_bind c f m = Some (r, m') \<and> holds (Q r * F) (blocks m') \<and> fresh m'"
    by (auto simp: m_bind_def elim: hoareE)
qed

lemma hoare_seq: "hoare P c (\<lambda>_. R) \<Longrightarrow> hoare R d Q \<Longrightarrow> hoare P (m_seq c d) Q"
  unfolding m_seq_def by (rule hoare_bind)

lemma hoare_frame:
  assumes "hoare P c Q"
  shows "hoare (P * R) c (\<lambda>r. Q r * R)"
proof (rule hoareI)
  fix F m assume "holds (P * R * F) (blocks m)" "fresh m"
  then have "holds (P * (R * F)) (blocks m)" "fresh m" by (simp_all add: mult.assoc)
  with assms show "\<exists>r m'. c m = Some (r, m') \<and> holds (Q r * R * F) (blocks m') \<and> fresh m'"
    by (auto simp: mult.assoc elim: hoareE)
qed

lemma hoare_pre:
  assumes "entails P P'" and "hoare P' c Q"
  shows "hoare P c Q"
  using assms entails_times [OF assms(1) entails_refl] unfolding hoare_def entails_def by blast

lemma hoare_post:
  assumes "hoare P c Q" and "\<And>r. entails (Q r) (Q' r)"
  shows "hoare P c Q'"
proof (rule hoareI)
  fix F m assume "holds (P * F) (blocks m)" "fresh m"
  with assms(1) obtain r m' where "c m = Some (r, m')" "holds (Q r * F) (blocks m')" "fresh m'" by (rule hoareE)
  with entails_times [OF assms(2) entails_refl]
  show "\<exists>r m'. c m = Some (r, m') \<and> holds (Q' r * F) (blocks m') \<and> fresh m'"
    unfolding entails_def by blast
qed

lemma hoare_some: "(\<And>x. hoare (P x) c Q) \<Longrightarrow> hoare (some P) c Q"
  unfolding hoare_def some_times holds_some by blast

lemma hoare_pure: "(b \<Longrightarrow> hoare P c Q) \<Longrightarrow> hoare (pure b * P) c Q"
  unfolding hoare_def mult.assoc holds_pure by blast

text \<open>The commands themselves.\<close>

lemma split_pts: "holds (pts p b * F) h \<longleftrightarrow> p \<noteq> 0 \<and> h p = Some b \<and> holds F (h(p := None))"
proof
  assume "holds (pts p b * F) h"
  then obtain g where g: "h = [p \<mapsto> b] ++ g" "dom [p \<mapsto> b] \<inter> dom g = {}" "p \<noteq> 0" "holds F g"
    by (auto simp: times_assn_def pts_def)
  then have "h(p := None) = g" "h p = Some b" by (auto simp: fun_eq_iff map_add_def split: option.splits)
  with g show "p \<noteq> 0 \<and> h p = Some b \<and> holds F (h(p := None))" by simp
next
  assume a: "p \<noteq> 0 \<and> h p = Some b \<and> holds F (h(p := None))"
  then have "h = [p \<mapsto> b] ++ (h(p := None))" by (auto simp: fun_eq_iff map_add_def split: option.split)
  with a show "holds (pts p b * F) h"
    by (auto simp: times_assn_def pts_def intro!: exI [of _ "h(p := None)"])
qed

lemma hoare_alloc: "hoare 1 (m_alloc b) (\<lambda>p. pts p b)"
proof (rule hoareI)
  fix F m assume F: "holds (1 * F) (blocks m)" and m: "fresh m"
  then have "blocks m (brk m) = None" by (auto simp: fresh_def)
  then have "(blocks m)(brk m := None) = blocks m" by (simp add: fun_upd_idem)
  with F m show "\<exists>r m'. m_alloc b m = Some (r, m') \<and> holds (pts r b * F) (blocks m') \<and> fresh m'"
    by (auto simp: m_alloc_def split_pts fresh_def)
qed

lemma hoare_load: "hoare (pts p b) (m_load p) (\<lambda>r. pure (r = b) * pts p b)"
  by (rule hoareI) (auto simp: m_load_def split_pts mult.assoc)

lemma hoare_store: "hoare (pts p b) (m_store p c) (\<lambda>_. pts p c)"
  by (rule hoareI) (auto simp: m_store_def split_pts fresh_def)

lemma hoare_free: "hoare (pts p b) (m_free p) (\<lambda>_. 1)"
  by (rule hoareI) (auto simp: m_free_def split_pts fresh_def)

lemma hoare_free_NULL: "hoare 1 (m_free 0) (\<lambda>_. 1)"
  by (rule hoareI) (auto simp: m_free_def)

section \<open>Rules\<close>

text \<open>A step on a part of the heap; the rest is kept for what follows.\<close>

lemma hoare_step:
  assumes "hoare A c B" and "P = A * R" and "\<And>r. hoare (B r * R) (f r) Q"
  shows "hoare P (m_bind c f) Q"
  unfolding assms(2) by (rule hoare_bind [OF hoare_frame [OF assms(1)] assms(3)])

lemma hoare_step_seq:
  assumes "hoare A c (\<lambda>_. B)" and "P = A * R" and "hoare (B * R) d Q"
  shows "hoare P (m_seq c d) Q"
  unfolding m_seq_def by (rule hoare_step [OF assms(1,2)]) (rule assms(3))

lemma hoare_ret_eq: "P = Q a \<Longrightarrow> hoare P (m_ret a) Q"
  by (simp add: hoare_ret)

lemma hoare_ret_entails: "entails P (Q a) \<Longrightarrow> hoare P (m_ret a) Q"
  by (rule hoare_pre [OF _ hoare_ret])

lemma entails_some: "entails P (Q x) \<Longrightarrow> entails P (some Q)"
  by (auto simp: entails_def)

lemma m_bind_ret [simp]: "m_bind (m_ret a) f = f a"
  by (simp add: m_bind_def m_ret_def fun_eq_iff)

lemma m_bind_assoc: "m_bind (m_bind c f) g = m_bind c (\<lambda>a. m_bind (f a) g)"
  by (simp add: m_bind_def fun_eq_iff split: option.split)

lemma m_seq_ret [simp]: "m_seq (m_ret a) d = d"
  by (simp add: m_seq_def)

lemma pure_False_times [simp]: "pure False * P = pure False" "P * pure False = pure False"
  by (intro assn.expand ext; auto simp: pure_def times_assn_def)+

lemma pure_conj: "pure a * pure b = pure (a \<and> b)"
  by (intro assn.expand ext) (auto simp: pure_def times_assn_def)

lemma hoare_False [simp]: "hoare (pure False) c Q"
  using hoare_pure [of False 1 c Q] by simp

lemma hoare_load_step:
  assumes "P = pts p b * R" and "hoare (pts p b * R) (f b) Q"
  shows "hoare P (m_bind (m_load p) f) Q"
proof (rule hoare_step [OF hoare_load assms(1)])
  fix r show "hoare (pure (r = b) * pts p b * R) (f r) Q"
    unfolding mult.assoc by (rule hoare_pure) (use assms(2) in simp)
qed

lemma hoare_pure_eq: "P = pure b * P' \<Longrightarrow> (b \<Longrightarrow> hoare P' c Q) \<Longrightarrow> hoare P c Q"
  by (simp add: hoare_pure)

lemma hoare_skip: "hoare P (m_ret ()) (\<lambda>_. P)"
  by (rule hoare_ret)

lemma some_pure_eq: "some (\<lambda>x. P x * pure (x = a)) = P a"
  by (intro assn.expand ext) (auto simp: mult.commute [of "P _"])

lemma some_False: "some (\<lambda>x. pure False) = pure False"
  by (intro assn.expand ext) (auto simp: pure_def)

lemma entails_pure [simp]: "entails (pure b) 1"
  by (simp add: entails_def pure_def)

definition anything :: assn where
  "anything = Assn (\<lambda>_. True)"

lemma entails_False [simp]: "entails (pure False) Q"
  by (simp add: entails_def pure_def)

lemma entails_anything [simp]: "entails P anything"
  by (simp add: entails_def anything_def)

lemma pull_out:
  fixes a b x r :: "'a :: comm_monoid_mult"
  shows "x = b * x \<Longrightarrow> a * (x * r) = b * (a * (x * r))"
  by (metis mult.assoc mult.left_commute)

lemma run_hoare:
  assumes "hoare P c Q" and "holds P (blocks m)" and "fresh m"
  obtains r m' where "c m = Some (r, m')" and "holds (Q r) (blocks m')" and "fresh m'"
  using hoareE [OF assms(1), of 1 m] assms(2,3) by auto

lemma fresh_no_mem [simp]: "fresh no_mem" "blocks no_mem = Map.empty"
  by (simp_all add: fresh_def no_mem_def)

section \<open>Finite products\<close>

text \<open>What every field of a structure owns, and all but one.\<close>

definition each :: "('p \<Rightarrow> 'v \<Rightarrow> assn) \<Rightarrow> ('k::finite \<Rightarrow> 'p) \<Rightarrow> ('k \<Rightarrow> 'v) \<Rightarrow> assn" where
  "each g f h = (\<Prod>x\<in>UNIV. g (f x) (h x))"

definition others :: "('p \<Rightarrow> 'v \<Rightarrow> assn) \<Rightarrow> ('k::finite \<Rightarrow> 'p) \<Rightarrow> ('k \<Rightarrow> 'v) \<Rightarrow> 'k \<Rightarrow> assn" where
  "others g f h a = (\<Prod>x\<in>UNIV - {a}. g (f x) (h x))"

lemma each_split: "each g f h = g (f a) (h a) * others g f h a"
  by (simp add: each_def others_def prod.remove [of UNIV a])

lemma each_upd:
  assumes "\<And>x. x \<noteq> a \<Longrightarrow> h' x = h x"
  shows "each g (f(a := p)) h' = g p (h' a) * others g f h a"
  using assms by (simp add: each_split [where a = a] others_def)

lemma entails_each: "(\<And>x. entails (g (f x) (h x)) 1) \<Longrightarrow> entails (each g f h) 1"
proof -
  assume *: "\<And>x. entails (g (f x) (h x)) 1"
  have "entails (\<Prod>x\<in>A. g (f x) (h x)) 1" if "finite A" for A
    using that
  proof induction
    case (insert x A)
    with entails_times [OF * [of x] insert.IH] show ?case by simp
  qed simp
  then show ?thesis by (simp add: each_def)
qed

end
