(* ===== verification/Cmdline_Memory.thy ===== *)
theory Cmdline_Memory
  imports Cmdline Alloc
begin
text \<open>
  The memory of src/cmdline.c: the parser of Cmdline once more, with its strings,
  list nodes and arrays in blocks that it allocates and frees.  It does what
  Cmdline says, never uses or frees a block that is not allocated, and in the end
  nothing is left over.
\<close>

section \<open>Strings\<close>

definition gengetopt_strdup :: "cstring option \<Rightarrow> ptr cmd" where
  "gengetopt_strdup s = (case s of None \<Rightarrow> m_ret 0 | Some s \<Rightarrow> m_alloc (Chars s))"

definition free_string_field :: "ptr \<Rightarrow> ptr cmd" where
  "free_string_field s = (if s \<noteq> 0 then m_seq (m_free s) (m_ret 0) else m_ret s)"

text \<open>A string that is passed as a value: an argument of the command line, or a block.\<close>

datatype value_ptr = Argv "cstring option" | Heap ptr

definition read_value :: "value_ptr \<Rightarrow> cstring option cmd" where
  "read_value v =
     (case v of
        Argv s \<Rightarrow> m_ret s
      | Heap p \<Rightarrow>
          if p = 0 then m_ret None
          else m_bind (m_load p) (\<lambda>b. case b of Chars s \<Rightarrow> m_ret (Some s) | _ \<Rightarrow> m_crash))"

section \<open>Fields\<close>

datatype ptr_val = PFlag bool | PInt "32 word" | PStr ptr

record ptr_field =
  pf_arg :: ptr_val
  pf_orig :: ptr
  pf_given :: "nat option"

text \<open>
  The storing of the original value: it is handed over when \<open>no_free\<close> is set,
  which must be a block then, and copied otherwise.
\<close>

definition store_orig :: "ptr_field \<Rightarrow> value_ptr \<Rightarrow> cstring option \<Rightarrow> bool \<Rightarrow> ptr_field cmd" where
  "store_orig fld value val no_free =
     (if val = None then m_ret fld
      else if no_free then
        (case value of Heap p \<Rightarrow> m_ret (fld\<lparr>pf_orig := p\<rparr>) | Argv s \<Rightarrow> m_crash)
      else
        m_seq (if pf_orig fld \<noteq> 0 then m_free (pf_orig fld) else m_ret ())
          (m_bind (gengetopt_strdup val) (\<lambda>p. m_ret (fld\<lparr>pf_orig := p\<rparr>))))"

definition store_string :: "ptr_field \<Rightarrow> cstring option \<Rightarrow> bool \<Rightarrow> ptr_field cmd" where
  "store_string fld val no_free =
     (if val = None then m_ret fld
      else
        m_seq (case pf_arg fld of
                 PStr p \<Rightarrow> if \<not> no_free \<and> p \<noteq> 0 then m_free p else m_ret ()
               | _ \<Rightarrow> m_crash)
          (m_bind (gengetopt_strdup val) (\<lambda>p. m_ret (fld\<lparr>pf_arg := PStr p\<rparr>))))"

text \<open>update_arg; the first component of the result tells whether it failed.\<close>

definition update_arg_mem ::
  "ptr_field \<Rightarrow> nat \<Rightarrow> value_ptr \<Rightarrow> arg_type \<Rightarrow> bool \<Rightarrow> bool \<Rightarrow> bool \<Rightarrow> bool \<Rightarrow>
   (bool \<times> ptr_field \<times> nat) cmd" where
  "update_arg_mem fld prev_given value arg_type check_ambiguity override no_free multiple_option =
     (let given = (case pf_given fld of None \<Rightarrow> False | Some n \<Rightarrow> n \<noteq> 0) in
      if \<not> multiple_option \<and> (prev_given \<noteq> 0 \<or> check_ambiguity \<and> given)
      then m_ret (True, fld, prev_given)
      else if given \<and> \<not> override then m_ret (False, fld, prev_given)
      else
        let prev_given = prev_given + 1;
            fld = fld\<lparr>pf_given := map_option Suc (pf_given fld)\<rparr>
        in case arg_type of
             ARG_NO \<Rightarrow> m_ret (False, fld, prev_given)
           | ARG_FLAG \<Rightarrow>
               m_ret (False, fld\<lparr>pf_arg := (case pf_arg fld of PFlag b \<Rightarrow> PFlag (\<not> b) | v \<Rightarrow> v)\<rparr>, prev_given)
           | ARG_INT \<Rightarrow>
               m_bind (read_value value) (\<lambda>val.
                 case val of
                   None \<Rightarrow> m_ret (False, fld, prev_given)
                 | Some v \<Rightarrow>
                     (case strtol0 v of (n, stop_char) \<Rightarrow>
                        let fld = fld\<lparr>pf_arg := PInt (of_int n)\<rparr> in
                        if stop_char \<noteq> [] then m_ret (True, fld, prev_given)
                        else m_bind (store_orig fld value val no_free) (\<lambda>fld. m_ret (False, fld, prev_given))))
           | ARG_STRING \<Rightarrow>
               m_bind (read_value value) (\<lambda>val.
               m_bind (store_string fld val no_free) (\<lambda>fld.
               m_bind (store_orig fld value val no_free) (\<lambda>fld. m_ret (False, fld, prev_given)))))"

section \<open>Lists of values\<close>

definition add_node :: "ptr \<Rightarrow> ptr cmd" where
  "add_node list = m_alloc (Node 0 0 list)"

text \<open>update_arg on the two fields of the first node; no counter of the field is passed.\<close>

definition update_node :: "ptr \<Rightarrow> nat \<Rightarrow> value_ptr \<Rightarrow> arg_type \<Rightarrow> (bool \<times> nat) cmd" where
  "update_node p prev_given value arg_type =
     m_bind (m_load p) (\<lambda>b.
       case b of
         Node arg orig next \<Rightarrow>
           m_bind (update_arg_mem \<lparr>pf_arg = PStr arg, pf_orig = orig, pf_given = None\<rparr> prev_given value
                     arg_type False True True True)
             (\<lambda>(bad, fld, n).
               m_seq (m_store p (Node (case pf_arg fld of PStr a \<Rightarrow> a | _ \<Rightarrow> arg) (pf_orig fld) next))
                 (m_ret (bad, n)))
       | _ \<Rightarrow> m_crash)"

function add_tokens_mem :: "ptr \<Rightarrow> nat \<Rightarrow> char \<Rightarrow> cstring option \<Rightarrow> (bool \<times> ptr \<times> nat) cmd" where
  "add_tokens_mem list prev_given prev val =
     m_bind (gengetopt_strdup (get_multiple_arg_token prev val)) (\<lambda>multi_token.
     m_bind (add_node list) (\<lambda>list.
     m_bind (update_node list prev_given (Heap multi_token) ARG_STRING) (\<lambda>(bad, prev_given).
       if bad then
         m_seq (if multi_token \<noteq> 0 then m_free multi_token else m_ret ()) (m_ret (True, list, prev_given))
       else
         (case get_multiple_arg_token_next prev val of
            None \<Rightarrow> m_ret (False, list, prev_given)
          | Some rest \<Rightarrow> add_tokens_mem list prev_given CHR '','' (Some rest)))))"
  by pat_completeness auto
termination
  by (relation "measure (\<lambda>(l, n, p, val). case val of None \<Rightarrow> 0 | Some s \<Rightarrow> length s)")
    (auto dest: next_shorter)

definition update_multiple_arg_temp_mem ::
  "ptr \<Rightarrow> nat \<Rightarrow> cstring option \<Rightarrow> arg_type \<Rightarrow> (bool \<times> ptr \<times> nat) cmd" where
  "update_multiple_arg_temp_mem list prev_given val arg_type =
     (if arg_type = ARG_NO then m_ret (False, list, prev_given + 1)
      else add_tokens_mem list prev_given CHR 0x00 val)"

text \<open>
  free_list: a list has at most as many nodes as there have been allocations, so
  \<open>brk\<close> bounds the rounds.
\<close>

fun free_nodes :: "nat \<Rightarrow> ptr \<Rightarrow> bool \<Rightarrow> unit cmd" where
  "free_nodes 0 list string_arg = (if list = 0 then m_ret () else m_crash)"
| "free_nodes (Suc n) list string_arg =
     (if list = 0 then m_ret ()
      else
        m_bind (m_load list) (\<lambda>b.
          case b of
            Node arg orig next \<Rightarrow>
              m_seq (if string_arg \<and> arg \<noteq> 0 then m_free arg else m_ret ())
              (m_seq (if orig \<noteq> 0 then m_free orig else m_ret ())
              (m_seq (m_free list) (free_nodes n next string_arg)))
          | _ \<Rightarrow> m_crash))"

definition free_list :: "ptr \<Rightarrow> bool \<Rightarrow> unit cmd" where
  "free_list list string_arg m = free_nodes (brk m) list string_arg m"

section \<open>Arrays\<close>

record ptr_multi =
  pm_arg :: ptr
  pm_orig :: ptr
  pm_given :: nat

text \<open>realloc of an array of pointers; \<open>junk\<close> stands for what new places hold.\<close>

definition realloc_mem :: "ptr \<Rightarrow> ptr \<Rightarrow> nat \<Rightarrow> ptr cmd" where
  "realloc_mem junk p n =
     (if p = 0 then m_alloc (Ptrs (replicate n junk))
      else
        m_bind (m_load p) (\<lambda>b.
          case b of
            Ptrs xs \<Rightarrow> m_seq (m_free p) (m_alloc (Ptrs (take n xs @ replicate (n - length xs) junk)))
          | _ \<Rightarrow> m_crash))"

definition store_at :: "ptr \<Rightarrow> nat \<Rightarrow> ptr \<Rightarrow> unit cmd" where
  "store_at p i q =
     m_bind (m_load p) (\<lambda>b.
       case b of Ptrs xs \<Rightarrow> if i < length xs then m_store p (Ptrs (xs[i := q])) else m_crash | _ \<Rightarrow> m_crash)"

fun fill_mem :: "nat \<Rightarrow> nat \<Rightarrow> ptr \<Rightarrow> ptr \<Rightarrow> ptr \<Rightarrow> unit cmd" where
  "fill_mem 0 field_given list arg orig = m_ret ()"
| "fill_mem (Suc i) field_given list arg orig =
     m_bind (m_load list) (\<lambda>b.
       case b of
         Node s og next \<Rightarrow>
           m_seq (store_at arg (i + field_given) s)
           (m_seq (store_at orig (i + field_given) og)
           (m_seq (m_free list) (fill_mem i field_given next arg orig)))
       | _ \<Rightarrow> m_crash)"

definition update_multiple_arg_mem ::
  "ptr \<Rightarrow> ptr_multi \<Rightarrow> nat \<Rightarrow> cstring option \<Rightarrow> ptr \<Rightarrow> ptr_multi cmd" where
  "update_multiple_arg_mem junk pm prev_given default_value list =
     (if prev_given \<noteq> 0 \<and> list \<noteq> 0 then
        m_bind (realloc_mem junk (pm_orig pm) (pm_given pm + prev_given)) (\<lambda>orig.
        m_bind (realloc_mem junk (pm_arg pm) (pm_given pm + prev_given)) (\<lambda>arg.
        m_seq (fill_mem prev_given (pm_given pm) list arg orig)
          (m_ret (pm\<lparr>pm_arg := arg, pm_orig := orig\<rparr>))))
      else if default_value \<noteq> None \<and> pm_given pm = 0 then
        m_bind (if pm_arg pm = 0 then
                  m_bind (m_alloc (Ptrs [junk])) (\<lambda>a.
                  m_bind (gengetopt_strdup default_value) (\<lambda>s. m_seq (store_at a 0 s) (m_ret a)))
                else m_ret (pm_arg pm)) (\<lambda>arg.
        m_bind (if pm_orig pm = 0 then
                  m_bind (m_alloc (Ptrs [junk])) (\<lambda>a. m_seq (store_at a 0 0) (m_ret a))
                else m_ret (pm_orig pm)) (\<lambda>orig.
          m_ret (pm\<lparr>pm_arg := arg, pm_orig := orig\<rparr>)))
      else m_ret pm)"

definition free_at :: "ptr \<Rightarrow> nat \<Rightarrow> unit cmd" where
  "free_at p i =
     m_bind (m_load p) (\<lambda>b.
       case b of
         Ptrs xs \<Rightarrow>
           if i < length xs then m_bind (free_string_field (xs ! i)) (\<lambda>s. m_store p (Ptrs (xs[i := s])))
           else m_crash
       | _ \<Rightarrow> m_crash)"

fun free_each :: "nat \<Rightarrow> nat \<Rightarrow> ptr \<Rightarrow> ptr \<Rightarrow> unit cmd" where
  "free_each i 0 arg orig = m_ret ()"
| "free_each i (Suc n) arg orig =
     m_seq (free_at arg i) (m_seq (free_at orig i) (free_each (i + 1) n arg orig))"

definition free_multiple_string_field :: "nat \<Rightarrow> ptr \<Rightarrow> ptr \<Rightarrow> (ptr \<times> ptr) cmd" where
  "free_multiple_string_field len arg orig =
     (if arg \<noteq> 0 then
        m_seq (free_each 0 len arg orig)
        (m_seq (free_at arg 0)
        (m_seq (m_free arg)
        (m_seq (m_free orig) (m_ret (0, 0)))))
      else m_ret (arg, orig))"

section \<open>The parser\<close>

record ptr_info =
  pi_single :: "single \<Rightarrow> ptr_field"
  pi_multi :: "multi \<Rightarrow> ptr_multi"

definition cmdline_parser_init_mem :: "32 word \<Rightarrow> ptr_info cmd" where
  "cmdline_parser_init_mem junk =
     m_bind (gengetopt_strdup (Some ''root'')) (\<lambda>user.
       m_ret \<lparr>pi_single = (\<lambda>s.
                \<lparr>pf_arg =
                   (case arg_type_of s of
                      ARG_STRING \<Rightarrow> PStr (if s = O_user then user else 0)
                    | ARG_INT \<Rightarrow> PInt junk
                    | _ \<Rightarrow> PFlag False),
                 pf_orig = 0, pf_given = Some 0\<rparr>),
              pi_multi = (\<lambda>_. \<lparr>pm_arg = 0, pm_orig = 0, pm_given = 0\<rparr>)\<rparr>)"

definition release_single :: "ptr_info \<Rightarrow> single \<Rightarrow> ptr_info cmd" where
  "release_single pi s =
     (let fld = pi_single pi s in
      m_bind (case pf_arg fld of
                PStr p \<Rightarrow> m_bind (free_string_field p) (\<lambda>p. m_ret (PStr p))
              | v \<Rightarrow> m_ret v) (\<lambda>arg.
      m_bind (free_string_field (pf_orig fld)) (\<lambda>orig.
        m_ret (pi\<lparr>pi_single := (pi_single pi)(s := fld\<lparr>pf_arg := arg, pf_orig := orig\<rparr>)\<rparr>))))"

definition release_multi :: "ptr_info \<Rightarrow> multi \<Rightarrow> ptr_info cmd" where
  "release_multi pi m =
     (let pm = pi_multi pi m in
      m_bind (free_multiple_string_field (pm_given pm) (pm_arg pm) (pm_orig pm)) (\<lambda>(arg, orig).
        m_ret (pi\<lparr>pi_multi := (pi_multi pi)(m := pm\<lparr>pm_arg := arg, pm_orig := orig\<rparr>)\<rparr>)))"

fun m_fold :: "('s \<Rightarrow> 'a \<Rightarrow> 's cmd) \<Rightarrow> 's \<Rightarrow> 'a list \<Rightarrow> 's cmd" where
  "m_fold f s [] = m_ret s"
| "m_fold f s (x # xs) = m_bind (f s x) (\<lambda>s. m_fold f s xs)"

text \<open>clear_given.\<close>

definition clear_given_mem :: "ptr_info \<Rightarrow> ptr_info" where
  "clear_given_mem pi =
     pi\<lparr>pi_single := (\<lambda>s. (pi_single pi s)\<lparr>pf_given := Some 0\<rparr>),
        pi_multi := (\<lambda>m. (pi_multi pi m)\<lparr>pm_given := 0\<rparr>)\<rparr>"

text \<open>The fields with pointers, in the order of cmdline_parser_release.\<close>

definition release_order :: "(single + multi) list" where
  "release_order =
     [Inl O_chroot, Inl O_chdir, Inl O_hostname, Inr M_mount, Inr M_netif, Inl O_user, Inr M_user_map,
      Inr M_cgroup, Inr M_caps, Inl O_attach, Inr M_setenv]"

definition cmdline_parser_release :: "ptr_info \<Rightarrow> ptr_info cmd" where
  "cmdline_parser_release pi =
     m_bind (m_fold (\<lambda>pi x. case x of Inl s \<Rightarrow> release_single pi s | Inr m \<Rightarrow> release_multi pi m) pi release_order)
       (\<lambda>pi. m_ret (clear_given_mem pi))"

text \<open>The variables of cmdline_parser_internal.\<close>

record parse_mem =
  pr_info :: ptr_info
  pr_local :: ptr_info
  pr_list :: "multi \<Rightarrow> ptr"

text \<open>How a round ends: the loop goes on, it is left by goto failure, or by exit.\<close>

datatype 'a flow = Go 'a | Failure 'a | Exited int

definition given_of :: "ptr_field \<Rightarrow> nat" where
  "given_of fld = (case pf_given fld of None \<Rightarrow> 0 | Some n \<Rightarrow> n)"

definition parse_single_mem :: "parse_mem \<Rightarrow> single \<Rightarrow> cstring option \<Rightarrow> parse_mem flow cmd" where
  "parse_single_mem p s optarg =
     m_bind (update_arg_mem (pi_single (pr_info p) s) (given_of (pi_single (pr_local p) s)) (Argv optarg)
               (arg_type_of s) False False (arg_type_of s = ARG_FLAG) False) (\<lambda>(bad, fld, n).
       let p = p\<lparr>pr_info := (pr_info p)\<lparr>pi_single := (pi_single (pr_info p))(s := fld)\<rparr>,
                 pr_local := (pr_local p)\<lparr>pi_single := (pi_single (pr_local p))
                   (s := (pi_single (pr_local p) s)\<lparr>pf_given := Some n\<rparr>)\<rparr>\<rparr>
       in m_ret (if bad then Failure p else Go p))"

definition parse_multi_mem :: "parse_mem \<Rightarrow> multi \<Rightarrow> cstring option \<Rightarrow> parse_mem flow cmd" where
  "parse_multi_mem p m optarg =
     m_bind (update_multiple_arg_temp_mem (pr_list p m) (pm_given (pi_multi (pr_local p) m)) optarg ARG_STRING)
       (\<lambda>(bad, list, n).
          let p = p\<lparr>pr_list := (pr_list p)(m := list),
                    pr_local := (pr_local p)\<lparr>pi_multi := (pi_multi (pr_local p))
                      (m := (pi_multi (pr_local p) m)\<lparr>pm_given := n\<rparr>)\<rparr>\<rparr>
          in m_ret (if bad then Failure p else Go p))"

definition parse_step_mem :: "parse_mem \<Rightarrow> given_option \<Rightarrow> parse_mem flow cmd" where
  "parse_step_mem p opt =
     (case opt of (c, optarg) \<Rightarrow>
        if c = CHR ''h'' \<or> c = CHR ''V''
        then m_bind (cmdline_parser_release (pr_local p)) (\<lambda>_. m_ret (Exited 0))
        else if c = CHR ''?'' then m_ret (Failure p)
        else
          (case single_of c of
             Some s \<Rightarrow> parse_single_mem p s optarg
           | None \<Rightarrow> (case multi_of c of Some m \<Rightarrow> parse_multi_mem p m optarg | None \<Rightarrow> m_crash)))"

fun parse_all_mem :: "parse_mem \<Rightarrow> given_option list \<Rightarrow> parse_mem flow cmd" where
  "parse_all_mem p [] = m_ret (Go p)"
| "parse_all_mem p (opt # opts) =
     m_bind (parse_step_mem p opt) (\<lambda>r. case r of Go p \<Rightarrow> parse_all_mem p opts | r \<Rightarrow> m_ret r)"

definition all_multi :: "multi list" where
  "all_multi = [M_mount, M_netif, M_user_map, M_cgroup, M_caps, M_setenv]"

definition finish_multi_mem :: "ptr \<Rightarrow> parse_mem \<Rightarrow> multi \<Rightarrow> parse_mem cmd" where
  "finish_multi_mem junk p m =
     (let n = pm_given (pi_multi (pr_local p) m) in
      m_bind (update_multiple_arg_mem junk (pi_multi (pr_info p) m) n
                (if m = M_caps then Some ''+all'' else None) (pr_list p m)) (\<lambda>pm.
        m_ret (p\<lparr>pr_info := (pr_info p)\<lparr>pi_multi := (pi_multi (pr_info p))
                   (m := pm\<lparr>pm_given := pm_given pm + n\<rparr>)\<rparr>,
                 pr_local := (pr_local p)\<lparr>pi_multi := (pi_multi (pr_local p))
                   (m := (pi_multi (pr_local p) m)\<lparr>pm_given := 0\<rparr>)\<rparr>\<rparr>)))"

text \<open>The bounds of the occurrences are 0, as init_args_info sets them.\<close>

definition required_mem :: "ptr_info \<Rightarrow> bool" where
  "required_mem pi \<longleftrightarrow>
     list_ex (\<lambda>m. check_multiple_option_occurrences (pm_given (pi_multi pi m)) 0 0) all_multi \<or>
     pf_given (pi_single pi O_ephemeral) \<noteq> Some 0 \<and> \<not> pf_given (pi_single pi O_chroot) \<noteq> Some 0"

text \<open>
  cmdline_parser_internal, for the options that getopt_long returns.  The result
  is the code of an exit, or whether the parser failed with what it has filled in.
\<close>

definition cmdline_parser_internal_mem ::
  "32 word \<Rightarrow> ptr \<Rightarrow> given_option list \<Rightarrow> (int + bool \<times> ptr_info) cmd" where
  "cmdline_parser_internal_mem junk pjunk opts =
     m_bind (cmdline_parser_init_mem junk) (\<lambda>info.
     m_bind (cmdline_parser_init_mem junk) (\<lambda>local_info.
     m_bind (parse_all_mem \<lparr>pr_info = info, pr_local = local_info, pr_list = (\<lambda>_. 0)\<rparr> opts) (\<lambda>r.
       case r of
         Exited n \<Rightarrow> m_ret (Inl n)
       | Failure p \<Rightarrow>
           m_seq (m_fold (\<lambda>_ m. free_list (pr_list p m) True) () all_multi)
           (m_seq (cmdline_parser_release (pr_local p)) (m_ret (Inr (True, pr_info p))))
       | Go p \<Rightarrow>
           m_bind (m_fold (finish_multi_mem pjunk) p all_multi) (\<lambda>p.
             m_seq (cmdline_parser_release (pr_local p))
               (m_ret (Inr (required_mem (pr_info p), pr_info p)))))))"

text \<open>cmdline_parser2: a failure frees everything and exits.\<close>

definition cmdline_parser_mem :: "32 word \<Rightarrow> ptr \<Rightarrow> given_option list \<Rightarrow> (int + ptr_info) cmd" where
  "cmdline_parser_mem junk pjunk opts =
     m_bind (cmdline_parser_internal_mem junk pjunk opts) (\<lambda>r.
       case r of
         Inl n \<Rightarrow> m_ret (Inl n)
       | Inr (bad, pi) \<Rightarrow>
           if bad then m_seq (cmdline_parser_release pi) (m_ret (Inl 1)) else m_ret (Inr pi))"

section \<open>Strings and fields in memory\<close>

section \<open>Strings\<close>

text \<open>A pointer that is NULL or to a block with a string.\<close>

definition str_at :: "ptr \<Rightarrow> cstring option \<Rightarrow> assn" where
  "str_at p v = (case v of None \<Rightarrow> pure (p = 0) | Some s \<Rightarrow> pts p (Chars s))"

lemma str_at_None [simp]: "str_at p None = pure (p = 0)"
  by (simp add: str_at_def)

lemma pts_NULL [simp]: "pts 0 b = pure False"
  by (simp add: pts_def pure_def)

lemma str_at_NULL [simp]: "str_at 0 v = pure (v = None)"
  by (cases v) (simp_all add: str_at_def)

lemma hoare_strdup: "hoare 1 (gengetopt_strdup v) (\<lambda>p. str_at p v)"
proof (cases v)
  case None
  then show ?thesis using hoare_ret [of "\<lambda>p. str_at p v" 0] by (simp add: gengetopt_strdup_def)
next
  case (Some s)
  then show ?thesis by (simp add: gengetopt_strdup_def str_at_def hoare_alloc)
qed

lemma hoare_free_str: "hoare (str_at p v) (m_free p) (\<lambda>_. 1)"
proof (cases v)
  case None
  then show ?thesis using hoare_pure [of "p = 0" 1 "m_free p"] hoare_free_NULL by auto
qed (simp add: str_at_def hoare_free)

lemma hoare_free_some:
  "hoare (str_at p v) (if p \<noteq> 0 then m_free p else m_ret ()) (\<lambda>_. 1)"
proof (cases "p = 0")
  case True
  then show ?thesis using hoare_pure [of "v = None" 1 "m_ret ()" "\<lambda>_. 1"] hoare_ret [of "\<lambda>_. 1" "()"] by simp
qed (simp add: hoare_free_str)

lemma hoare_free_string_field: "hoare (str_at p v) (free_string_field p) (\<lambda>q. pure (q = 0))"
proof (cases "p = 0")
  case True
  then show ?thesis
    using hoare_pure [of "v = None" 1 "m_ret 0" "\<lambda>q. pure (q = 0)"] hoare_ret [of "\<lambda>q. pure (q = 0)" 0]
    by (simp add: free_string_field_def)
next
  case False
  have "hoare (str_at p v) (m_seq (m_free p) (m_ret 0)) (\<lambda>q. pure (q = 0))"
    by (rule hoare_step_seq [OF hoare_free_str, where R = 1]) (simp_all add: hoare_ret_eq)
  with False show ?thesis by (simp add: free_string_field_def)
qed

definition value_at :: "value_ptr \<Rightarrow> cstring option \<Rightarrow> assn" where
  "value_at v s = (case v of Argv t \<Rightarrow> pure (t = s) | Heap p \<Rightarrow> str_at p s)"

lemma hoare_read_value: "hoare (value_at v s) (read_value v) (\<lambda>r. pure (r = s) * value_at v s)"
proof (cases v)
  case (Argv t)
  then show ?thesis by (cases "t = s") (simp_all add: read_value_def value_at_def hoare_ret_eq)
next
  case (Heap p)
  show ?thesis
  proof (cases "p = 0")
    case True
    with Heap show ?thesis by (cases s) (simp_all add: read_value_def value_at_def hoare_ret_eq)
  next
    case p: False
    show ?thesis
    proof (cases s)
      case None
      with Heap p show ?thesis by (simp add: value_at_def)
    next
      case (Some x)
      have "hoare (pts p (Chars x)) (m_bind (m_load p) (\<lambda>b. case b of Chars s \<Rightarrow> m_ret (Some s) | _ \<Rightarrow> m_crash))
          (\<lambda>r. pure (r = Some x) * pts p (Chars x))"
        by (rule hoare_load_step [where R = 1], simp) (simp add: hoare_ret_eq)
      with Heap Some p show ?thesis by (simp add: read_value_def value_at_def str_at_def)
    qed
  qed
qed

section \<open>Fields\<close>

fun val_at :: "ptr_val \<Rightarrow> field_val \<Rightarrow> assn" where
  "val_at (PFlag b) v = pure (v = FlagVal b)"
| "val_at (PInt i) v = pure (v = IntVal i)"
| "val_at (PStr p) v = (case v of StrVal s \<Rightarrow> str_at p s | _ \<Rightarrow> pure False)"

definition field_at :: "ptr_field \<Rightarrow> field \<Rightarrow> assn" where
  "field_at pf f = pure (pf_given pf = f_given f) * (val_at (pf_arg pf) (f_arg f) * str_at (pf_orig pf) (f_orig f))"

lemma hoare_store_orig:
  assumes "\<not> no_free"
  shows "hoare (str_at (pf_orig fld) old * value_at value val) (store_orig fld value val no_free)
    (\<lambda>fld'. pure (pf_given fld' = pf_given fld \<and> pf_arg fld' = pf_arg fld) *
      (str_at (pf_orig fld') (if val = None then old else val) * value_at value val))"
proof (cases val)
  case None
  then show ?thesis by (simp add: store_orig_def hoare_ret_eq)
next
  case (Some x)
  have copy: "hoare 1 (m_bind (gengetopt_strdup val) (\<lambda>p. m_ret (fld\<lparr>pf_orig := p\<rparr>)))
      (\<lambda>fld'. pure (pf_given fld' = pf_given fld \<and> pf_arg fld' = pf_arg fld) * str_at (pf_orig fld') val)"
    by (rule hoare_step [OF hoare_strdup, where R = 1]) (simp_all add: hoare_ret_eq)
  have "store_orig fld value val no_free = m_seq (if pf_orig fld \<noteq> 0 then m_free (pf_orig fld) else m_ret ())
      (m_bind (gengetopt_strdup val) (\<lambda>p. m_ret (fld\<lparr>pf_orig := p\<rparr>)))"
    using assms Some by (simp add: store_orig_def)
  then have "hoare (str_at (pf_orig fld) old) (store_orig fld value val no_free)
      (\<lambda>fld'. pure (pf_given fld' = pf_given fld \<and> pf_arg fld' = pf_arg fld) * str_at (pf_orig fld') val)"
    using hoare_seq [OF hoare_free_some copy] by (simp only:)
  from hoare_frame [OF this, of "value_at value val"] Some show ?thesis by (simp add: mult.assoc)
qed

lemma hoare_store_orig_kept:
  assumes "no_free" and "pf_orig fld = 0"
  shows "hoare (str_at p val) (store_orig fld (Heap p) val no_free)
    (\<lambda>fld'. pure (fld' = fld\<lparr>pf_orig := pf_orig fld'\<rparr>) * str_at (pf_orig fld') val)"
proof (cases val)
  case None
  have "hoare (pure (p = 0) * 1) (m_ret fld)
      (\<lambda>fld'. pure (fld' = fld\<lparr>pf_orig := pf_orig fld'\<rparr>) * str_at (pf_orig fld') None)"
    by (rule hoare_pure) (simp add: hoare_ret_eq assms(2))
  with None show ?thesis by (simp add: store_orig_def)
next
  case (Some s)
  with assms show ?thesis by (simp add: store_orig_def hoare_ret_eq)
qed

lemma hoare_store_string:
  assumes "pf_arg fld = PStr q" and "no_free \<longrightarrow> q = 0"
  shows "hoare (str_at q old) (store_string fld val no_free)
    (\<lambda>fld'. pure (pf_given fld' = pf_given fld \<and> pf_orig fld' = pf_orig fld) *
      val_at (pf_arg fld') (StrVal (if val = None then old else val)))"
proof (cases val)
  case None
  with assms show ?thesis by (simp add: store_string_def hoare_ret_eq)
next
  case (Some x)
  have copy: "hoare 1 (m_bind (gengetopt_strdup val) (\<lambda>p. m_ret (fld\<lparr>pf_arg := PStr p\<rparr>)))
      (\<lambda>fld'. pure (pf_given fld' = pf_given fld \<and> pf_orig fld' = pf_orig fld) * val_at (pf_arg fld') (StrVal val))"
    by (rule hoare_step [OF hoare_strdup, where R = 1]) (simp_all add: hoare_ret_eq)
  have "hoare (str_at q old) (if \<not> no_free \<and> q \<noteq> 0 then m_free q else m_ret ()) (\<lambda>_. 1)"
    using hoare_free_some [of q old] assms(2) by (auto split: if_splits)
  from hoare_seq [OF this copy]
  have "hoare (str_at q old) (m_seq (if \<not> no_free \<and> q \<noteq> 0 then m_free q else m_ret ())
      (m_bind (gengetopt_strdup val) (\<lambda>p. m_ret (fld\<lparr>pf_arg := PStr p\<rparr>))))
      (\<lambda>fld'. pure (pf_given fld' = pf_given fld \<and> pf_orig fld' = pf_orig fld) * val_at (pf_arg fld') (StrVal val))" .
  moreover have "store_string fld val no_free = m_seq (if \<not> no_free \<and> q \<noteq> 0 then m_free q else m_ret ())
      (m_bind (gengetopt_strdup val) (\<lambda>p. m_ret (fld\<lparr>pf_arg := PStr p\<rparr>)))"
    using assms(1) Some by (simp add: store_string_def)
  ultimately show ?thesis using Some by simp
qed

text \<open>update_arg does what Cmdline says; when it fails, every block is still in its field.\<close>

definition kind :: "arg_type \<Rightarrow> field_val \<Rightarrow> bool" where
  "kind t v =
     (case v of FlagVal b \<Rightarrow> t = ARG_FLAG | IntVal i \<Rightarrow> t = ARG_INT | StrVal s \<Rightarrow> t = ARG_STRING)"

lemma hoare_update_arg:
  assumes "kind t (f_arg f)" and "t = ARG_FLAG \<or> \<not> no_free"
  shows "hoare (field_at pf f) (update_arg_mem pf n (Argv v) t False False no_free False)
    (\<lambda>(bad, pf', n').
       case update_arg f n v t False False False of
         None \<Rightarrow> pure bad * some (\<lambda>f'. pure (kind t (f_arg f') \<and> f_orig f' = f_orig f) * field_at pf' f')
       | Some (f', m) \<Rightarrow> pure (\<not> bad \<and> n' = m) * field_at pf' f')"
proof -
  let ?g = "pf\<lparr>pf_given := map_option Suc (pf_given pf)\<rparr>"
  let ?h = "f\<lparr>f_given := map_option Suc (f_given f)\<rparr>"
  let ?Q = "\<lambda>(bad, pf', n').
       case update_arg f n v t False False False of
         None \<Rightarrow> pure bad * some (\<lambda>f'. pure (kind t (f_arg f') \<and> f_orig f' = f_orig f) * field_at pf' f')
       | Some (f', m) \<Rightarrow> pure (\<not> bad \<and> n' = m) * field_at pf' f'"
  have keep: "entails (field_at pf f) (some (\<lambda>f'. pure (kind t (f_arg f') \<and> f_orig f' = f_orig f) * field_at pf f'))"
    by (rule entails_some [where x = f]) (simp add: assms(1))
  have "hoare (field_at pf f) (update_arg_mem pf n (Argv v) t False False no_free False) ?Q"
    if given: "pf_given pf = f_given f"
  proof -
    consider (again) "n \<noteq> 0" | (full) "n = 0" "f_given f \<noteq> None" "f_given f \<noteq> Some 0"
      | (new) "n = 0" "f_given f = None \<or> f_given f = Some 0" by metis
    then show ?thesis
    proof cases
      case again
      then show ?thesis
        using keep by (simp add: update_arg_mem_def update_arg_def Let_def hoare_ret_entails)
    next
      case full
      then show ?thesis
        using given by (auto simp: update_arg_mem_def update_arg_def Let_def hoare_ret_eq)
    next
      case new
      show ?thesis
      proof (cases t)
        case ARG_NO
        with assms(1) show ?thesis by (simp add: kind_def split: field_val.splits)
      next
        case ARG_FLAG
        with assms(1) obtain b where b: "f_arg f = FlagVal b" by (auto simp: kind_def split: field_val.splits)
        show ?thesis
        proof (cases "pf_arg pf")
          case (PFlag c)
          with b new given ARG_FLAG show ?thesis
            by (auto simp: update_arg_mem_def update_arg_def field_at_def Let_def hoare_ret_eq pure_conj)
        qed (simp_all add: field_at_def b split: field_val.split)
      next
        case ARG_INT
        with assms(1) obtain j where j: "f_arg f = IntVal j" by (auto simp: kind_def split: field_val.splits)
        show ?thesis
        proof (cases "pf_arg pf")
          case (PInt i)
          show ?thesis
          proof (cases v)
            case None
            with PInt j new given ARG_INT show ?thesis
              by (auto simp: update_arg_mem_def update_arg_def read_value_def field_at_def Let_def hoare_ret_eq)
          next
            case (Some x)
            obtain k stop where k: "strtol0 x = (k, stop)" by fastforce
            let ?g' = "?g\<lparr>pf_arg := PInt (of_int k)\<rparr>" and ?h' = "?h\<lparr>f_arg := IntVal (of_int k)\<rparr>"
            have parts: "field_at pf f = pure (j = i) * str_at (pf_orig pf) (f_orig f)"
              using PInt j given by (auto simp: field_at_def)
            show ?thesis
            proof (cases "stop = []")
              case False
              have "entails (field_at pf f) (some (\<lambda>f'. pure (kind t (f_arg f') \<and> f_orig f' = f_orig f) * field_at ?g' f'))"
                unfolding parts
                by (rule entails_some [where x = ?h'])
                   (auto simp: kind_def ARG_INT field_at_def given entails_def)
              with False Some k new given ARG_INT show ?thesis
                by (auto simp: update_arg_mem_def update_arg_def read_value_def Let_def hoare_ret_entails)
            next
              case True
              have st: "hoare (str_at (pf_orig pf) (f_orig f)) (store_orig ?g' (Argv v) v no_free)
                  (\<lambda>fld'. pure (pf_given fld' = pf_given ?g' \<and> pf_arg fld' = pf_arg ?g') * str_at (pf_orig fld') v)"
                using hoare_store_orig [of no_free ?g' "f_orig f" "Argv v" v] assms(2) ARG_INT Some
                by (simp add: value_at_def)
              have "hoare (str_at (pf_orig pf) (f_orig f))
                 (m_bind (store_orig ?g' (Argv v) v no_free) (\<lambda>fld. m_ret (False, fld, n + 1)))
                 (\<lambda>(bad, pf', n'). pure (\<not> bad \<and> n' = n + 1) * field_at pf' (?h'\<lparr>f_orig := v\<rparr>))"
              proof (rule hoare_step [OF st, where R = 1])
                fix r
                have "hoare (pure (pf_given r = pf_given ?g' \<and> pf_arg r = pf_arg ?g') * str_at (pf_orig r) v)
                  (m_ret (False, r, n + 1)) (\<lambda>(bad, pf', n'). pure (\<not> bad \<and> n' = n + 1) * field_at pf' (?h'\<lparr>f_orig := v\<rparr>))"
                  by (rule hoare_pure, rule hoare_ret_eq) (use given in \<open>simp add: field_at_def\<close>)
                then show "hoare (pure (pf_given r = pf_given ?g' \<and> pf_arg r = pf_arg ?g') * str_at (pf_orig r) v * 1)
                  (m_ret (False, r, n + 1)) (\<lambda>(bad, pf', n'). pure (\<not> bad \<and> n' = n + 1) * field_at pf' (?h'\<lparr>f_orig := v\<rparr>))"
                  by simp
              qed simp
              with True Some k new given ARG_INT parts show ?thesis
                by (cases "j = i") (auto simp: update_arg_mem_def update_arg_def read_value_def Let_def)
            qed
          qed
        qed (simp_all add: field_at_def j split: field_val.split)
      next
        case ARG_STRING
        with assms(1) obtain old where old: "f_arg f = StrVal old" by (auto simp: kind_def split: field_val.splits)
        show ?thesis
        proof (cases "pf_arg pf")
          case (PStr q)
          let ?h' = "?h\<lparr>f_arg := StrVal (if v = None then old else v), f_orig := (if v = None then f_orig f else v)\<rparr>"
          let ?P = "\<lambda>pf'. str_at (pf_orig pf') (if v = None then f_orig f else v)"
          let ?A = "\<lambda>pf'. val_at (pf_arg pf') (StrVal (if v = None then old else v))"
          have parts: "field_at pf f = str_at q old * str_at (pf_orig pf) (f_orig f)"
            using PStr old given by (simp add: field_at_def)
          have str: "hoare (str_at q old) (store_string ?g v no_free)
              (\<lambda>fld'. pure (pf_given fld' = pf_given ?g \<and> pf_orig fld' = pf_orig ?g) * ?A fld')"
            using assms(2) ARG_STRING PStr by (intro hoare_store_string) simp_all
          have orig: "hoare (str_at (pf_orig fld) (f_orig f)) (store_orig fld (Argv v) v no_free)
              (\<lambda>fld'. pure (pf_given fld' = pf_given fld \<and> pf_arg fld' = pf_arg fld) * ?P fld')" for fld
            using hoare_store_orig [of no_free fld "f_orig f" "Argv v" v] assms(2) ARG_STRING
            by (simp add: value_at_def)
          have two: "hoare (pure (pf_given fld = pf_given ?g \<and> pf_orig fld = pf_orig ?g) * ?A fld * str_at (pf_orig pf) (f_orig f))
              (m_bind (store_orig fld (Argv v) v no_free) (\<lambda>fld. m_ret (False, fld, n + 1)))
              (\<lambda>(bad, pf', n'). pure (\<not> bad \<and> n' = n + 1) * field_at pf' ?h')" for fld
            unfolding mult.assoc
          proof (rule hoare_pure)
            assume fld: "pf_given fld = pf_given ?g \<and> pf_orig fld = pf_orig ?g"
            show "hoare (?A fld * str_at (pf_orig pf) (f_orig f))
              (m_bind (store_orig fld (Argv v) v no_free) (\<lambda>fld. m_ret (False, fld, n + 1)))
              (\<lambda>(bad, pf', n'). pure (\<not> bad \<and> n' = n + 1) * field_at pf' ?h')"
            proof (rule hoare_step [OF orig, where R = "?A fld"])
              fix r
              have "hoare (pure (pf_given r = pf_given fld \<and> pf_arg r = pf_arg fld) * (?P r * ?A fld))
                (m_ret (False, r, n + 1)) (\<lambda>(bad, pf', n'). pure (\<not> bad \<and> n' = n + 1) * field_at pf' ?h')"
                by (rule hoare_pure, rule hoare_ret_eq) (use fld given in \<open>simp add: field_at_def mult.commute\<close>)
              then show "hoare (pure (pf_given r = pf_given fld \<and> pf_arg r = pf_arg fld) * ?P r * ?A fld)
                (m_ret (False, r, n + 1)) (\<lambda>(bad, pf', n'). pure (\<not> bad \<and> n' = n + 1) * field_at pf' ?h')"
                by (simp only: mult.assoc)
            qed (simp add: fld mult.commute)
          qed
          have "hoare (field_at pf f)
              (m_bind (store_string ?g v no_free) (\<lambda>fld.
                 m_bind (store_orig fld (Argv v) v no_free) (\<lambda>fld. m_ret (False, fld, n + 1))))
              (\<lambda>(bad, pf', n'). pure (\<not> bad \<and> n' = n + 1) * field_at pf' ?h')"
            by (rule hoare_step [OF str, where R = "str_at (pf_orig pf) (f_orig f)"], rule parts, rule two)
          moreover have "update_arg f n v t False False False = Some (?h', n + 1)"
            using new ARG_STRING old by (cases v) (auto simp: update_arg_def Let_def)
          ultimately show ?thesis
            using new given ARG_STRING by (auto simp: update_arg_mem_def read_value_def Let_def)
        qed (simp_all add: field_at_def old)
      qed
    qed
  qed
  then show ?thesis
    using hoare_pure [of "pf_given pf = f_given f"] unfolding field_at_def by blast
qed

section \<open>Lists\<close>

fun nodes_at :: "ptr \<Rightarrow> field list \<Rightarrow> assn" where
  "nodes_at p [] = pure (p = 0)"
| "nodes_at p (f # fs) = some (\<lambda>(a, o1, q). pts p (Node a o1 q) *
     (str_at a (node_string f) * (str_at o1 (f_orig f) * nodes_at q fs)))"

lemma hoare_some_pure_post:
  "hoare P c (\<lambda>r. pure b * Q r) \<Longrightarrow> hoare P c Q"
  by (rule hoare_post) (auto simp: entails_def)

text \<open>A new node takes over the token and a copy of it.\<close>

lemma hoare_update_node:
  "hoare (pts p (Node 0 0 q) * str_at tok t) (update_node p n (Heap tok) ARG_STRING)
     (\<lambda>(bad, n'). pure (\<not> bad \<and> n' = n + 1) *
        some (\<lambda>(a, o1). pts p (Node a o1 q) * (str_at a t * str_at o1 t)))"
proof -
  let ?f0 = "\<lparr>pf_arg = PStr 0, pf_orig = 0, pf_given = None\<rparr>"
  have str: "hoare 1 (store_string ?f0 t True)
      (\<lambda>fld. pure (pf_given fld = None \<and> pf_orig fld = 0) * val_at (pf_arg fld) (StrVal t))"
    using hoare_store_string [of ?f0 0 True None t] by (cases t) simp_all
  have "hoare (str_at tok t) (update_arg_mem ?f0 n (Heap tok) ARG_STRING False True True True)
      (\<lambda>(bad, fld, n'). pure (\<not> bad \<and> n' = n + 1) *
         (val_at (pf_arg fld) (StrVal t) * str_at (pf_orig fld) t))"
  proof -
    have orig: "hoare (pure (pf_given fld = None \<and> pf_orig fld = 0) * val_at (pf_arg fld) (StrVal t) * str_at tok t)
        (m_bind (store_orig fld (Heap tok) t True) (\<lambda>fld. m_ret (False, fld, n + 1)))
        (\<lambda>(bad, fld, n'). pure (\<not> bad \<and> n' = n + 1) *
           (val_at (pf_arg fld) (StrVal t) * str_at (pf_orig fld) t))" for fld
      unfolding mult.assoc
    proof (rule hoare_pure)
      assume fld: "pf_given fld = None \<and> pf_orig fld = 0"
      show "hoare (val_at (pf_arg fld) (StrVal t) * str_at tok t)
        (m_bind (store_orig fld (Heap tok) t True) (\<lambda>fld. m_ret (False, fld, n + 1)))
        (\<lambda>(bad, fld, n'). pure (\<not> bad \<and> n' = n + 1) *
           (val_at (pf_arg fld) (StrVal t) * str_at (pf_orig fld) t))"
      proof (rule hoare_step [OF hoare_store_orig_kept [of True fld tok t], where R = "val_at (pf_arg fld) (StrVal t)"])
        fix r
        show "hoare (pure (r = fld\<lparr>pf_orig := pf_orig r\<rparr>) * str_at (pf_orig r) t * val_at (pf_arg fld) (StrVal t))
            (m_ret (False, r, n + 1)) (\<lambda>(bad, fld, n'). pure (\<not> bad \<and> n' = n + 1) *
              (val_at (pf_arg fld) (StrVal t) * str_at (pf_orig fld) t))"
          unfolding mult.assoc
        proof (rule hoare_pure)
          assume "r = fld\<lparr>pf_orig := pf_orig r\<rparr>"
          then have "pf_arg r = pf_arg fld" by (metis ptr_field.select_convs(1) ptr_field.surjective ptr_field.update_convs(2))
          then show "hoare (str_at (pf_orig r) t * val_at (pf_arg fld) (StrVal t)) (m_ret (False, r, n + 1))
              (\<lambda>(bad, fld, n'). pure (\<not> bad \<and> n' = n + 1) *
                (val_at (pf_arg fld) (StrVal t) * str_at (pf_orig fld) t))"
            by (intro hoare_ret_eq) (simp add: mult.commute)
        qed
      qed (simp_all add: fld mult.commute)
    qed
    have body: "hoare (str_at tok t)
        (m_bind (store_string ?f0 t True) (\<lambda>fld.
           m_bind (store_orig fld (Heap tok) t True) (\<lambda>fld. m_ret (False, fld, n + 1))))
        (\<lambda>(bad, fld, n'). pure (\<not> bad \<and> n' = n + 1) *
           (val_at (pf_arg fld) (StrVal t) * str_at (pf_orig fld) t))"
      by (rule hoare_step [OF str, where R = "str_at tok t"], simp, rule orig)
    have read: "hoare (str_at tok t) (read_value (Heap tok)) (\<lambda>r. pure (r = t) * str_at tok t)"
      using hoare_read_value [of "Heap tok" t] by (simp add: value_at_def)
    have "hoare (str_at tok t) (m_bind (read_value (Heap tok)) (\<lambda>val.
        m_bind (store_string ?f0 val True) (\<lambda>fld.
           m_bind (store_orig fld (Heap tok) val True) (\<lambda>fld. m_ret (False, fld, n + 1)))))
        (\<lambda>(bad, fld, n'). pure (\<not> bad \<and> n' = n + 1) *
           (val_at (pf_arg fld) (StrVal t) * str_at (pf_orig fld) t))"
      by (rule hoare_bind [OF read]) (rule hoare_pure, use body in simp)
    then show ?thesis by (simp add: update_arg_mem_def Let_def)
  qed
  note upd = this
  have fin: "hoare (pure (\<not> bad \<and> n' = n + 1) * (val_at (pf_arg fld) (StrVal t) * str_at (pf_orig fld) t) * pts p (Node 0 0 q))
      (m_seq (m_store p (Node (case pf_arg fld of PStr a \<Rightarrow> a | _ \<Rightarrow> 0) (pf_orig fld) q)) (m_ret (bad, n')))
      (\<lambda>(bad, n'). pure (\<not> bad \<and> n' = n + 1) *
        some (\<lambda>(a, o1). pts p (Node a o1 q) * (str_at a t * str_at o1 t)))" for bad fld n'
    unfolding mult.assoc
  proof (rule hoare_pure)
    assume b: "\<not> bad \<and> n' = n + 1"
    show "hoare (val_at (pf_arg fld) (StrVal t) * (str_at (pf_orig fld) t * pts p (Node 0 0 q)))
      (m_seq (m_store p (Node (case pf_arg fld of PStr a \<Rightarrow> a | _ \<Rightarrow> 0) (pf_orig fld) q)) (m_ret (bad, n')))
      (\<lambda>(bad, n'). pure (\<not> bad \<and> n' = n + 1) *
        some (\<lambda>(a, o1). pts p (Node a o1 q) * (str_at a t * str_at o1 t)))"
    proof (cases "pf_arg fld")
      case (PStr a)
      have e: "entails (pts p (Node a (pf_orig fld) q) * (str_at a t * str_at (pf_orig fld) t))
          (some (\<lambda>(a, o1). pts p (Node a o1 q) * (str_at a t * str_at o1 t)))"
        by (rule entails_some [where x = "(a, pf_orig fld)"]) simp
      note last = hoare_ret_entails [where Q = "\<lambda>(bad, n'). pure (\<not> bad \<and> n' = n + 1) *
        some (\<lambda>(a, o1). pts p (Node a o1 q) * (str_at a t * str_at o1 t))" and a = "(bad, n')"]
      have "hoare (str_at a t * (str_at (pf_orig fld) t * pts p (Node 0 0 q)))
        (m_seq (m_store p (Node a (pf_orig fld) q)) (m_ret (bad, n')))
        (\<lambda>(bad, n'). pure (\<not> bad \<and> n' = n + 1) *
          some (\<lambda>(a, o1). pts p (Node a o1 q) * (str_at a t * str_at o1 t)))"
        by (rule hoare_step_seq [OF hoare_store [where b = "Node 0 0 q"],
              where R = "str_at a t * str_at (pf_orig fld) t"], simp add: ac_simps, rule last)
          (use b in \<open>simp add: e\<close>)
      with PStr show ?thesis by simp
    qed simp_all
  qed
  have "hoare (pts p (Node 0 0 q) * str_at tok t)
      (m_bind (update_arg_mem ?f0 n (Heap tok) ARG_STRING False True True True) (\<lambda>(bad, fld, n).
         m_seq (m_store p (Node (case pf_arg fld of PStr a \<Rightarrow> a | _ \<Rightarrow> 0) (pf_orig fld) q)) (m_ret (bad, n))))
      (\<lambda>(bad, n'). pure (\<not> bad \<and> n' = n + 1) *
        some (\<lambda>(a, o1). pts p (Node a o1 q) * (str_at a t * str_at o1 t)))"
  proof (rule hoare_step [OF upd, where R = "pts p (Node 0 0 q)"])
    fix r :: "bool \<times> ptr_field \<times> nat"
    obtain bad fld n' where "r = (bad, fld, n')" by (cases r)
    with fin [of bad n' fld]
    show "hoare ((case r of (bad, fld, n') \<Rightarrow> pure (\<not> bad \<and> n' = n + 1) *
            (val_at (pf_arg fld) (StrVal t) * str_at (pf_orig fld) t)) * pts p (Node 0 0 q))
       (case r of (bad, fld, n) \<Rightarrow>
         m_seq (m_store p (Node (case pf_arg fld of PStr a \<Rightarrow> a | _ \<Rightarrow> 0) (pf_orig fld) q)) (m_ret (bad, n)))
      (\<lambda>(bad, n'). pure (\<not> bad \<and> n' = n + 1) *
        some (\<lambda>(a, o1). pts p (Node a o1 q) * (str_at a t * str_at o1 t)))"
      by simp
  qed (rule mult.commute)
  then show ?thesis
    unfolding update_node_def by (intro hoare_load_step [OF refl]) simp
qed

lemma nodes_at_Cons:
  "entails (pts p (Node a o1 q) * (str_at a (node_string f) * (str_at o1 (f_orig f) * nodes_at q fs)))
     (nodes_at p (f # fs))"
  by (simp, rule entails_some [where x = "(a, o1, q)"]) simp

lemma hoare_add_token:
  assumes "\<And>tok l'. hoare (nodes_at l' (node_of t # fs)) (f tok l' (False, n + 1)) Q"
  shows "hoare (nodes_at l fs)
    (m_bind (gengetopt_strdup t) (\<lambda>tok. m_bind (add_node l) (\<lambda>l.
       m_bind (update_node l n (Heap tok) ARG_STRING) (f tok l)))) Q"
proof (rule hoare_step [OF hoare_strdup, where R = "nodes_at l fs"])
  fix tok
  show "hoare (str_at tok t * nodes_at l fs)
    (m_bind (add_node l) (\<lambda>l. m_bind (update_node l n (Heap tok) ARG_STRING) (f tok l))) Q"
    unfolding add_node_def
  proof (rule hoare_step [OF hoare_alloc, where R = "str_at tok t * nodes_at l fs"])
    fix l'
    show "hoare (pts l' (Node 0 0 l) * (str_at tok t * nodes_at l fs))
      (m_bind (update_node l' n (Heap tok) ARG_STRING) (f tok l')) Q"
    proof (rule hoare_step [OF hoare_update_node, where R = "nodes_at l fs"])
      fix r :: "bool \<times> nat"
      obtain bad n' where r: "r = (bad, n')" by (cases r)
      let ?S = "\<lambda>(a, o1). pts l' (Node a o1 l) * (str_at a t * str_at o1 t)"
      have "hoare (some (\<lambda>x. ?S x * nodes_at l fs)) (f tok l' (False, n + 1)) Q"
      proof (rule hoare_some)
        fix x :: "ptr \<times> ptr"
        obtain a o1 where "x = (a, o1)" by (cases x)
        then show "hoare (?S x * nodes_at l fs) (f tok l' (False, n + 1)) Q"
          using hoare_pre [OF nodes_at_Cons [of l' a o1 l "node_of t" fs] assms] by (simp add: mult.assoc)
      qed
      then have "hoare (pure (\<not> bad \<and> n' = n + 1) * some (\<lambda>x. ?S x * nodes_at l fs)) (f tok l' (bad, n')) Q"
        by (intro hoare_pure) simp
      then show "hoare ((case r of (bad, n') \<Rightarrow> pure (\<not> bad \<and> n' = n + 1) * some ?S) * nodes_at l fs) (f tok l' r) Q"
        unfolding r prod.case mult.assoc some_times .
    qed (simp add: mult.assoc)
  qed simp
qed simp

declare add_tokens_mem.simps [simp del]

lemma hoare_add_tokens:
  "hoare (nodes_at l fs) (add_tokens_mem l n prev val)
     (\<lambda>(bad, l', n'). pure (\<not> bad \<and> n' = n + length (tokens_of prev val)) *
        nodes_at l' (rev (map node_of (tokens_of prev val)) @ fs))"
proof (induction "case val of None \<Rightarrow> 0 | Some s \<Rightarrow> length s" arbitrary: l fs n prev val rule: less_induct)
  case less
  show ?case
    unfolding add_tokens_mem.simps [of l n prev val]
  proof (rule hoare_add_token)
    fix tok l'
    let ?t = "get_multiple_arg_token prev val"
    show "hoare (nodes_at l' (node_of ?t # fs))
        (case (False, n + 1) of (bad, prev_given) \<Rightarrow>
           if bad then m_seq (if tok \<noteq> 0 then m_free tok else m_ret ()) (m_ret (True, l', prev_given))
           else (case get_multiple_arg_token_next prev val of
              None \<Rightarrow> m_ret (False, l', prev_given)
            | Some rest \<Rightarrow> add_tokens_mem l' prev_given CHR '','' (Some rest)))
        (\<lambda>(bad, l', n'). pure (\<not> bad \<and> n' = n + length (tokens_of prev val)) *
           nodes_at l' (rev (map node_of (tokens_of prev val)) @ fs))"
    proof (cases "get_multiple_arg_token_next prev val")
      case None
      then show ?thesis
        by (simp add: tokens_of.simps [of prev] hoare_ret_eq del: nodes_at.simps)
    next
      case (Some rest)
      from next_shorter [OF this] less [of "Some rest" l' "node_of ?t # fs" "n + 1" "CHR '',''"] Some
      show ?thesis
        by (auto simp: tokens_of.simps [of prev] simp del: nodes_at.simps)
    qed
  qed
qed

lemma hoare_free_step:
  assumes "P = str_at p v * R" and "hoare R d Q"
  shows "hoare P (m_seq (if p \<noteq> 0 then m_free p else m_ret ()) d) Q"
  by (rule hoare_step_seq [OF hoare_free_some assms(1)]) (simp add: assms(2))

text \<open>Freeing a list.\<close>

lemma hoare_free_nodes:
  "length fs \<le> n \<Longrightarrow> hoare (nodes_at p fs) (free_nodes n p True) (\<lambda>_. 1)"
proof (induction fs arbitrary: n p)
  case Nil
  show ?case by (cases n; cases "p = 0") (simp_all add: hoare_skip)
next
  case (Cons f fs)
  then obtain k where n: "n = Suc k" and k: "length fs \<le> k" by (cases n) auto
  have "hoare (pts p (Node a o1 q) * (str_at a (node_string f) * (str_at o1 (f_orig f) * nodes_at q fs)))
      (free_nodes n p True) (\<lambda>_. 1)" for a o1 q
  proof (cases "p = 0")
    case False
    have 3: "hoare (pts p (Node a o1 q) * nodes_at q fs) (m_seq (m_free p) (free_nodes k q True)) (\<lambda>_. 1)"
      by (rule hoare_step_seq [OF hoare_free refl]) (simp add: Cons.IH [OF k])
    have 2: "hoare (pts p (Node a o1 q) * (str_at o1 (f_orig f) * nodes_at q fs))
        (m_seq (if o1 \<noteq> 0 then m_free o1 else m_ret ()) (m_seq (m_free p) (free_nodes k q True))) (\<lambda>_. 1)"
      by (rule hoare_free_step [OF mult.left_commute 3])
    have 1: "hoare (pts p (Node a o1 q) * (str_at a (node_string f) * (str_at o1 (f_orig f) * nodes_at q fs)))
        (m_seq (if a \<noteq> 0 then m_free a else m_ret ())
        (m_seq (if o1 \<noteq> 0 then m_free o1 else m_ret ()) (m_seq (m_free p) (free_nodes k q True)))) (\<lambda>_. 1)"
      by (rule hoare_free_step [OF mult.left_commute 2])
    show ?thesis
      unfolding n using False 1 by (simp, intro hoare_load_step [OF refl]) simp
  qed simp
  then show ?case by (auto intro!: hoare_some)
qed

text \<open>A list has at most as many nodes as the heap has blocks.\<close>

lemma nodes_at_length:
  "holds (nodes_at p fs * F) h \<Longrightarrow> finite (dom h) \<Longrightarrow> length fs \<le> card (dom h)"
proof (induction fs arbitrary: p F h)
  case (Cons f fs)
  from Cons.prems(1) obtain a o1 q where
    "holds (pts p (Node a o1 q) * (nodes_at q fs * (str_at a (node_string f) * str_at o1 (f_orig f) * F))) h"
    by (auto simp: some_times mult.assoc) (metis mult.assoc mult.commute)
  then have p: "p \<in> dom h"
    and rest: "holds (nodes_at q fs * (str_at a (node_string f) * str_at o1 (f_orig f) * F)) (h(p := None))"
    by (auto simp: split_pts)
  have "finite (dom (h(p := None)))" using Cons.prems(2) by simp
  from Cons.IH [OF rest this] have "length fs \<le> card (dom h - {p})" by (simp only: dom_fun_upd if_True simp_thms)
  with card_Suc_Diff1 [OF Cons.prems(2) p] show ?case by simp
qed simp

lemma hoare_free_list: "hoare (nodes_at p fs) (free_list p True) (\<lambda>_. 1)"
proof (rule hoareI)
  fix F m assume h: "holds (nodes_at p fs * F) (blocks m)" and m: "fresh m"
  from m have dom: "dom (blocks m) \<subseteq> {1..<brk m}" by (simp add: fresh_def)
  from finite_subset [OF dom] have "finite (dom (blocks m))" by simp
  from nodes_at_length [OF h this] card_mono [OF _ dom] have "length fs \<le> brk m" by simp
  from hoareE [OF hoare_free_nodes [OF this, of p] h m]
  show "\<exists>r m'. free_list p True m = Some (r, m') \<and> holds (1 * F) (blocks m') \<and> fresh m'"
    by (metis free_list_def)
qed

section \<open>Arrays\<close>

fun strs_at :: "ptr list \<Rightarrow> cstring option list \<Rightarrow> assn" where
  "strs_at [] vs = pure (vs = [])"
| "strs_at (p # ps) vs = (case vs of [] \<Rightarrow> pure False | v # vs \<Rightarrow> str_at p v * strs_at ps vs)"

text \<open>An array that holds some pointers, and then pointers to the strings.\<close>

definition seg_at :: "ptr \<Rightarrow> ptr list \<Rightarrow> cstring option list \<Rightarrow> assn" where
  "seg_at p us vs = some (\<lambda>ps. pts p (Ptrs (us @ ps)) * strs_at ps vs)"

lemma strs_at_Nil: "strs_at ps [] = pure (ps = [])"
  by (cases ps) simp_all

lemma seg_at_Nil: "seg_at p us [] = pts p (Ptrs us)"
  using some_pure_eq [of "\<lambda>ps. pts p (Ptrs (us @ ps))" "[]"] by (simp add: seg_at_def strs_at_Nil)

lemma hoare_store_at:
  "hoare (seg_at p (us @ [u]) vs * str_at q v) (store_at p (length us) q) (\<lambda>_. seg_at p us (v # vs))"
proof -
  have "hoare (pts p (Ptrs (us @ u # ps)) * (strs_at ps vs * str_at q v)) (store_at p (length us) q)
     (\<lambda>_. seg_at p us (v # vs))" for ps
  proof -
    have e: "entails (pts p (Ptrs (us @ q # ps)) * (strs_at ps vs * str_at q v)) (seg_at p us (v # vs))"
      unfolding seg_at_def by (rule entails_some [where x = "q # ps"]) (simp add: ac_simps)
    have "hoare (pts p (Ptrs (us @ u # ps)) * (strs_at ps vs * str_at q v))
        (m_store p (Ptrs (us @ q # ps))) (\<lambda>_. seg_at p us (v # vs))"
      by (rule hoare_post [OF hoare_frame [OF hoare_store]]) (rule e)
    then show ?thesis unfolding store_at_def by (intro hoare_load_step [OF refl]) simp
  qed
  then show ?thesis by (auto simp: seg_at_def [of p "us @ [u]"] some_times mult.assoc intro!: hoare_some)
qed

lemma hoare_free_at:
  "hoare (seg_at p us (v # vs)) (free_at p (length us)) (\<lambda>_. seg_at p (us @ [0]) vs)"
proof -
  have "hoare (pts p (Ptrs (us @ ps)) * strs_at ps (v # vs)) (free_at p (length us)) (\<lambda>_. seg_at p (us @ [0]) vs)" for ps
  proof (cases ps)
    case (Cons q qs)
    have e: "entails (pts p (Ptrs (us @ 0 # qs)) * strs_at qs vs) (seg_at p (us @ [0]) vs)"
      unfolding seg_at_def by (rule entails_some [where x = qs]) simp
    have "hoare (pts p (Ptrs (us @ q # qs)) * (str_at q v * strs_at qs vs))
      (m_bind (free_string_field q) (\<lambda>s. m_store p (Ptrs (us @ s # qs)))) (\<lambda>_. seg_at p (us @ [0]) vs)"
    proof (rule hoare_step [OF hoare_free_string_field mult.left_commute], rule hoare_pure)
      fix s :: ptr assume "s = 0"
      then show "hoare (pts p (Ptrs (us @ q # qs)) * strs_at qs vs) (m_store p (Ptrs (us @ s # qs)))
          (\<lambda>_. seg_at p (us @ [0]) vs)"
        using hoare_post [OF hoare_frame [OF hoare_store] e] by simp
    qed
    then show ?thesis unfolding Cons free_at_def strs_at.simps list.case
      by (intro hoare_load_step [OF refl]) (simp add: mult.assoc)
  qed simp
  then show ?thesis by (simp only: seg_at_def [of p us "v # vs"] hoare_some)
qed

lemma hoare_free_at_NULL: "hoare (pts p (Ptrs (0 # us))) (free_at p 0) (\<lambda>_. pts p (Ptrs (0 # us)))"
  unfolding free_at_def
  by (rule hoare_load_step [where R = 1], simp) (simp add: free_string_field_def hoare_store)

lemma hoare_fill:
  assumes "length us = length fs" and "length xs = length fs"
  shows "hoare (nodes_at l fs * (seg_at a us vs * seg_at o1 xs ys)) (fill_mem (length fs) 0 l a o1)
     (\<lambda>_. seg_at a [] (map node_string (rev fs) @ vs) * seg_at o1 [] (map f_orig (rev fs) @ ys))"
  using assms
proof (induction fs arbitrary: l us xs vs ys)
  case Nil
  then show ?case by (cases "l = 0") (simp_all add: hoare_skip)
next
  case (Cons f fs)
  obtain us' u where us: "us = us' @ [u]" and lu: "length us' = length fs"
    using Cons.prems(1) by (cases us rule: rev_cases) auto
  obtain xs' w where xs: "xs = xs' @ [w]" and lw: "length xs' = length fs"
    using Cons.prems(2) by (cases xs rule: rev_cases) auto
  let ?Q = "\<lambda>_ :: unit. seg_at a [] (map node_string (rev (f # fs)) @ vs) * seg_at o1 [] (map f_orig (rev (f # fs)) @ ys)"
  have IH: "hoare (nodes_at q fs * (seg_at a us' (node_string f # vs) * seg_at o1 xs' (f_orig f # ys)))
      (fill_mem (length fs) 0 q a o1) ?Q" for q
    using Cons.IH [OF lu lw, of q "node_string f # vs" "f_orig f # ys"] by simp
  have sa: "hoare (seg_at a us vs * str_at s v) (store_at a (length fs) s) (\<lambda>_. seg_at a us' (v # vs))" for s v
    using hoare_store_at [of a us' u vs s v] by (simp add: us lu)
  have so: "hoare (seg_at o1 xs ys * str_at s v) (store_at o1 (length fs) s) (\<lambda>_. seg_at o1 xs' (v # ys))" for s v
    using hoare_store_at [of o1 xs' w ys s v] by (simp add: xs lw)
  have "hoare (pts l (Node s g q) * (str_at s (node_string f) * (str_at g (f_orig f) * nodes_at q fs)) *
      (seg_at a us vs * seg_at o1 xs ys)) (fill_mem (Suc (length fs)) 0 l a o1) ?Q" for s g q
  proof -
    let ?A = "seg_at a us' (node_string f # vs)" and ?B = "seg_at o1 xs' (f_orig f # ys)"
    have 3: "hoare (pts l (Node s g q) * (nodes_at q fs * (?A * ?B)))
        (m_seq (m_free l) (fill_mem (length fs) 0 q a o1)) ?Q"
      by (rule hoare_step_seq [OF hoare_free refl]) (simp only: mult_1_left IH)
    have 2: "hoare (?A * (pts l (Node s g q) * (nodes_at q fs * (seg_at o1 xs ys * str_at g (f_orig f)))))
        (m_seq (store_at o1 (length fs) g) (m_seq (m_free l) (fill_mem (length fs) 0 q a o1))) ?Q"
      by (rule hoare_step_seq [OF so [of g "f_orig f"], where R = "pts l (Node s g q) * (nodes_at q fs * ?A)"])
        (use 3 in \<open>simp_all only: ac_simps\<close>)
    have 1: "hoare (pts l (Node s g q) * ((str_at s (node_string f) * (str_at g (f_orig f) * nodes_at q fs)) *
        (seg_at a us vs * seg_at o1 xs ys)))
        (m_seq (store_at a (length fs) s)
        (m_seq (store_at o1 (length fs) g) (m_seq (m_free l) (fill_mem (length fs) 0 q a o1)))) ?Q"
      by (rule hoare_step_seq [OF sa [of s "node_string f"], where R = "pts l (Node s g q) * (nodes_at q fs * (seg_at o1 xs ys * str_at g (f_orig f)))"])
        (use 2 in \<open>simp_all only: ac_simps\<close>)
    then show ?thesis
      unfolding fill_mem.simps mult.assoc by (intro hoare_load_step [OF refl]) (simp add: mult.assoc)
  qed
  note node = this
  show ?case
    unfolding nodes_at.simps some_times list.size add_Suc_right add_0_right One_nat_def
  proof (rule hoare_some)
    fix x :: "ptr \<times> ptr \<times> ptr"
    obtain s g q where "x = (s, g, q)" by (cases x)
    with node [of s g q]
    show "hoare ((case x of (s, g, q) \<Rightarrow> pts l (Node s g q) *
          (str_at s (node_string f) * (str_at g (f_orig f) * nodes_at q fs))) *
        (seg_at a us vs * seg_at o1 xs ys)) (fill_mem (Suc (length fs)) 0 l a o1) ?Q"
      by (simp only: prod.case)
  qed
qed

lemma nodes_at_NULL [simp]: "nodes_at 0 fs = pure (fs = [])"
  by (cases fs) (simp_all add: split_def some_False)

lemma seg_at_NULL [simp]: "seg_at 0 us vs = pure False"
  by (simp add: seg_at_def some_False)

text \<open>Both arrays of an option; they are NULL when there are no values.\<close>

definition arrays_at :: "ptr \<Rightarrow> ptr \<Rightarrow> cstring option list \<Rightarrow> cstring option list \<Rightarrow> assn" where
  "arrays_at p q vs ys = (if vs = [] then pure (p = 0 \<and> q = 0) else seg_at p [] vs * seg_at q [] ys)"

definition multi_at :: "ptr_multi \<Rightarrow> multi_field \<Rightarrow> assn" where
  "multi_at pm mf = pure (pm_given pm = mf_given mf) *
     arrays_at (pm_arg pm) (pm_orig pm) (mf_arg mf) (mf_orig mf)"

lemma hoare_one_place:
  "hoare (pts a (Ptrs [junk]) * str_at q v) (m_seq (store_at a 0 q) (m_ret a)) (\<lambda>r. seg_at r [] [v])"
  by (rule hoare_step_seq [OF hoare_store_at [of a "[]" junk "[]" q v, simplified], where R = 1])
    (simp_all add: seg_at_Nil hoare_ret_eq)

lemma hoare_default_arg:
  "hoare 1 (m_bind (m_alloc (Ptrs [junk])) (\<lambda>a. m_bind (gengetopt_strdup d) (\<lambda>s. m_seq (store_at a 0 s) (m_ret a))))
     (\<lambda>a. seg_at a [] [d])"
proof (rule hoare_step [OF hoare_alloc, where R = 1])
  fix a
  show "hoare (pts a (Ptrs [junk]) * 1) (m_bind (gengetopt_strdup d) (\<lambda>s. m_seq (store_at a 0 s) (m_ret a)))
      (\<lambda>a. seg_at a [] [d])"
    by (rule hoare_step [OF hoare_strdup, where R = "pts a (Ptrs [junk])"])
      (simp_all add: hoare_one_place mult.commute [of "str_at _ _"])
qed simp

lemma hoare_default_orig:
  "hoare 1 (m_bind (m_alloc (Ptrs [junk])) (\<lambda>a. m_seq (store_at a 0 0) (m_ret a))) (\<lambda>a. seg_at a [] [None])"
  by (rule hoare_step [OF hoare_alloc, where R = 1]) (use hoare_one_place [where q = 0 and v = None] in simp_all)

lemma hoare_update_multiple:
  assumes "pm_arg pm = 0" and "pm_orig pm = 0" and "pm_given pm = 0"
  shows "hoare (nodes_at l (rev (map node_of ts))) (update_multiple_arg_mem junk pm (length ts) d l)
    (\<lambda>pm'. pure (pm_given pm' = 0) *
       arrays_at (pm_arg pm') (pm_orig pm') (if ts = [] \<and> d \<noteq> None then [d] else ts)
         (if ts = [] \<and> d \<noteq> None then [None] else ts))"
proof (cases ts)
  case Nil
  show ?thesis
  proof (cases d)
    case None
    with Nil assms show ?thesis
      by (cases "l = 0") (simp_all add: update_multiple_arg_mem_def arrays_at_def hoare_ret_eq)
  next
    case (Some s)
    let ?Q = "\<lambda>pm'. pure (pm_given pm' = 0) * (seg_at (pm_arg pm') [] [d] * seg_at (pm_orig pm') [] [None])"
    let ?a = "m_bind (m_alloc (Ptrs [junk])) (\<lambda>a. m_bind (gengetopt_strdup d) (\<lambda>s. m_seq (store_at a 0 s) (m_ret a)))"
    and ?o = "m_bind (m_alloc (Ptrs [junk])) (\<lambda>a. m_seq (store_at a 0 0) (m_ret a))"
    have "hoare 1 (m_bind ?a (\<lambda>a. m_bind ?o (\<lambda>q. m_ret (pm\<lparr>pm_arg := a, pm_orig := q\<rparr>)))) ?Q"
    proof (rule hoare_step [OF hoare_default_arg, where R = 1])
      fix a
      show "hoare (seg_at a [] [d] * 1) (m_bind ?o (\<lambda>q. m_ret (pm\<lparr>pm_arg := a, pm_orig := q\<rparr>))) ?Q"
        by (rule hoare_step [OF hoare_default_orig, where R = "seg_at a [] [d]"])
          (use assms in \<open>simp_all add: hoare_ret_eq mult.commute\<close>)
    qed simp
    with Nil Some assms show ?thesis
      by (cases "l = 0") (simp_all add: update_multiple_arg_mem_def arrays_at_def)
  qed
next
  case (Cons t ts')
  let ?fs = "rev (map node_of ts)" and ?xs = "replicate (length ts) junk"
  let ?Q = "\<lambda>pm'. pure (pm_given pm' = 0) * (seg_at (pm_arg pm') [] ts * seg_at (pm_orig pm') [] ts)"
  have fill: "hoare (nodes_at l ?fs * (pts a (Ptrs ?xs) * pts q (Ptrs ?xs))) (fill_mem (length ts) 0 l a q)
      (\<lambda>_. seg_at a [] ts * seg_at q [] ts)" for a q
    using hoare_fill [of ?xs ?fs ?xs l a "[]" q "[]"]
    by (simp add: seg_at_Nil rev_map [symmetric] comp_def)
  have "hoare (nodes_at l ?fs)
      (m_bind (m_alloc (Ptrs ?xs)) (\<lambda>q. m_bind (m_alloc (Ptrs ?xs)) (\<lambda>a.
         m_seq (fill_mem (length ts) 0 l a q) (m_ret (pm\<lparr>pm_arg := a, pm_orig := q\<rparr>))))) ?Q"
  proof (rule hoare_step [OF hoare_alloc, where R = "nodes_at l ?fs"])
    fix q
    show "hoare (pts q (Ptrs ?xs) * nodes_at l ?fs) (m_bind (m_alloc (Ptrs ?xs)) (\<lambda>a.
         m_seq (fill_mem (length ts) 0 l a q) (m_ret (pm\<lparr>pm_arg := a, pm_orig := q\<rparr>)))) ?Q"
    proof (rule hoare_step [OF hoare_alloc, where R = "pts q (Ptrs ?xs) * nodes_at l ?fs"])
      fix a
      show "hoare (pts a (Ptrs ?xs) * (pts q (Ptrs ?xs) * nodes_at l ?fs))
        (m_seq (fill_mem (length ts) 0 l a q) (m_ret (pm\<lparr>pm_arg := a, pm_orig := q\<rparr>))) ?Q"
        by (rule hoare_step_seq [OF fill, where R = 1])
          (use assms in \<open>simp_all add: ac_simps hoare_ret_eq del: rev_map\<close>)
    qed simp
  qed simp
  with Cons assms show ?thesis
    by (cases "l = 0") (simp_all add: update_multiple_arg_mem_def realloc_mem_def arrays_at_def)
qed

text \<open>Freeing the arrays: all of their strings, or the default string.\<close>

lemma hoare_free_each:
  "\<lbrakk>length us = i; length xs = i; length ys = length vs\<rbrakk> \<Longrightarrow>
   hoare (seg_at p us vs * seg_at q xs ys) (free_each i (length vs) p q)
     (\<lambda>_. pts p (Ptrs (us @ replicate (length vs) 0)) * pts q (Ptrs (xs @ replicate (length vs) 0)))"
proof (induction vs arbitrary: i us xs ys)
  case Nil
  then show ?case by (simp add: seg_at_Nil hoare_skip)
next
  case (Cons v vs)
  then obtain y ys' where y: "ys = y # ys'" "length ys' = length vs" by (cases ys) auto
  let ?Q = "\<lambda>_ :: unit. pts p (Ptrs (us @ replicate (length (v # vs)) 0)) * pts q (Ptrs (xs @ replicate (length (v # vs)) 0))"
  have fp: "hoare (seg_at p us (v # vs)) (free_at p i) (\<lambda>_. seg_at p (us @ [0]) vs)"
    using hoare_free_at [of p us v vs] Cons.prems by simp
  have fq: "hoare (seg_at q xs (y # ys')) (free_at q i) (\<lambda>_. seg_at q (xs @ [0]) ys')"
    using hoare_free_at [of q xs y ys'] Cons.prems by simp
  have IH: "hoare (seg_at q (xs @ [0]) ys' * seg_at p (us @ [0]) vs) (free_each (i + 1) (length vs) p q) ?Q"
    using Cons.IH [of "us @ [0]" "i + 1" "xs @ [0]" ys'] Cons.prems y(2)
    by (simp add: mult.commute [of "seg_at q _ _"])
  have "hoare (seg_at p us (v # vs) * seg_at q xs (y # ys'))
      (m_seq (free_at p i) (m_seq (free_at q i) (free_each (i + 1) (length vs) p q))) ?Q"
    by (rule hoare_step_seq [OF fp refl], rule hoare_step_seq [OF fq mult.commute IH])
  then show ?case by (simp add: y)
qed

lemma hoare_free_multiple:
  assumes "length ys = length vs" and "n = length vs \<or> n = 0 \<and> length vs = 1 \<and> ys = [None]"
  shows "hoare (arrays_at p q vs ys) (free_multiple_string_field n p q) (\<lambda>r. pure (r = (0, 0)))"
proof (cases "p = 0")
  case True
  then show ?thesis
    by (cases "q = 0") (auto simp: arrays_at_def free_multiple_string_field_def hoare_ret_eq)
next
  case p: False
  show ?thesis
  proof (cases vs)
    case Nil
    with p show ?thesis by (simp add: arrays_at_def)
  next
    case (Cons v ws')
    let ?rest = "m_seq (m_free p) (m_seq (m_free q) (m_ret (0, 0)))"
    have rest: "hoare (pts p (Ptrs us) * pts q (Ptrs xs)) ?rest (\<lambda>r. pure (r = (0, 0)))" for us xs
    proof (rule hoare_step_seq [OF hoare_free refl])
      show "hoare (1 * pts q (Ptrs xs)) (m_seq (m_free q) (m_ret (0, 0))) (\<lambda>r. pure (r = (0, 0)))"
        by (rule hoare_step_seq [OF hoare_free [where b = "Ptrs xs"], where R = 1]) (simp_all add: hoare_ret_eq)
    qed
    have "hoare (seg_at p [] vs * seg_at q [] ys) (m_seq (free_each 0 n p q) (m_seq (free_at p 0) ?rest))
        (\<lambda>r. pure (r = (0, 0)))"
    proof (cases "n = length vs")
      case True
      have one: "hoare (pts p (Ptrs (replicate n 0)) * pts q (Ptrs (replicate n 0))) (m_seq (free_at p 0) ?rest)
          (\<lambda>r. pure (r = (0, 0)))"
        using hoare_free_at_NULL [of p "replicate (length ws') 0"] True Cons
        by (intro hoare_step_seq [OF _ refl rest [of "replicate n 0"]]) simp
      have "hoare (seg_at p [] vs * seg_at q [] ys) (free_each 0 n p q)
          (\<lambda>_. pts p (Ptrs (replicate n 0)) * pts q (Ptrs (replicate n 0)))"
        using hoare_free_each [of "[]" 0 "[]" ys vs p q] assms(1) True by simp
      from hoare_seq [OF this one] show ?thesis .
    next
      case False
      with assms(2) Cons have d: "n = 0" "vs = [v]" "ys = [None]" by auto
      have "hoare (seg_at p [] vs) (free_at p 0) (\<lambda>_. pts p (Ptrs [0]))"
        using hoare_free_at [of p "[]" v "[]"] d(2) by (simp add: seg_at_Nil)
      moreover have "hoare (pts p (Ptrs [0]) * seg_at q [] ys) ?rest (\<lambda>r. pure (r = (0, 0)))"
      proof -
        have "hoare (some (\<lambda>ps. pts q (Ptrs ps) * strs_at ps [None]) * pts p (Ptrs [0])) ?rest (\<lambda>r. pure (r = (0, 0)))"
          unfolding some_times
        proof (rule hoare_some)
          fix ps
          show "hoare (pts q (Ptrs ps) * strs_at ps [None] * pts p (Ptrs [0])) ?rest (\<lambda>r. pure (r = (0, 0)))"
          proof (cases "ps = [0]")
            case True
            then show ?thesis using rest [of "[0]" ps] by (simp add: mult.commute)
          next
            case False
            then have "strs_at ps [None] = pure False"
              by (cases ps) (auto simp: strs_at_Nil pure_conj)
            then show ?thesis by simp
          qed
        qed
        then show ?thesis unfolding seg_at_def d(3) by (simp add: mult.commute)
      qed
      ultimately show ?thesis
        unfolding d(1) free_each.simps m_seq_ret by (rule hoare_step_seq [OF _ refl])
    qed
    with p Cons show ?thesis by (simp add: arrays_at_def free_multiple_string_field_def)
  qed
qed

end
