(* ===== verification/Cmdline_Parser_Memory.thy ===== *)
theory Cmdline_Parser_Memory
  imports Cmdline_Memory
begin

text \<open>
  The parser of Cmdline_Memory as a whole: structures own what the values of
  Cmdline say, releasing them leaves nothing, every round of the parser keeps
  this, and so the parser neither leaks nor misuses memory.
\<close>

section \<open>Whole structures\<close>

instance single :: finite
proof
  have "UNIV = {O_chroot, O_chdir, O_hostname, O_user, O_ephemeral, O_detach, O_attach, O_keepenv, O_no_userns,
      O_no_mountns, O_no_netns, O_no_ipcns, O_no_utsns, O_no_pidns}" by (auto intro: single.exhaust)
  then show "finite (UNIV :: single set)" by (rule ssubst) simp
qed

instance multi :: finite
proof
  have "UNIV = {M_mount, M_netif, M_user_map, M_cgroup, M_caps, M_setenv}" by (auto intro: multi.exhaust)
  then show "finite (UNIV :: multi set)" by (rule ssubst) simp
qed

definition info_at :: "ptr_info \<Rightarrow> (single \<Rightarrow> field) \<Rightarrow> (multi \<Rightarrow> multi_field) \<Rightarrow> assn" where
  "info_at pi F M = each field_at (pi_single pi) F * each multi_at (pi_multi pi) M"

text \<open>Release: strings become NULL; for the arrays, the counter must fit.\<close>

definition released :: "field \<Rightarrow> field" where
  "released f = f\<lparr>f_arg := (case f_arg f of StrVal s \<Rightarrow> StrVal None | v \<Rightarrow> v), f_orig := None\<rparr>"

definition released_multi :: "multi_field \<Rightarrow> multi_field" where
  "released_multi mf = mf\<lparr>mf_arg := [], mf_orig := []\<rparr>"

definition counted :: "multi_field \<Rightarrow> bool" where
  "counted mf \<longleftrightarrow> mf_arg mf = [] \<or> length (mf_orig mf) = length (mf_arg mf) \<and>
     (mf_given mf = length (mf_arg mf) \<or> mf_given mf = 0 \<and> length (mf_arg mf) = 1 \<and> mf_orig mf = [None])"

lemma hoare_free_arg:
  "hoare (val_at pv v) (case pv of PStr p \<Rightarrow> m_bind (free_string_field p) (\<lambda>p. m_ret (PStr p)) | v \<Rightarrow> m_ret v)
     (\<lambda>r. val_at r (case v of StrVal s \<Rightarrow> StrVal None | v \<Rightarrow> v))"
proof (cases pv)
  case (PStr p)
  show ?thesis
  proof (cases v)
    case (StrVal s)
    have "hoare (str_at p s) (m_bind (free_string_field p) (\<lambda>p. m_ret (PStr p))) (\<lambda>r. val_at r (StrVal None))"
      by (rule hoare_step [OF hoare_free_string_field, where R = 1]) (simp_all add: hoare_ret_eq)
    with PStr StrVal show ?thesis by simp
  qed (simp_all add: PStr)
qed (cases v; simp add: hoare_ret_eq)+

lemma hoare_release_single:
  "hoare (info_at pi F M) (release_single pi s) (\<lambda>pi'. info_at pi' (F(s := released (F s))) M)"
proof -
  let ?fld = "pi_single pi s"
  let ?R = "others field_at (pi_single pi) F s * each multi_at (pi_multi pi) M"
  let ?Q = "\<lambda>pi'. info_at pi' (F(s := released (F s))) M"
  let ?v = "case f_arg (F s) of StrVal s \<Rightarrow> StrVal None | v \<Rightarrow> v"
  have fin: "hoare (pure (orig = 0) * (val_at arg ?v * ?R))
      (m_ret (pi\<lparr>pi_single := (pi_single pi)(s := ?fld\<lparr>pf_arg := arg, pf_orig := orig\<rparr>)\<rparr>)) ?Q"
    if "pf_given ?fld = f_given (F s)" for arg orig
  proof (rule hoare_pure)
    assume "orig = 0"
    then show "hoare (val_at arg ?v * ?R)
        (m_ret (pi\<lparr>pi_single := (pi_single pi)(s := ?fld\<lparr>pf_arg := arg, pf_orig := orig\<rparr>)\<rparr>)) ?Q"
      using that by (intro hoare_ret_eq)
        (simp add: info_at_def each_upd [where h = F] field_at_def released_def mult.assoc)
  qed
  have "hoare (pure (pf_given ?fld = f_given (F s)) * (val_at (pf_arg ?fld) (f_arg (F s)) * (str_at (pf_orig ?fld) (f_orig (F s)) * ?R)))
      (release_single pi s) ?Q"
  proof (rule hoare_pure)
    assume g: "pf_given ?fld = f_given (F s)"
    show "hoare (val_at (pf_arg ?fld) (f_arg (F s)) * (str_at (pf_orig ?fld) (f_orig (F s)) * ?R)) (release_single pi s) ?Q"
      unfolding release_single_def Let_def
    proof (rule hoare_step [OF hoare_free_arg refl])
      fix arg
      show "hoare (val_at arg ?v * (str_at (pf_orig ?fld) (f_orig (F s)) * ?R))
        (m_bind (free_string_field (pf_orig ?fld)) (\<lambda>orig.
          m_ret (pi\<lparr>pi_single := (pi_single pi)(s := ?fld\<lparr>pf_arg := arg, pf_orig := orig\<rparr>)\<rparr>))) ?Q"
        by (rule hoare_step [OF hoare_free_string_field mult.left_commute fin [OF g]])
    qed
  qed
  then show ?thesis
    by (simp add: info_at_def each_split [where a = s and h = F] field_at_def mult.assoc)
qed

lemma hoare_release_multi:
  assumes "counted (M m)"
  shows "hoare (info_at pi F M) (release_multi pi m) (\<lambda>pi'. info_at pi' F (M(m := released_multi (M m))))"
proof -
  let ?pm = "pi_multi pi m"
  let ?R = "each field_at (pi_single pi) F * others multi_at (pi_multi pi) M m"
  let ?Q = "\<lambda>pi'. info_at pi' F (M(m := released_multi (M m)))"
  let ?A = "arrays_at (pm_arg ?pm) (pm_orig ?pm) (mf_arg (M m)) (mf_orig (M m))"
  have "hoare (pure (pm_given ?pm = mf_given (M m)) * (?A * ?R)) (release_multi pi m) ?Q"
  proof (rule hoare_pure)
    assume g: "pm_given ?pm = mf_given (M m)"
    have free: "hoare ?A (free_multiple_string_field (pm_given ?pm) (pm_arg ?pm) (pm_orig ?pm)) (\<lambda>r. pure (r = (0, 0)))"
    proof (cases "mf_arg (M m) = []")
      case True
      then show ?thesis
        by (cases "pm_arg ?pm = 0"; cases "pm_orig ?pm = 0")
          (simp_all add: arrays_at_def free_multiple_string_field_def hoare_ret_eq)
    next
      case False
      with assms g show ?thesis by (intro hoare_free_multiple) (auto simp: counted_def)
    qed
    show "hoare (?A * ?R) (release_multi pi m) ?Q"
      unfolding release_multi_def Let_def
    proof (rule hoare_step [OF free refl], rule hoare_pure)
      fix r :: "ptr \<times> ptr" assume "r = (0, 0)"
      then show "hoare ?R (case r of (arg, orig) \<Rightarrow>
          m_ret (pi\<lparr>pi_multi := (pi_multi pi)(m := ?pm\<lparr>pm_arg := arg, pm_orig := orig\<rparr>)\<rparr>)) ?Q"
        using g by (simp, intro hoare_ret_eq)
          (simp add: info_at_def each_upd [where h = M] multi_at_def arrays_at_def released_multi_def)
    qed
  qed
  then show ?thesis
    by (simp add: info_at_def each_split [where a = m and h = M] multi_at_def ac_simps)
qed

lemma counted_released [simp]: "counted (released_multi mf)"
  by (simp add: counted_def released_multi_def)

lemma released_again [simp]: "released (released f) = released f"
  by (simp add: released_def split: field_val.split)

lemma released_multi_again [simp]: "released_multi (released_multi mf) = released_multi mf"
  by (simp add: released_multi_def)

lemma hoare_release_fold:
  "(\<And>m. counted (M m)) \<Longrightarrow>
   hoare (info_at pi F M)
     (m_fold (\<lambda>pi x. case x of Inl s \<Rightarrow> release_single pi s | Inr m \<Rightarrow> release_multi pi m) pi xs)
     (\<lambda>pi'. info_at pi' (\<lambda>s. if Inl s \<in> set xs then released (F s) else F s)
        (\<lambda>m. if Inr m \<in> set xs then released_multi (M m) else M m))"
proof (induction xs arbitrary: pi F M)
  case Nil
  show ?case by (simp add: hoare_ret_eq)
next
  case (Cons x xs)
  show ?case
  proof (cases x)
    case (Inl s)
    have F: "(\<lambda>s'. if Inl s' \<in> set xs then released ((F(s := released (F s))) s') else (F(s := released (F s))) s') =
        (\<lambda>s'. if Inl s' \<in> set (x # xs) then released (F s') else F s')"
      using Inl by (auto simp: fun_eq_iff)
    from hoare_bind [OF hoare_release_single Cons.IH [where F = "F(s := released (F s))"]] Cons.prems Inl
    show ?thesis by (simp only: m_fold.simps sum.case F) simp
  next
    case (Inr m)
    have M: "(\<lambda>m'. if Inr m' \<in> set xs then released_multi ((M(m := released_multi (M m))) m') else (M(m := released_multi (M m))) m') =
        (\<lambda>m'. if Inr m' \<in> set (x # xs) then released_multi (M m') else M m')"
      using Inr by (auto simp: fun_eq_iff)
    have "counted ((M(m := released_multi (M m))) m')" for m' using Cons.prems by simp
    from hoare_bind [OF hoare_release_multi [OF Cons.prems] Cons.IH [OF this]] Inr
    show ?thesis by (simp only: m_fold.simps sum.case M) simp
  qed
qed

text \<open>The fields of a structure have the types of their options; a flag has no original value.\<close>

definition typed :: "(single \<Rightarrow> field) \<Rightarrow> bool" where
  "typed F \<longleftrightarrow> (\<forall>s. kind (arg_type_of s) (f_arg (F s)) \<and> (arg_type_of s = ARG_FLAG \<longrightarrow> f_orig (F s) = None))"

lemma hoare_release:
  assumes "typed F" and "\<And>m. counted (M m)"
  shows "hoare (info_at pi F M) (cmdline_parser_release pi) (\<lambda>_. 1)"
proof -
  let ?F = "\<lambda>s. if Inl s \<in> set release_order then released (F s) else F s"
  let ?M = "\<lambda>m. if Inr m \<in> set release_order then released_multi (M m) else M m"
  have f: "entails (field_at (pi_single pi' s) (?F s)) 1" for pi' s
  proof -
    have "kind (arg_type_of s) (f_arg (F s)) \<and> (arg_type_of s = ARG_FLAG \<longrightarrow> f_orig (F s) = None)"
      using assms(1) by (simp add: typed_def)
    then have "f_orig (?F s) = None \<and> (\<forall>x. f_arg (?F s) \<noteq> StrVal (Some x))"
      by (cases s) (auto simp: release_order_def arg_type_of_def released_def kind_def split: field_val.splits)
    then show ?thesis
      by (cases "pf_arg (pi_single pi' s)")
        (auto simp: field_at_def pure_conj str_at_def split: field_val.split option.split)
  qed
  have m: "entails (multi_at (pi_multi pi' m) (?M m)) 1" for pi' m
    by (cases m) (auto simp: release_order_def multi_at_def arrays_at_def released_multi_def pure_conj)
  have "entails (info_at pi' ?F ?M) 1" for pi'
    using entails_times [OF entails_each [of field_at, OF f] entails_each [of multi_at, OF m]]
    by (simp add: info_at_def)
  then have "hoare (info_at pi' ?F ?M) (m_ret (clear_given_mem pi')) (\<lambda>_. 1)" for pi'
    by (rule hoare_ret_entails)
  then show ?thesis
    unfolding cmdline_parser_release_def by (rule hoare_bind [OF hoare_release_fold [OF assms(2)]])
qed

section \<open>The parser keeps its memory\<close>

lemma typed_clear: "typed (\<lambda>s. clear_single s junk)"
  by (auto simp: typed_def kind_def clear_single_def arg_type_of_def split: field_val.split)

lemma typed_given: "typed F \<Longrightarrow> typed (\<lambda>s. (F s)\<lparr>f_given := n s\<rparr>)"
  by (simp add: typed_def)

lemma typed_single_field: "typed (single_field junk opts)"
  unfolding typed_def
proof (intro allI)
  fix s
  have "kind (arg_type_of s) (f_arg (clear_single s junk)) \<and>
      (arg_type_of s = ARG_FLAG \<longrightarrow> f_orig (clear_single s junk) = None)"
    using typed_clear by (simp add: typed_def)
  then show "kind (arg_type_of s) (f_arg (single_field junk opts s)) \<and>
      (arg_type_of s = ARG_FLAG \<longrightarrow> f_orig (single_field junk opts s) = None)"
    by (cases "arg_type_of s")
      (auto simp: single_field_def set_single_def kind_def arg_type_cases(1) split: list.split option.split)
qed

lemma hoare_init:
  "hoare 1 (cmdline_parser_init_mem junk) (\<lambda>pi. info_at pi (\<lambda>s. clear_single s junk) (\<lambda>_. clear_multi))"
  unfolding cmdline_parser_init_mem_def
proof (rule hoare_step [OF hoare_strdup, where R = 1])
  fix user
  let ?S = "\<lambda>s. \<lparr>pf_arg = (case arg_type_of s of ARG_STRING \<Rightarrow> PStr (if s = O_user then user else 0)
      | ARG_INT \<Rightarrow> PInt junk | _ \<Rightarrow> PFlag False), pf_orig = 0, pf_given = Some 0\<rparr>"
  have "field_at (?S s) (clear_single s junk) = 1" if "s \<noteq> O_user" for s
    using that arg_type_cases(1) [of s]
    by (cases "arg_type_of s") (simp_all add: field_at_def clear_single_def)
  then have "others field_at ?S (\<lambda>s. clear_single s junk) O_user = 1"
    unfolding others_def by (intro prod.neutral) simp
  moreover have "field_at (?S O_user) (clear_single O_user junk) = str_at user (Some ''root'')"
    by (simp add: field_at_def clear_single_def arg_type_of_def)
  ultimately have "each field_at ?S (\<lambda>s. clear_single s junk) = str_at user (Some ''root'')"
    by (simp add: each_split [where a = O_user])
  moreover have "each multi_at (\<lambda>_ :: multi. \<lparr>pm_arg = 0, pm_orig = 0, pm_given = 0\<rparr>) (\<lambda>_. clear_multi) = 1"
    unfolding each_def by (intro prod.neutral) (simp add: multi_at_def arrays_at_def clear_multi_def)
  ultimately show "hoare (str_at user (Some ''root'') * 1)
      (m_ret \<lparr>pi_single = ?S, pi_multi = (\<lambda>_. \<lparr>pm_arg = 0, pm_orig = 0, pm_given = 0\<rparr>)\<rparr>)
      (\<lambda>pi. info_at pi (\<lambda>s. clear_single s junk) (\<lambda>_. clear_multi))"
    by (intro hoare_ret_eq) (simp only: info_at_def ptr_info.select_convs)
qed simp

text \<open>What the variables of the parser own after some options, and after a failure.\<close>

definition local_single :: "32 word \<Rightarrow> given_option list \<Rightarrow> single \<Rightarrow> field" where
  "local_single junk opts s = (clear_single s junk)\<lparr>f_given := Some (length (single_args s opts))\<rparr>"

definition local_multi :: "given_option list \<Rightarrow> multi \<Rightarrow> multi_field" where
  "local_multi opts m = clear_multi\<lparr>mf_given := length (multi_tokens m opts)\<rparr>"

definition parse_at :: "parse_mem \<Rightarrow> (single \<Rightarrow> field) \<Rightarrow> (single \<Rightarrow> field) \<Rightarrow> (multi \<Rightarrow> multi_field) \<Rightarrow>
    (multi \<Rightarrow> field list) \<Rightarrow> assn" where
  "parse_at p F G M L = info_at (pr_info p) F (\<lambda>_. clear_multi) *
     (info_at (pr_local p) G M * each nodes_at (pr_list p) L)"

definition parsed_at :: "32 word \<Rightarrow> given_option list \<Rightarrow> parse_mem \<Rightarrow> assn" where
  "parsed_at junk opts p =
     parse_at p (single_field junk opts) (local_single junk opts) (local_multi opts)
       (\<lambda>m. rev (map node_of (multi_tokens m opts)))"

definition failed_at :: "parse_mem \<Rightarrow> assn" where
  "failed_at p = some (\<lambda>(F, G, M, L).
     pure (typed F \<and> typed G \<and> (\<forall>m. counted (M m))) * parse_at p F G M L)"

lemma typed_local: "typed (local_single junk opts)"
  unfolding local_single_def by (rule typed_given [OF typed_clear])

lemma counted_local: "counted (local_multi opts m)" "counted clear_multi"
  by (simp_all add: counted_def local_multi_def clear_multi_def)

lemma failed_atI:
  assumes "typed F" and "typed G" and "\<And>m. counted (M m)"
  shows "entails (parse_at p F G M L) (failed_at p)"
  unfolding failed_at_def by (rule entails_some [where x = "(F, G, M, L)"]) (simp add: assms)

lemma parsed_failed: "entails (parsed_at junk opts p) (failed_at p)"
  unfolding parsed_at_def by (intro failed_atI typed_single_field typed_local counted_local)

text \<open>An option that may be given once: the field of args_info and the counter of local_args_info.\<close>

definition single_step :: "parse_mem \<Rightarrow> single \<Rightarrow> ptr_field \<Rightarrow> nat \<Rightarrow> parse_mem" where
  "single_step p s fld n = p\<lparr>pr_info := (pr_info p)\<lparr>pi_single := (pi_single (pr_info p))(s := fld)\<rparr>,
     pr_local := (pr_local p)\<lparr>pi_single := (pi_single (pr_local p))
       (s := (pi_single (pr_local p) s)\<lparr>pf_given := Some n\<rparr>)\<rparr>\<rparr>"

lemma parse_at_single:
  "parse_at p F G M L = field_at (pi_single (pr_info p) s) (F s) *
     (field_at (pi_single (pr_local p) s) (G s) *
       (others field_at (pi_single (pr_info p)) F s * (others field_at (pi_single (pr_local p)) G s *
         (each multi_at (pi_multi (pr_info p)) (\<lambda>_. clear_multi) * (each multi_at (pi_multi (pr_local p)) M *
            each nodes_at (pr_list p) L)))))"
  by (simp add: parse_at_def info_at_def each_split [where a = s and g = field_at] ac_simps)

lemma parse_at_single_step:
  "parse_at (single_step p s fld n) (F(s := f)) (G(s := g)) M L = field_at fld f *
     (field_at ((pi_single (pr_local p) s)\<lparr>pf_given := Some n\<rparr>) g *
       (others field_at (pi_single (pr_info p)) F s * (others field_at (pi_single (pr_local p)) G s *
         (each multi_at (pi_multi (pr_info p)) (\<lambda>_. clear_multi) * (each multi_at (pi_multi (pr_local p)) M *
            each nodes_at (pr_list p) L)))))"
  by (simp add: parse_at_single [where s = s] single_step_def others_def)

lemma field_at_again: "field_at pf f = pure (pf_given pf = f_given f) * field_at pf f"
  by (simp add: field_at_def mult.assoc [symmetric] pure_conj)

lemma field_at_count: "entails (field_at pf f) (field_at (pf\<lparr>pf_given := x\<rparr>) (f\<lparr>f_given := x\<rparr>))"
  by (auto simp: field_at_def entails_def)

text \<open>What Cmdline says of the round, in the two cases.\<close>

lemma round_single:
  assumes "single_of c = Some s" and "accepted opts"
  shows "case update_arg (single_field junk opts s) (length (single_args s opts)) v (arg_type_of s) False False False of
      None \<Rightarrow> \<not> accepted (opts @ [(c, v)])
    | Some (f, n) \<Rightarrow> accepted (opts @ [(c, v)]) \<and> single_field junk (opts @ [(c, v)]) = (single_field junk opts)(s := f) \<and>
        local_single junk (opts @ [(c, v)]) = (local_single junk opts)(s := (local_single junk opts s)\<lparr>f_given := Some n\<rparr>) \<and>
        (\<forall>m. multi_tokens m (opts @ [(c, v)]) = multi_tokens m opts)"
proof (cases "update_arg (single_field junk opts s) (length (single_args s opts)) v (arg_type_of s) False False False")
  case None
  with step_single [OF assms, of junk v] show ?thesis
    by (auto simp: parse_single_def parsed_def split: if_splits)
next
  case (Some fn)
  obtain f n where fn: "fn = (f, n)" by (cases fn)
  have m: "multi_tokens m (opts @ [(c, v)]) = multi_tokens m opts" for m
    using single_not_multi [OF assms(1)] by (simp add: multi_tokens_snoc)
  from Some fn step_single [OF assms, of junk v]
  have a: "accepted (opts @ [(c, v)])"
    and p: "parsed junk (opts @ [(c, v)]) = (parsed junk opts)\<lparr>p_info := (p_info (parsed junk opts))\<lparr>ai_single :=
        (ai_single (p_info (parsed junk opts)))(s := f)\<rparr>, p_single := (p_single (parsed junk opts))(s := n)\<rparr>"
    by (auto simp: parse_single_def parsed_def split: if_splits)
  have f: "single_field junk (opts @ [(c, v)]) = (single_field junk opts)(s := f)"
    using arg_cong [OF p, of "\<lambda>q. ai_single (p_info q)"] by (simp add: parsed_def)
  have "length (single_args s' (opts @ [(c, v)])) = (if s' = s then n else length (single_args s' opts))" for s'
    using fun_cong [OF arg_cong [OF p, of p_single], of s'] by (simp add: parsed_def)
  then have "local_single junk (opts @ [(c, v)]) = (local_single junk opts)(s := (local_single junk opts s)\<lparr>f_given := Some n\<rparr>)"
    by (simp add: fun_eq_iff local_single_def)
  with Some fn a f m show ?thesis by simp
qed

lemma kind_single_field: "kind (arg_type_of s) (f_arg (single_field junk opts s))"
  and flag_single_field: "arg_type_of s = ARG_FLAG \<Longrightarrow> f_orig (single_field junk opts s) = None"
  using typed_single_field [of junk opts] by (simp_all add: typed_def)

lemma typed_upd:
  "typed F \<Longrightarrow> kind (arg_type_of s) (f_arg f) \<Longrightarrow> f_orig f = f_orig (F s) \<Longrightarrow> typed (F(s := f))"
  by (simp add: typed_def)

lemma typed_upd_given: "typed G \<Longrightarrow> typed (G(s := (G s)\<lparr>f_given := n\<rparr>))"
  by (simp add: typed_def)

lemma parse_single_mem_step:
  "parse_single_mem p s v =
     m_bind (update_arg_mem (pi_single (pr_info p) s) (given_of (pi_single (pr_local p) s)) (Argv v)
         (arg_type_of s) False False (arg_type_of s = ARG_FLAG) False)
       (\<lambda>(bad, fld, n). m_ret (if bad then Failure (single_step p s fld n) else Go (single_step p s fld n)))"
  unfolding parse_single_mem_def single_step_def Let_def ..

lemma hoare_parse_single:
  assumes s: "single_of c = Some s" and acc: "accepted opts"
  shows "hoare (parsed_at junk opts p) (parse_single_mem p s v)
    (\<lambda>r. if accepted (opts @ [(c, v)]) then (case r of Go p' \<Rightarrow> parsed_at junk (opts @ [(c, v)]) p' | _ \<Rightarrow> pure False)
         else (case r of Failure p' \<Rightarrow> failed_at p' | _ \<Rightarrow> pure False))" (is "hoare _ _ ?Q")
proof -
  let ?F = "single_field junk opts" and ?G = "local_single junk opts" and ?M = "local_multi opts"
    and ?L = "\<lambda>m. rev (map node_of (multi_tokens m opts))" and ?n = "length (single_args s opts)"
  let ?R = "field_at (pi_single (pr_local p) s) (?G s) *
       (others field_at (pi_single (pr_info p)) ?F s * (others field_at (pi_single (pr_local p)) ?G s *
         (each multi_at (pi_multi (pr_info p)) (\<lambda>_. clear_multi) * (each multi_at (pi_multi (pr_local p)) ?M *
            each nodes_at (pr_list p) ?L))))"
  note round = round_single [OF s acc, where junk = junk and v = v]
  have R: "entails (field_at fld f * ?R)
      (parse_at (single_step p s fld n) (?F(s := f)) (?G(s := (?G s)\<lparr>f_given := Some n\<rparr>)) ?M ?L)" for fld f n
    unfolding parse_at_single_step by (intro entails_times field_at_count entails_refl)
  have upd: "hoare (field_at (pi_single (pr_info p) s) (?F s) * ?R)
    (m_bind (update_arg_mem (pi_single (pr_info p) s) ?n (Argv v) (arg_type_of s) False False (arg_type_of s = ARG_FLAG) False)
      (\<lambda>(bad, fld, n). m_ret (if bad then Failure (single_step p s fld n) else Go (single_step p s fld n)))) ?Q"
  proof (rule hoare_step [OF hoare_update_arg [OF kind_single_field [of s]] refl])
    show "arg_type_of s = ARG_FLAG \<or> \<not> arg_type_of s = ARG_FLAG" by simp
  next
    fix r :: "bool \<times> ptr_field \<times> nat"
    obtain bad fld n where r: "r = (bad, fld, n)" by (cases r)
    let ?r = "m_ret (if bad then Failure (single_step p s fld n) else Go (single_step p s fld n))"
    have "hoare ((case update_arg (?F s) ?n v (arg_type_of s) False False False of
         None \<Rightarrow> pure bad * some (\<lambda>f'. pure (kind (arg_type_of s) (f_arg f') \<and> f_orig f' = f_orig (?F s)) * field_at fld f')
       | Some (f', m) \<Rightarrow> pure (\<not> bad \<and> n = m) * field_at fld f') * ?R) ?r ?Q"
    proof (cases "update_arg (?F s) ?n v (arg_type_of s) False False False")
      case None
      have "hoare (field_at fld f' * ?R) (m_ret (Failure (single_step p s fld n))) ?Q"
        if f': "kind (arg_type_of s) (f_arg f') \<and> f_orig f' = f_orig (?F s)" for f'
      proof (rule hoare_ret_entails)
        have "entails (parse_at (single_step p s fld n) (?F(s := f')) (?G(s := (?G s)\<lparr>f_given := Some n\<rparr>)) ?M ?L)
            (failed_at (single_step p s fld n))"
          using f' by (intro failed_atI typed_upd typed_upd_given typed_single_field typed_local counted_local) simp_all
        with R [of fld f' n] None round show "entails (field_at fld f' * ?R) (?Q (Failure (single_step p s fld n)))"
          by (simp add: entails_def)
      qed
      then have "hoare (some (\<lambda>f'. pure (kind (arg_type_of s) (f_arg f') \<and> f_orig f' = f_orig (?F s)) * field_at fld f') * ?R)
          (m_ret (Failure (single_step p s fld n))) ?Q"
        unfolding some_times mult.assoc by (intro hoare_some hoare_pure)
      then have "hoare (pure bad * (some (\<lambda>f'. pure (kind (arg_type_of s) (f_arg f') \<and> f_orig f' = f_orig (?F s)) * field_at fld f') * ?R))
          ?r ?Q"
        by (intro hoare_pure) simp
      with None show ?thesis by (simp only: option.case mult.assoc)
    next
      case (Some fm)
      obtain f' m where fm: "fm = (f', m)" by (cases fm)
      have "hoare (pure (\<not> bad \<and> n = m) * (field_at fld f' * ?R)) ?r ?Q"
      proof (rule hoare_pure)
        assume b: "\<not> bad \<and> n = m"
        have "parsed_at junk (opts @ [(c, v)]) (single_step p s fld m) =
            parse_at (single_step p s fld m) (?F(s := f')) (?G(s := (?G s)\<lparr>f_given := Some m\<rparr>)) ?M ?L"
          using round Some fm by (simp add: parsed_at_def local_multi_def [abs_def])
        with R [of fld f' m] b round Some fm show "hoare (field_at fld f' * ?R) ?r ?Q"
          by (intro hoare_ret_entails) simp
      qed
      with Some fm show ?thesis by (simp only: option.case prod.case mult.assoc)
    qed
    then show "hoare ((case r of (bad, pf', n') \<Rightarrow>
        case update_arg (?F s) ?n v (arg_type_of s) False False False of
         None \<Rightarrow> pure bad * some (\<lambda>f'. pure (kind (arg_type_of s) (f_arg f') \<and> f_orig f' = f_orig (?F s)) * field_at pf' f')
       | Some (f', m) \<Rightarrow> pure (\<not> bad \<and> n' = m) * field_at pf' f') * ?R)
      (case r of (bad, fld, n) \<Rightarrow> m_ret (if bad then Failure (single_step p s fld n) else Go (single_step p s fld n))) ?Q"
      unfolding r prod.case .
  qed
  have start: "parsed_at junk opts p = pure (pf_given (pi_single (pr_local p) s) = Some ?n) * (field_at (pi_single (pr_info p) s) (?F s) * ?R)"
    unfolding parsed_at_def parse_at_single [where s = s]
    by (rule pull_out) (use field_at_again [of "pi_single (pr_local p) s" "?G s"] in \<open>simp add: local_single_def\<close>)
  show ?thesis
    unfolding parse_single_mem_step
  proof (rule hoare_pure_eq [OF start])
    assume "pf_given (pi_single (pr_local p) s) = Some ?n"
    then have "given_of (pi_single (pr_local p) s) = ?n" by (simp add: given_of_def)
    with upd show "hoare (field_at (pi_single (pr_info p) s) (?F s) * ?R)
      (m_bind (update_arg_mem (pi_single (pr_info p) s) (given_of (pi_single (pr_local p) s)) (Argv v)
          (arg_type_of s) False False (arg_type_of s = ARG_FLAG) False)
        (\<lambda>(bad, fld, n). m_ret (if bad then Failure (single_step p s fld n) else Go (single_step p s fld n)))) ?Q"
      by (simp only:)
  qed
qed

text \<open>An option with a list: the list and the counter of local_args_info.\<close>

definition multi_step :: "parse_mem \<Rightarrow> multi \<Rightarrow> ptr \<Rightarrow> nat \<Rightarrow> parse_mem" where
  "multi_step p m list n = p\<lparr>pr_list := (pr_list p)(m := list),
     pr_local := (pr_local p)\<lparr>pi_multi := (pi_multi (pr_local p))
       (m := (pi_multi (pr_local p) m)\<lparr>pm_given := n\<rparr>)\<rparr>\<rparr>"

lemma parse_multi_mem_step:
  "parse_multi_mem p m v =
     m_bind (update_multiple_arg_temp_mem (pr_list p m) (pm_given (pi_multi (pr_local p) m)) v ARG_STRING)
       (\<lambda>(bad, list, n). m_ret (if bad then Failure (multi_step p m list n) else Go (multi_step p m list n)))"
  unfolding parse_multi_mem_def multi_step_def Let_def ..

lemma multi_at_again: "multi_at pm mf = pure (pm_given pm = mf_given mf) * multi_at pm mf"
  by (simp add: multi_at_def mult.assoc [symmetric] pure_conj)

lemma multi_at_count: "entails (multi_at pm mf) (multi_at (pm\<lparr>pm_given := x\<rparr>) (mf\<lparr>mf_given := x\<rparr>))"
  by (auto simp: multi_at_def entails_def)

lemma parse_at_multi:
  "parse_at p F G M L = nodes_at (pr_list p m) (L m) *
     (multi_at (pi_multi (pr_local p) m) (M m) *
       (others nodes_at (pr_list p) L m * (others multi_at (pi_multi (pr_local p)) M m *
         (info_at (pr_info p) F (\<lambda>_. clear_multi) * each field_at (pi_single (pr_local p)) G))))"
  by (simp add: parse_at_def info_at_def each_split [where a = m and g = multi_at and h = M]
      each_split [where a = m and g = nodes_at] ac_simps)

lemma parse_at_multi_step:
  "parse_at (multi_step p m list n) F G (M(m := mf)) (L(m := fs)) = nodes_at list fs *
     (multi_at ((pi_multi (pr_local p) m)\<lparr>pm_given := n\<rparr>) mf *
       (others nodes_at (pr_list p) L m * (others multi_at (pi_multi (pr_local p)) M m *
         (info_at (pr_info p) F (\<lambda>_. clear_multi) * each field_at (pi_single (pr_local p)) G))))"
  by (simp add: parse_at_multi [where m = m] multi_step_def others_def)

lemma round_multi:
  assumes "multi_of c = Some m"
  shows "single_field junk (opts @ [(c, v)]) = single_field junk opts"
    and "local_single junk (opts @ [(c, v)]) = local_single junk opts"
    and "local_multi (opts @ [(c, v)]) = (local_multi opts)(m := (local_multi opts m)\<lparr>mf_given :=
      length (multi_tokens m opts) + length (value_tokens v)\<rparr>)"
    and "(\<lambda>m'. rev (map node_of (multi_tokens m' (opts @ [(c, v)])))) =
      (\<lambda>m'. rev (map node_of (multi_tokens m' opts)))(m := rev (map node_of (value_tokens v)) @ rev (map node_of (multi_tokens m opts)))"
proof -
  have "single_of c = None" using single_not_multi assms by (cases "single_of c") auto
  then have s: "single_args s (opts @ [(c, v)]) = single_args s opts" for s
    by (simp add: single_args_snoc)
  show "single_field junk (opts @ [(c, v)]) = single_field junk opts"
    and "local_single junk (opts @ [(c, v)]) = local_single junk opts"
    by (simp_all add: fun_eq_iff single_field_def local_single_def s)
  show "local_multi (opts @ [(c, v)]) = (local_multi opts)(m := (local_multi opts m)\<lparr>mf_given :=
      length (multi_tokens m opts) + length (value_tokens v)\<rparr>)"
    and "(\<lambda>m'. rev (map node_of (multi_tokens m' (opts @ [(c, v)])))) =
      (\<lambda>m'. rev (map node_of (multi_tokens m' opts)))(m := rev (map node_of (value_tokens v)) @ rev (map node_of (multi_tokens m opts)))"
    using assms by (simp_all add: fun_eq_iff local_multi_def multi_tokens_snoc)
qed

lemma hoare_parse_multi:
  assumes m: "multi_of c = Some m"
  shows "hoare (parsed_at junk opts p) (parse_multi_mem p m v)
    (\<lambda>r. case r of Go p' \<Rightarrow> parsed_at junk (opts @ [(c, v)]) p' | _ \<Rightarrow> pure False)" (is "hoare _ _ ?Q")
proof -
  let ?F = "single_field junk opts" and ?G = "local_single junk opts" and ?M = "local_multi opts"
    and ?L = "\<lambda>m. rev (map node_of (multi_tokens m opts))" and ?n = "length (multi_tokens m opts)"
  let ?R = "multi_at (pi_multi (pr_local p) m) (?M m) *
       (others nodes_at (pr_list p) ?L m * (others multi_at (pi_multi (pr_local p)) ?M m *
         (info_at (pr_info p) ?F (\<lambda>_. clear_multi) * each field_at (pi_single (pr_local p)) ?G)))"
  let ?l = "rev (map node_of (value_tokens v)) @ ?L m" and ?k = "?n + length (value_tokens v)"
  have R: "entails (nodes_at list ?l * ?R) (parsed_at junk (opts @ [(c, v)]) (multi_step p m list ?k))" for list
    unfolding parsed_at_def round_multi [OF m] parse_at_multi_step
    by (intro entails_times multi_at_count entails_refl)
  have upd: "hoare (nodes_at (pr_list p m) (?L m) * ?R)
    (m_bind (add_tokens_mem (pr_list p m) ?n CHR 0x00 v)
      (\<lambda>(bad, list, n). m_ret (if bad then Failure (multi_step p m list n) else Go (multi_step p m list n)))) ?Q"
  proof (rule hoare_step [OF hoare_add_tokens refl])
    fix r :: "bool \<times> ptr \<times> nat"
    obtain bad list n where r: "r = (bad, list, n)" by (cases r)
    have "hoare (pure (\<not> bad \<and> n = ?k) * (nodes_at list ?l * ?R))
      (m_ret (if bad then Failure (multi_step p m list n) else Go (multi_step p m list n))) ?Q"
      by (rule hoare_pure, rule hoare_ret_entails) (use R [of list] in simp)
    then show "hoare ((case r of (bad, l', n') \<Rightarrow> pure (\<not> bad \<and> n' = ?n + length (tokens_of CHR 0x00 v)) *
          nodes_at l' (rev (map node_of (tokens_of CHR 0x00 v)) @ ?L m)) * ?R)
       (case r of (bad, list, n) \<Rightarrow> m_ret (if bad then Failure (multi_step p m list n) else Go (multi_step p m list n))) ?Q"
      unfolding r prod.case value_tokens_def mult.assoc .
  qed
  have start: "parsed_at junk opts p = pure (pm_given (pi_multi (pr_local p) m) = ?n) * (nodes_at (pr_list p m) (?L m) * ?R)"
    unfolding parsed_at_def parse_at_multi [where m = m]
    by (rule pull_out) (use multi_at_again [of "pi_multi (pr_local p) m" "?M m"] in \<open>simp add: local_multi_def\<close>)
  show ?thesis
    unfolding parse_multi_mem_step update_multiple_arg_temp_mem_def
  proof (rule hoare_pure_eq [OF start])
    assume "pm_given (pi_multi (pr_local p) m) = ?n"
    with upd show "hoare (nodes_at (pr_list p m) (?L m) * ?R)
      (m_bind (if ARG_STRING = ARG_NO then m_ret (False, pr_list p m, pm_given (pi_multi (pr_local p) m) + 1)
           else add_tokens_mem (pr_list p m) (pm_given (pi_multi (pr_local p) m)) CHR 0x00 v)
        (\<lambda>(bad, list, n). m_ret (if bad then Failure (multi_step p m list n) else Go (multi_step p m list n)))) ?Q"
      by (simp only: arg_type.distinct if_False)
  qed
qed

text \<open>Options of the switch, the errors of getopt among them.\<close>

definition known :: "given_option \<Rightarrow> bool" where
  "known opt \<longleftrightarrow> plain opt \<or> fst opt \<in> {CHR ''h'', CHR ''V'', CHR ''?''}"

text \<open>
  How a round or the loop ends.  At the exit of --help and --version, what is left
  is what args_info and the lists own.
\<close>

definition loop_at :: "32 word \<Rightarrow> given_option list \<Rightarrow> failure + parse \<Rightarrow> parse_mem flow \<Rightarrow> assn" where
  "loop_at junk opts q r =
     (case q of
        Inr _ \<Rightarrow> (case r of Go p \<Rightarrow> parsed_at junk opts p | _ \<Rightarrow> pure False)
      | Inl e \<Rightarrow>
          (case r of
             Go p \<Rightarrow> pure False
           | Failure p \<Rightarrow> pure (e = Exit 1) * failed_at p
           | Exited n \<Rightarrow> pure (e = Exit n \<and> n = 0) * anything))"

lemma loop_at_simps [simp]:
  "loop_at junk opts (Inr q) (Go p) = parsed_at junk opts p"
  "loop_at junk opts (Inr q) (Failure p) = pure False"
  "loop_at junk opts (Inr q) (Exited n) = pure False"
  "loop_at junk opts (Inl e) (Go p) = pure False"
  "loop_at junk opts (Inl e) (Failure p) = pure (e = Exit 1) * failed_at p"
  "loop_at junk opts (Inl e) (Exited n) = pure (e = Exit n \<and> n = 0) * anything"
  by (simp_all add: loop_at_def)

lemma hoare_parse_step:
  assumes "known opt" and acc: "accepted opts"
  shows "hoare (parsed_at junk opts p) (parse_step_mem p opt)
    (loop_at junk (opts @ [opt]) (parse_step (parsed junk opts) opt))"
proof -
  obtain c v where opt: "opt = (c, v)" by (cases opt)
  consider (exit) "c = CHR ''h'' \<or> c = CHR ''V''" | (bad) "c = CHR ''?''" | (plain) "plain opt"
    using assms(1) opt by (auto simp: known_def)
  then show ?thesis
  proof cases
    case exit
    let ?P = "info_at (pr_info p) (single_field junk opts) (\<lambda>_. clear_multi) *
        each nodes_at (pr_list p) (\<lambda>m. rev (map node_of (multi_tokens m opts)))"
    have rel: "hoare (info_at (pr_local p) (local_single junk opts) (local_multi opts))
        (cmdline_parser_release (pr_local p)) (\<lambda>_. 1)"
      by (intro hoare_release typed_local counted_local)
    have "hoare (parsed_at junk opts p) (m_bind (cmdline_parser_release (pr_local p)) (\<lambda>_. m_ret (Exited 0)))
        (loop_at junk (opts @ [opt]) (Inl (Exit 0)))"
      by (rule hoare_step [OF rel, where R = ?P])
        (simp_all add: parsed_at_def parse_at_def ac_simps hoare_ret_entails)
    with exit opt show ?thesis by (simp add: parse_step_mem_def parse_step_def)
  next
    case bad
    have "hoare (parsed_at junk opts p) (m_ret (Failure p)) (loop_at junk (opts @ [opt]) (Inl (Exit 1)))"
      by (rule hoare_ret_entails) (simp add: parsed_failed)
    with bad opt show ?thesis by (simp add: parse_step_mem_def parse_step_def)
  next
    case plain
    then have c: "c \<noteq> CHR ''h''" "c \<noteq> CHR ''V''" "c \<noteq> CHR ''?''" using opt by (auto simp: plain_def)
    note step = step_parsed [OF plain acc, of junk, unfolded opt]
    show ?thesis
    proof (cases "single_of c")
      case (Some s)
      have "hoare (parsed_at junk opts p) (parse_single_mem p s v)
          (loop_at junk (opts @ [opt]) (parse_step (parsed junk opts) opt))"
        by (rule hoare_post [OF hoare_parse_single [OF Some acc]])
          (auto simp: step opt split: flow.split)
      with c Some opt show ?thesis by (simp add: parse_step_mem_def)
    next
      case None
      with plain opt obtain m where m: "multi_of c = Some m" by (auto simp: plain_def)
      have "hoare (parsed_at junk opts p) (parse_multi_mem p m v)
          (loop_at junk (opts @ [opt]) (parse_step (parsed junk opts) opt))"
        by (rule hoare_post [OF hoare_parse_multi [OF m]])
          (auto simp: step step_multi(1) [OF m acc] opt split: flow.split)
      with c None m opt show ?thesis by (simp add: parse_step_mem_def)
    qed
  qed
qed

lemma step_Inr:
  assumes "known opt" "accepted opts" "parse_step (parsed junk opts) opt = Inr q"
  shows "accepted (opts @ [opt]) \<and> q = parsed junk (opts @ [opt])"
proof -
  have "plain opt" using assms(1,3) by (auto simp: known_def parse_step_def split: prod.splits)
  with step_parsed [OF this assms(2)] assms(3) show ?thesis by (auto split: if_splits)
qed

lemma hoare_parse_all:
  "\<lbrakk>list_all known opts'; accepted opts\<rbrakk> \<Longrightarrow>
   hoare (parsed_at junk opts p) (parse_all_mem p opts')
     (loop_at junk (opts @ opts') (parse_all (parsed junk opts) opts'))"
proof (induction opts' arbitrary: opts p)
  case Nil
  show ?case by (simp add: hoare_ret_eq)
next
  case (Cons opt os)
  then have k: "known opt" by simp
  show ?case
    unfolding parse_all_mem.simps
  proof (rule hoare_bind [OF hoare_parse_step [OF k Cons.prems(2)]])
    fix r
    show "hoare (loop_at junk (opts @ [opt]) (parse_step (parsed junk opts) opt) r)
        (case r of Go p \<Rightarrow> parse_all_mem p os | r \<Rightarrow> m_ret r)
        (loop_at junk (opts @ opt # os) (parse_all (parsed junk opts) (opt # os)))"
    proof (cases "parse_step (parsed junk opts) opt")
      case (Inl e)
      then show ?thesis by (cases r) (simp_all add: hoare_ret_eq)
    next
      case (Inr q)
      with step_Inr [OF k Cons.prems(2) Inr] Cons.IH [of "opts @ [opt]"] Cons.prems(1) show ?thesis
        by (cases r) simp_all
    qed
  qed
qed

section \<open>The end of the parser\<close>

text \<open>None for the lists that have been turned over into arrays.\<close>

definition list_at :: "ptr \<Rightarrow> field list option \<Rightarrow> assn" where
  "list_at l fs = (case fs of None \<Rightarrow> 1 | Some fs \<Rightarrow> nodes_at l fs)"

definition finish_at :: "parse_mem \<Rightarrow> (single \<Rightarrow> field) \<Rightarrow> (multi \<Rightarrow> multi_field) \<Rightarrow> (single \<Rightarrow> field) \<Rightarrow>
    (multi \<Rightarrow> multi_field) \<Rightarrow> (multi \<Rightarrow> field list option) \<Rightarrow> assn" where
  "finish_at p F A G M L = info_at (pr_info p) F A * (info_at (pr_local p) G M * each list_at (pr_list p) L)"

lemma finish_at_start:
  "parse_at p F G M L = finish_at p F (\<lambda>_. clear_multi) G M (\<lambda>m. Some (L m))"
  by (simp add: parse_at_def finish_at_def each_def list_at_def)

lemma finish_at_split:
  "finish_at p F A G M L = multi_at (pi_multi (pr_info p) m) (A m) *
     (multi_at (pi_multi (pr_local p) m) (M m) * (list_at (pr_list p m) (L m) *
       (others multi_at (pi_multi (pr_info p)) A m * (others multi_at (pi_multi (pr_local p)) M m *
         (others list_at (pr_list p) L m * (each field_at (pi_single (pr_info p)) F *
            each field_at (pi_single (pr_local p)) G))))))"
  by (simp add: finish_at_def info_at_def each_split [where a = m and g = multi_at]
      each_split [where a = m and g = list_at] ac_simps)

definition finish_step :: "parse_mem \<Rightarrow> multi \<Rightarrow> ptr_multi \<Rightarrow> nat \<Rightarrow> parse_mem" where
  "finish_step p m pm n = p\<lparr>pr_info := (pr_info p)\<lparr>pi_multi := (pi_multi (pr_info p))
       (m := pm\<lparr>pm_given := pm_given pm + n\<rparr>)\<rparr>,
     pr_local := (pr_local p)\<lparr>pi_multi := (pi_multi (pr_local p))
       (m := (pi_multi (pr_local p) m)\<lparr>pm_given := 0\<rparr>)\<rparr>\<rparr>"

lemma finish_multi_mem_step:
  "finish_multi_mem junk p m =
     m_bind (update_multiple_arg_mem junk (pi_multi (pr_info p) m) (pm_given (pi_multi (pr_local p) m))
         (if m = M_caps then Some ''+all'' else None) (pr_list p m))
       (\<lambda>pm. m_ret (finish_step p m pm (pm_given (pi_multi (pr_local p) m))))"
  unfolding finish_multi_mem_def finish_step_def Let_def ..

lemma finish_at_step:
  "finish_at (finish_step p m pm n) F (A(m := mf)) G (M(m := mg)) (L(m := None)) =
     multi_at (pm\<lparr>pm_given := pm_given pm + n\<rparr>) mf *
     (multi_at ((pi_multi (pr_local p) m)\<lparr>pm_given := 0\<rparr>) mg *
       (others multi_at (pi_multi (pr_info p)) A m * (others multi_at (pi_multi (pr_local p)) M m *
         (others list_at (pr_list p) L m * (each field_at (pi_single (pr_info p)) F *
            each field_at (pi_single (pr_local p)) G)))))"
  by (simp add: finish_at_split [where m = m] finish_step_def others_def list_at_def)

lemma multi_at_clear:
  "multi_at pm clear_multi = pure (pm_arg pm = 0 \<and> pm_orig pm = 0 \<and> pm_given pm = 0)"
  by (auto simp: multi_at_def clear_multi_def arrays_at_def pure_conj intro!: arg_cong [where f = pure])

lemma hoare_finish_multi:
  assumes A: "A m = clear_multi" and M: "M m = local_multi opts m"
    and L: "L m = Some (rev (map node_of (multi_tokens m opts)))"
  shows "hoare (finish_at p F A G M L) (finish_multi_mem junk p m)
    (\<lambda>p'. finish_at p' F (A(m := multi_array opts m)) G (M(m := clear_multi)) (L(m := None)))" (is "hoare _ _ ?Q")
proof -
  let ?ts = "multi_tokens m opts" and ?pm = "pi_multi (pr_info p) m" and ?lm = "pi_multi (pr_local p) m"
  let ?d = "if m = M_caps then Some ''+all'' else None"
  let ?R = "others multi_at (pi_multi (pr_info p)) A m * (others multi_at (pi_multi (pr_local p)) M m *
         (others list_at (pr_list p) L m * (each field_at (pi_single (pr_info p)) F *
            each field_at (pi_single (pr_local p)) G)))"
  let ?P = "multi_at ?lm (M m) * (nodes_at (pr_list p m) (rev (map node_of ?ts)) * ?R)"
  have "hoare (pure (pm_given ?lm = length ?ts) * ?P) (finish_multi_mem junk p m) ?Q"
    if pm: "pm_arg ?pm = 0 \<and> pm_orig ?pm = 0 \<and> pm_given ?pm = 0"
  proof (rule hoare_pure)
    assume n: "pm_given ?lm = length ?ts"
    have "hoare (nodes_at (pr_list p m) (rev (map node_of ?ts)) * (multi_at ?lm (M m) * ?R))
      (m_bind (update_multiple_arg_mem junk ?pm (length ?ts) ?d (pr_list p m))
        (\<lambda>pm. m_ret (finish_step p m pm (length ?ts)))) ?Q"
    proof (rule hoare_step [OF hoare_update_multiple refl])
      fix pm
      show "hoare (pure (pm_given pm = 0) *
           arrays_at (pm_arg pm) (pm_orig pm) (if ?ts = [] \<and> ?d \<noteq> None then [?d] else ?ts)
             (if ?ts = [] \<and> ?d \<noteq> None then [None] else ?ts) * (multi_at ?lm (M m) * ?R))
         (m_ret (finish_step p m pm (length ?ts))) ?Q"
        unfolding mult.assoc
      proof (rule hoare_pure)
        assume g: "pm_given pm = 0"
        have new: "arrays_at (pm_arg pm) (pm_orig pm) (if ?ts = [] \<and> ?d \<noteq> None then [?d] else ?ts)
             (if ?ts = [] \<and> ?d \<noteq> None then [None] else ?ts) =
            multi_at (pm\<lparr>pm_given := pm_given pm + length ?ts\<rparr>) (multi_array opts m)"
          by (auto simp: multi_at_def multi_array_def Let_def g)
        have "entails (multi_at ?lm (M m)) (multi_at (?lm\<lparr>pm_given := 0\<rparr>) clear_multi)"
          using multi_at_count [of ?lm "M m" 0] M by (simp add: local_multi_def clear_multi_def)
        then show "hoare (arrays_at (pm_arg pm) (pm_orig pm) (if ?ts = [] \<and> ?d \<noteq> None then [?d] else ?ts)
             (if ?ts = [] \<and> ?d \<noteq> None then [None] else ?ts) * (multi_at ?lm (M m) * ?R))
           (m_ret (finish_step p m pm (length ?ts))) ?Q"
          unfolding new by (intro hoare_ret_entails) (simp only: finish_at_step, intro entails_times entails_refl)
      qed
    qed (use pm in simp_all)
    then show "hoare ?P (finish_multi_mem junk p m) ?Q"
      unfolding finish_multi_mem_step n by (simp only: mult.left_commute [of "nodes_at _ _"])
  qed
  then have "hoare (multi_at ?pm clear_multi * (pure (pm_given ?lm = length ?ts) * ?P)) (finish_multi_mem junk p m) ?Q"
    unfolding multi_at_clear by (rule hoare_pure)
  moreover have "finish_at p F A G M L = multi_at ?pm clear_multi * (pure (pm_given ?lm = length ?ts) * ?P)"
    using multi_at_again [of ?lm "M m"]
    by (simp add: finish_at_split [where m = m] A L M list_at_def local_multi_def mult.assoc [symmetric])
  ultimately show ?thesis by simp
qed

lemma hoare_finish_all:
  assumes "distinct ms" and "\<And>m. m \<in> set ms \<Longrightarrow> A m = clear_multi \<and> M m = local_multi opts m \<and>
      L m = Some (rev (map node_of (multi_tokens m opts)))"
  shows "hoare (finish_at p F A G M L) (m_fold (finish_multi_mem junk) p ms)
    (\<lambda>p'. finish_at p' F (\<lambda>m. if m \<in> set ms then multi_array opts m else A m) G
       (\<lambda>m. if m \<in> set ms then clear_multi else M m) (\<lambda>m. if m \<in> set ms then None else L m))"
  using assms
proof (induction ms arbitrary: p A M L)
  case Nil
  show ?case by (simp add: hoare_ret_eq)
next
  case (Cons m ms)
  let ?A = "A(m := multi_array opts m)" and ?M = "M(m := clear_multi)" and ?L = "L(m := None)"
  have fns: "(\<lambda>m'. if m' \<in> set ms then multi_array opts m' else ?A m') = (\<lambda>m'. if m' \<in> set (m # ms) then multi_array opts m' else A m')"
    "(\<lambda>m'. if m' \<in> set ms then clear_multi else ?M m') = (\<lambda>m'. if m' \<in> set (m # ms) then clear_multi else M m')"
    "(\<lambda>m'. if m' \<in> set ms then None else ?L m') = (\<lambda>m'. if m' \<in> set (m # ms) then None else L m')"
    by (auto simp: fun_eq_iff)
  have "hoare (finish_at p F A G M L) (finish_multi_mem junk p m) (\<lambda>p'. finish_at p' F ?A G ?M ?L)"
    using Cons.prems(2) [of m] by (intro hoare_finish_multi) simp_all
  then show ?case
    unfolding m_fold.simps
  proof (rule hoare_bind)
    fix p'
    have "hoare (finish_at p' F ?A G ?M ?L) (m_fold (finish_multi_mem junk) p' ms)
      (\<lambda>p'. finish_at p' F (\<lambda>m'. if m' \<in> set ms then multi_array opts m' else ?A m') G
         (\<lambda>m'. if m' \<in> set ms then clear_multi else ?M m') (\<lambda>m'. if m' \<in> set ms then None else ?L m'))"
      using Cons.prems by (intro Cons.IH) auto
    then show "hoare (finish_at p' F ?A G ?M ?L) (m_fold (finish_multi_mem junk) p' ms)
      (\<lambda>p'. finish_at p' F (\<lambda>m'. if m' \<in> set (m # ms) then multi_array opts m' else A m') G
         (\<lambda>m'. if m' \<in> set (m # ms) then clear_multi else M m') (\<lambda>m'. if m' \<in> set (m # ms) then None else L m'))"
      unfolding fns .
  qed
qed

lemma all_multi: "distinct all_multi" "set all_multi = UNIV"
proof -
  show "set all_multi = UNIV" by (auto simp: all_multi_def intro: multi.exhaust)
qed (simp add: all_multi_def)

lemma hoare_finish_parsed:
  "hoare (parsed_at junk opts p) (m_fold (finish_multi_mem pjunk) p all_multi)
    (\<lambda>p'. info_at (pr_info p') (single_field junk opts) (multi_array opts) *
       info_at (pr_local p') (local_single junk opts) (\<lambda>_. clear_multi))"
proof -
  have "hoare (finish_at p (single_field junk opts) (\<lambda>_. clear_multi) (local_single junk opts) (local_multi opts)
        (\<lambda>m. Some (rev (map node_of (multi_tokens m opts))))) (m_fold (finish_multi_mem pjunk) p all_multi)
    (\<lambda>p'. finish_at p' (single_field junk opts) (\<lambda>m. if m \<in> set all_multi then multi_array opts m else clear_multi)
       (local_single junk opts) (\<lambda>m. if m \<in> set all_multi then clear_multi else local_multi opts m)
       (\<lambda>m. if m \<in> set all_multi then None else Some (rev (map node_of (multi_tokens m opts)))))"
    by (rule hoare_finish_all) (simp_all add: all_multi)
  then show ?thesis
    by (simp add: all_multi parsed_at_def finish_at_start) (simp add: finish_at_def each_def list_at_def)
qed

text \<open>After a failure: the lists, and then both structures.\<close>

lemma hoare_free_lists:
  "\<lbrakk>distinct ms; \<And>m. m \<in> set ms \<Longrightarrow> L m \<noteq> None\<rbrakk> \<Longrightarrow>
   hoare (each list_at l L) (m_fold (\<lambda>_ m. free_list (l m) True) () ms)
     (\<lambda>_. each list_at l (\<lambda>m. if m \<in> set ms then None else L m))"
proof (induction ms arbitrary: L)
  case Nil
  show ?case by (simp add: hoare_ret_eq)
next
  case (Cons m ms)
  then obtain fs where fs: "L m = Some fs" by auto
  have one: "hoare (each list_at l L) (free_list (l m) True) (\<lambda>_. each list_at l (L(m := None)))"
  proof -
    have "hoare (nodes_at (l m) fs * others list_at l L m) (free_list (l m) True) (\<lambda>_. 1 * others list_at l L m)"
      by (rule hoare_frame [OF hoare_free_list])
    moreover have "each list_at l (L(m := None)) = others list_at l L m"
      by (simp add: each_split [where a = m] list_at_def others_def)
    ultimately show ?thesis by (simp add: each_split [where a = m and h = L] fs list_at_def)
  qed
  have fn: "(\<lambda>m'. if m' \<in> set ms then None else (L(m := None)) m') = (\<lambda>m'. if m' \<in> set (m # ms) then None else L m')"
    by (auto simp: fun_eq_iff)
  have "hoare (each list_at l (L(m := None))) (m_fold (\<lambda>_ m. free_list (l m) True) () ms)
     (\<lambda>_. each list_at l (\<lambda>m'. if m' \<in> set ms then None else (L(m := None)) m'))"
    using Cons.prems by (intro Cons.IH) auto
  then show ?case unfolding m_fold.simps fn by (intro hoare_bind [OF one]) simp
qed

lemma hoare_free_all_lists:
  "hoare (each nodes_at l L) (m_fold (\<lambda>_ m. free_list (l m) True) () all_multi) (\<lambda>_. 1)"
proof -
  have "hoare (each list_at l (\<lambda>m. Some (L m))) (m_fold (\<lambda>_ m. free_list (l m) True) () all_multi)
     (\<lambda>_. each list_at l (\<lambda>m. if m \<in> set all_multi then None else Some (L m)))"
    by (rule hoare_free_lists) (simp_all add: all_multi)
  then show ?thesis by (simp add: all_multi each_def list_at_def)
qed

text \<open>What is left after cmdline_parser_internal has failed.\<close>

definition owned :: "ptr_info \<Rightarrow> assn" where
  "owned pi = some (\<lambda>(F, A). pure (typed F \<and> (\<forall>m. counted (A m))) * info_at pi F A)"

lemma ownedI: "\<lbrakk>typed F; \<And>m. counted (A m)\<rbrakk> \<Longrightarrow> entails (info_at pi F A) (owned pi)"
  unfolding owned_def by (rule entails_some [where x = "(F, A)"]) simp

lemma hoare_release_owned: "hoare (owned pi) (cmdline_parser_release pi) (\<lambda>_. 1)"
  unfolding owned_def
proof (rule hoare_some)
  fix x :: "(single \<Rightarrow> field) \<times> (multi \<Rightarrow> multi_field)"
  show "hoare (case x of (F, A) \<Rightarrow> pure (typed F \<and> (\<forall>m. counted (A m))) * info_at pi F A)
      (cmdline_parser_release pi) (\<lambda>_. 1)"
    by (cases x) (simp, rule hoare_pure, simp add: hoare_release)
qed

lemma hoare_failure:
  "hoare (failed_at p)
     (m_seq (m_fold (\<lambda>_ m. free_list (pr_list p m) True) () all_multi)
        (m_seq (cmdline_parser_release (pr_local p)) (m_ret (Inr (True, pr_info p)))))
     (\<lambda>r. pure (r = Inr (True, pr_info p)) * owned (pr_info p))"
  unfolding failed_at_def
proof (rule hoare_some)
  fix x :: "(single \<Rightarrow> field) \<times> (single \<Rightarrow> field) \<times> (multi \<Rightarrow> multi_field) \<times> (multi \<Rightarrow> field list)"
  obtain F G M L where x: "x = (F, G, M, L)" by (cases x)
  let ?rel = "m_seq (cmdline_parser_release (pr_local p)) (m_ret (Inr (True, pr_info p)))"
  let ?Q = "\<lambda>r. pure (r = Inr (True, pr_info p)) * owned (pr_info p)"
  have "hoare (pure (typed F \<and> typed G \<and> (\<forall>m. counted (M m))) * parse_at p F G M L)
     (m_seq (m_fold (\<lambda>_ m. free_list (pr_list p m) True) () all_multi) ?rel) ?Q"
  proof (rule hoare_pure)
    assume t: "typed F \<and> typed G \<and> (\<forall>m. counted (M m))"
    have rel: "hoare (info_at (pr_local p) G M) (cmdline_parser_release (pr_local p)) (\<lambda>_. 1)"
      using t by (intro hoare_release) simp_all
    have own: "entails (info_at (pr_info p) F (\<lambda>_. clear_multi)) (owned (pr_info p))"
      using t by (intro ownedI counted_local) simp
    have "hoare (info_at (pr_local p) G M * info_at (pr_info p) F (\<lambda>_. clear_multi)) ?rel ?Q"
      by (rule hoare_step_seq [OF rel refl]) (simp add: hoare_ret_entails own)
    then show "hoare (parse_at p F G M L)
       (m_seq (m_fold (\<lambda>_ m. free_list (pr_list p m) True) () all_multi) ?rel) ?Q"
      by (intro hoare_step_seq [OF hoare_free_all_lists [of "pr_list p" L],
            where R = "info_at (pr_local p) G M * info_at (pr_info p) F (\<lambda>_. clear_multi)"])
        (simp_all add: parse_at_def ac_simps)
  qed
  then show "hoare (case x of (F, G, M, L) \<Rightarrow> pure (typed F \<and> typed G \<and> (\<forall>m. counted (M m))) * parse_at p F G M L)
     (m_seq (m_fold (\<lambda>_ m. free_list (pr_list p m) True) () all_multi) ?rel) ?Q"
    by (simp only: x prod.case)
qed

text \<open>The check at the end sees what the values say.\<close>

lemma info_at_given: "info_at pi F A = pure (pf_given (pi_single pi s) = f_given (F s)) * info_at pi F A"
  unfolding info_at_def each_split [where a = s and h = F] mult.assoc
  by (subst field_at_again) (simp only: mult.assoc)

lemma required_described:
  assumes "pf_given (pi_single pi O_ephemeral) = f_given (single_field junk opts O_ephemeral)"
    and "pf_given (pi_single pi O_chroot) = f_given (single_field junk opts O_chroot)"
  shows "required_mem pi \<longleftrightarrow> cmdline_parser_required2 (described junk opts)"
  unfolding described_required required_mem_def assms
  by (auto simp: all_multi_def check_multiple_option_occurrences_def single_field_def set_single_def split: list.split)

lemma counted_array: "counted (multi_array opts m)"
  by (auto simp: counted_def multi_array_def Let_def)

lemma parse_options_after:
  "parse_options junk opts =
     (case parse_all (parsed junk []) opts of
        Inl e \<Rightarrow> Inl e
      | Inr _ \<Rightarrow> if cmdline_parser_required2 (described junk opts) then Inl (Exit 1) else Inr (described junk opts))"
proof (cases "parse_all (parsed junk []) opts")
  case (Inr q)
  have "accepted []" by (simp add: accepted_def single_args_def)
  from all_parsed [OF parse_all_plain [OF Inr] this, of junk] Inr have "q = parsed junk opts"
    by (simp split: if_splits)
  with Inr finish_parsed [of junk opts] show ?thesis
    by (auto simp: parse_options_def parsed_Nil [symmetric] parse_end_def)
qed (simp add: parse_options_def parsed_Nil)

definition internal_at :: "failure + args_info \<Rightarrow> int + bool \<times> ptr_info \<Rightarrow> assn" where
  "internal_at res r =
     (case r of
        Inl n \<Rightarrow> pure (res = Inl (Exit n) \<and> n = 0) * anything
      | Inr (bad, pi) \<Rightarrow>
          if bad then pure (res = Inl (Exit 1)) * owned pi
          else (case res of Inl e \<Rightarrow> pure False | Inr ai \<Rightarrow> info_at pi (ai_single ai) (ai_multi ai)))"

lemma hoare_parse_end:
  "hoare (parsed_at junk opts p)
     (m_bind (m_fold (finish_multi_mem pjunk) p all_multi) (\<lambda>p.
        m_seq (cmdline_parser_release (pr_local p)) (m_ret (Inr (required_mem (pr_info p), pr_info p)))))
     (internal_at (if cmdline_parser_required2 (described junk opts) then Inl (Exit 1) else Inr (described junk opts)))"
proof (rule hoare_bind [OF hoare_finish_parsed])
  fix p
  let ?I = "info_at (pr_info p) (single_field junk opts) (multi_array opts)"
  let ?Q = "internal_at (if cmdline_parser_required2 (described junk opts) then Inl (Exit 1) else Inr (described junk opts))"
  let ?r = "m_ret (Inr (required_mem (pr_info p), pr_info p))"
  have rel: "hoare (info_at (pr_local p) (local_single junk opts) (\<lambda>_. clear_multi)) (cmdline_parser_release (pr_local p)) (\<lambda>_. 1)"
    by (intro hoare_release typed_local counted_local)
  have own: "entails ?I (owned (pr_info p))"
    by (intro ownedI typed_single_field counted_array)
  have "hoare ?I ?r ?Q"
  proof (rule hoare_pure_eq [OF info_at_given [where s = O_ephemeral]],
      rule hoare_pure_eq [OF info_at_given [where s = O_chroot]])
    assume "pf_given (pi_single (pr_info p) O_ephemeral) = f_given (single_field junk opts O_ephemeral)"
      and "pf_given (pi_single (pr_info p) O_chroot) = f_given (single_field junk opts O_chroot)"
    from required_described [OF this] own show "hoare ?I ?r ?Q"
      by (intro hoare_ret_entails) (simp add: internal_at_def described_def)
  qed
  then show "hoare (?I * info_at (pr_local p) (local_single junk opts) (\<lambda>_. clear_multi))
      (m_seq (cmdline_parser_release (pr_local p)) ?r) ?Q"
    by (intro hoare_step_seq [OF rel, where R = ?I]) (simp_all add: mult.commute)
qed

lemma hoare_internal:
  assumes "list_all known opts"
  shows "hoare 1 (cmdline_parser_internal_mem junk pjunk opts) (internal_at (parse_options junk opts))"
  unfolding cmdline_parser_internal_mem_def
proof (rule hoare_bind [OF hoare_init])
  fix info
  let ?I = "\<lambda>pi. info_at pi (\<lambda>s. clear_single s junk) (\<lambda>_. clear_multi)"
  let ?last = "\<lambda>r. case r of Exited n \<Rightarrow> m_ret (Inl n)
       | Failure p \<Rightarrow>
           m_seq (m_fold (\<lambda>_ m. free_list (pr_list p m) True) () all_multi)
           (m_seq (cmdline_parser_release (pr_local p)) (m_ret (Inr (True, pr_info p))))
       | Go p \<Rightarrow>
           m_bind (m_fold (finish_multi_mem pjunk) p all_multi) (\<lambda>p.
             m_seq (cmdline_parser_release (pr_local p))
               (m_ret (Inr (required_mem (pr_info p), pr_info p))))"
  let ?Q = "internal_at (parse_options junk opts)"
  show "hoare (?I info) (m_bind (cmdline_parser_init_mem junk) (\<lambda>local_info.
      m_bind (parse_all_mem \<lparr>pr_info = info, pr_local = local_info, pr_list = (\<lambda>_. 0)\<rparr> opts) ?last)) ?Q"
  proof (rule hoare_step [OF hoare_init, where R = "?I info"])
    fix local_info
    let ?p = "\<lparr>pr_info = info, pr_local = local_info, pr_list = (\<lambda>_. 0)\<rparr>"
    have start: "?I local_info * ?I info = parsed_at junk [] ?p"
    proof -
      have "local_single junk [] = (\<lambda>s. clear_single s junk)" "local_multi [] = (\<lambda>_. clear_multi)"
        "single_field junk [] = (\<lambda>s. clear_single s junk)"
        by (simp_all add: fun_eq_iff local_single_def local_multi_def single_field_def single_args_def
            multi_tokens_def clear_single_def clear_multi_def)
      moreover have "each nodes_at (\<lambda>_ :: multi. 0) (\<lambda>m. rev (map node_of (multi_tokens m []))) = 1"
        unfolding each_def by (intro prod.neutral) (simp add: multi_tokens_def)
      ultimately show ?thesis by (simp add: parsed_at_def parse_at_def mult.commute)
    qed
    have "accepted []" by (simp add: accepted_def single_args_def)
    note loop = hoare_parse_all [OF assms this, of junk ?p, unfolded append_Nil]
    show "hoare (?I local_info * ?I info) (m_bind (parse_all_mem ?p opts) ?last) ?Q"
      unfolding start
    proof (rule hoare_bind [OF loop])
      fix r
      show "hoare (loop_at junk opts (parse_all (parsed junk []) opts) r) (?last r) ?Q"
      proof (cases "parse_all (parsed junk []) opts")
        case (Inl e)
        then have e: "parse_options junk opts = Inl e" by (simp add: parse_options_after)
        show ?thesis
        proof (cases r)
          case (Failure p)
          have "hoare (pure (e = Exit 1) * failed_at p) (?last r) ?Q"
          proof (rule hoare_pure)
            assume "e = Exit 1"
            then show "hoare (failed_at p) (?last r) ?Q"
              unfolding Failure flow.case
              by (intro hoare_post [OF hoare_failure]) (auto simp: internal_at_def e entails_def)
          qed
          with Inl Failure show ?thesis by simp
        next
          case (Exited n)
          with Inl e show ?thesis by (simp add: hoare_ret_eq internal_at_def)
        qed (simp add: Inl)
      next
        case (Inr q)
        then have o: "parse_options junk opts =
            (if cmdline_parser_required2 (described junk opts) then Inl (Exit 1) else Inr (described junk opts))"
          by (simp add: parse_options_after)
        show ?thesis unfolding Inr o by (cases r) (simp_all add: hoare_parse_end)
      qed
    qed
  qed simp
qed

definition parser_at :: "failure + args_info \<Rightarrow> int + ptr_info \<Rightarrow> assn" where
  "parser_at res r =
     (case r of
        Inl n \<Rightarrow> pure (res = Inl (Exit n)) * (if n = 0 then anything else 1)
      | Inr pi \<Rightarrow> (case res of Inl e \<Rightarrow> pure False | Inr ai \<Rightarrow> info_at pi (ai_single ai) (ai_multi ai)))"

lemma hoare_parser:
  assumes "list_all known opts"
  shows "hoare 1 (cmdline_parser_mem junk pjunk opts) (parser_at (parse_options junk opts))"
  unfolding cmdline_parser_mem_def
proof (rule hoare_bind [OF hoare_internal [OF assms]])
  fix r :: "int + bool \<times> ptr_info"
  let ?res = "parse_options junk opts"
  show "hoare (internal_at ?res r) (case r of Inl n \<Rightarrow> m_ret (Inl n)
       | Inr (bad, pi) \<Rightarrow> if bad then m_seq (cmdline_parser_release pi) (m_ret (Inl 1)) else m_ret (Inr pi))
     (parser_at ?res)"
  proof (cases r)
    case (Inl n)
    then show ?thesis by (cases "n = 0") (simp_all add: internal_at_def parser_at_def hoare_ret_eq)
  next
    case (Inr b)
    obtain bad pi where b: "b = (bad, pi)" by (cases b)
    show ?thesis
    proof (cases bad)
      case True
      have "hoare (pure (?res = Inl (Exit 1)) * owned pi) (m_seq (cmdline_parser_release pi) (m_ret (Inl 1))) (parser_at ?res)"
        by (rule hoare_pure, rule hoare_seq [OF hoare_release_owned]) (simp add: parser_at_def hoare_ret_eq)
      with Inr b True show ?thesis by (simp add: internal_at_def)
    next
      case False
      with Inr b show ?thesis by (cases ?res) (simp_all add: internal_at_def parser_at_def hoare_ret_eq)
    qed
  qed
qed

lemma known_from_getopt: "from_getopt opt \<Longrightarrow> known opt"
  by (cases opt) (auto simp: from_getopt_def known_def well_formed_def long_options_def plain_def single_of_def multi_of_def)

section \<open>Properties\<close>

text \<open>
  C16: The parser and its memory, for every command line and whatever malloc
  leaves in new memory: it never uses a pointer that is NULL or not allocated,
  and never frees such a one; it ends as the parser of Cmdline does.  When it
  refuses the command line it has freed everything; when it accepts, the structure
  owns exactly the strings and arrays that Cmdline describes, each in a block of
  its own, and cmdline_parser_release then leaves nothing over.
\<close>

theorem cmdline_parser_memory:
  "\<exists>r m. cmdline_parser_mem junk pjunk (fst (getopt_all posix argv)) no_mem = Some (r, m) \<and>
    (case r of
       Inl n \<Rightarrow> cmdline_parser posix junk argv = Inl (Exit n) \<and> (n = 0 \<or> blocks m = Map.empty)
     | Inr pi \<Rightarrow> \<exists>ai rest pi' m'. cmdline_parser posix junk argv = Inr (ai, rest) \<and>
         holds (info_at pi (ai_single ai) (ai_multi ai)) (blocks m) \<and>
         cmdline_parser_release pi m = Some (pi', m') \<and> blocks m' = Map.empty)"
proof -
  obtain opts rest where g: "getopt_all posix argv = (opts, rest)" by (cases "getopt_all posix argv")
  have "list_all known opts"
    using getopt_well_formed [of posix argv] g by (auto simp: list_all_iff known_from_getopt)
  from run_hoare [OF hoare_parser [OF this], of no_mem junk pjunk] obtain r m where
    run: "cmdline_parser_mem junk pjunk opts no_mem = Some (r, m)"
    and at: "holds (parser_at (parse_options junk opts) r) (blocks m)" and m: "fresh m"
    by auto
  show ?thesis
  proof (cases r)
    case (Inl n)
    from at have "parse_options junk opts = Inl (Exit n) \<and> (n = 0 \<or> blocks m = Map.empty)"
      unfolding parser_at_def Inl sum.case holds_pure by auto
    with run Inl g show ?thesis by (auto simp: cmdline_parser_def)
  next
    case (Inr pi)
    with at obtain ai where ai: "parse_options junk opts = Inr ai"
      and h: "holds (info_at pi (ai_single ai) (ai_multi ai)) (blocks m)"
      by (cases "parse_options junk opts") (auto simp: parser_at_def pure_def)
    from parse_options_Inr [OF ai] have "ai = described junk opts" by simp
    then have "hoare (info_at pi (ai_single ai) (ai_multi ai)) (cmdline_parser_release pi) (\<lambda>_. 1)"
      by (intro hoare_release) (simp_all add: described_def typed_single_field counted_array)
    from this h m obtain pi' m' where "cmdline_parser_release pi m = Some (pi', m')" "blocks m' = Map.empty"
      by (rule run_hoare) (simp only: holds_one)
    with run Inr ai h g show ?thesis by (auto simp: cmdline_parser_def)
  qed
qed

theorem cmdline_parser_memory_witness:
  "\<exists>pi m pi' m'. cmdline_parser_mem 0 0 (fst (getopt_all False [''-rc'', ''-m'', ''a,b''])) no_mem = Some (Inr pi, m) \<and>
     (\<exists>p. pf_arg (pi_single pi O_chroot) = PStr p \<and> p \<noteq> 0 \<and> blocks m p = Some (Chars ''c'')) \<and>
     cmdline_parser_release pi m = Some (pi', m') \<and> blocks m' = Map.empty"
proof -
  have c: "(case cmdline_parser False 0 [''-rc'', ''-m'', ''a,b''] of
      Inr (ai, _) \<Rightarrow> f_arg (ai_single ai O_chroot) = StrVal (Some ''c'') | _ \<Rightarrow> False)"
    by code_simp
  define argv where "argv = [''-rc'', ''-m'', ''a,b'']"
  from c obtain ai rest where ai: "cmdline_parser False 0 argv = Inr (ai, rest)"
    and f: "f_arg (ai_single ai O_chroot) = StrVal (Some ''c'')"
    unfolding argv_def [symmetric] by (auto split: sum.splits prod.splits)
  from cmdline_parser_memory [of 0 0 False argv] obtain x m where
    x: "cmdline_parser_mem 0 0 (fst (getopt_all False argv)) no_mem = Some (x, m)"
    and post: "case x of
       Inl n \<Rightarrow> cmdline_parser False 0 argv = Inl (Exit n) \<and> (n = 0 \<or> blocks m = Map.empty)
     | Inr pi \<Rightarrow> \<exists>ai rest pi' m'. cmdline_parser False 0 argv = Inr (ai, rest) \<and>
         holds (info_at pi (ai_single ai) (ai_multi ai)) (blocks m) \<and>
         cmdline_parser_release pi m = Some (pi', m') \<and> blocks m' = Map.empty" by blast
  then obtain pi pi' m' where
    run: "cmdline_parser_mem 0 0 (fst (getopt_all False argv)) no_mem = Some (Inr pi, m)"
    and h: "holds (info_at pi (ai_single ai) (ai_multi ai)) (blocks m)"
    and r: "cmdline_parser_release pi m = Some (pi', m')" "blocks m' = Map.empty"
    using ai by (cases x) auto
  obtain p where p: "pf_arg (pi_single pi O_chroot) = PStr p" "p \<noteq> 0" "blocks m p = Some (Chars ''c'')"
  proof (cases "pf_arg (pi_single pi O_chroot)")
    case (PStr p)
    with h f have "p \<noteq> 0 \<and> blocks m p = Some (Chars ''c'')"
      by (simp add: info_at_def each_split [where a = O_chroot and g = field_at] field_at_def str_at_def mult.assoc split_pts)
    with PStr that show ?thesis by blast
  qed (use h f in \<open>simp_all add: info_at_def each_split [where a = O_chroot and g = field_at] field_at_def pure_def times_assn_def\<close>)
  from run p r show ?thesis unfolding argv_def by blast
qed

end
