(* ===== verification/Cmdline_Params.thy ===== *)
theory Cmdline_Params
  imports Cmdline
begin

text \<open>
  The entry points of src/cmdline.c that take parameters: \<open>cmdline_parser_ext\<close>,
  \<open>cmdline_parser2\<close> and \<open>cmdline_parser_required\<close>, with which a program can read its
  options from several places into one structure.  pflask itself calls
  \<open>cmdline_parser\<close>, which is the case of the initial parameters.
\<close>

section \<open>Parameters\<close>

record cmdline_parser_params =
  pm_override :: bool
  pm_initialize :: bool
  pm_check_required :: bool
  pm_check_ambiguity :: bool
  pm_print_errors :: bool

definition cmdline_parser_params_init :: cmdline_parser_params where
  "cmdline_parser_params_init =
     \<lparr>pm_override = False, pm_initialize = True, pm_check_required = True,
      pm_check_ambiguity = False, pm_print_errors = True\<rparr>"

section \<open>The parser with parameters\<close>

definition parse_single_with :: "cmdline_parser_params \<Rightarrow> parse \<Rightarrow> single \<Rightarrow> cstring option \<Rightarrow> failure + parse" where
  "parse_single_with pm p s optarg =
     (case update_arg (ai_single (p_info p) s) (p_single p s) optarg (arg_type_of s)
             (pm_check_ambiguity pm) (pm_override pm) False of
        None \<Rightarrow> Inl (Exit 1)
      | Some (fld, n) \<Rightarrow>
          Inr (p\<lparr>p_info := (p_info p)\<lparr>ai_single := (ai_single (p_info p))(s := fld)\<rparr>,
                 p_single := (p_single p)(s := n)\<rparr>))"

definition parse_step_with :: "cmdline_parser_params \<Rightarrow> parse \<Rightarrow> given_option \<Rightarrow> failure + parse" where
  "parse_step_with pm p opt =
     (case opt of (c, optarg) \<Rightarrow>
        if c = CHR ''h'' \<or> c = CHR ''V'' then Inl (Exit 0)
        else if c = CHR ''?'' then Inl (Exit 1)
        else
          (case single_of c of
             Some s \<Rightarrow> parse_single_with pm p s optarg
           | None \<Rightarrow>
               (case multi_of c of
                  Some m \<Rightarrow> parse_multi p m optarg
                | None \<Rightarrow> Inl (Crash ''abort()''))))"

fun parse_all_with :: "cmdline_parser_params \<Rightarrow> parse \<Rightarrow> given_option list \<Rightarrow> failure + parse" where
  "parse_all_with pm p [] = Inr p"
| "parse_all_with pm p (opt # opts) =
     (case parse_step_with pm p opt of Inl e \<Rightarrow> Inl e | Inr p' \<Rightarrow> parse_all_with pm p' opts)"

definition parse_end_with :: "cmdline_parser_params \<Rightarrow> parse \<Rightarrow> failure + args_info" where
  "parse_end_with pm p =
     (case finish_all p [M_mount, M_netif, M_user_map, M_cgroup, M_caps, M_setenv] of
        Inl e \<Rightarrow> Inl e
      | Inr p' \<Rightarrow>
          if pm_check_required pm \<and> cmdline_parser_required2 (p_info p') then Inl (Exit 1) else Inr (p_info p'))"

text \<open>The structure is an argument, and initialised first only if this is asked for.\<close>

definition cmdline_parser_internal ::
  "cmdline_parser_params \<Rightarrow> 32 word \<Rightarrow> args_info \<Rightarrow> given_option list \<Rightarrow> failure + args_info" where
  "cmdline_parser_internal pm junk ai opts =
     (let ai = (if pm_initialize pm then cmdline_parser_init junk else ai);
          p = \<lparr>p_info = ai, p_single = (\<lambda>_. 0), p_multi = (\<lambda>_. 0), p_list = (\<lambda>_. [])\<rparr>
      in case parse_all_with pm p opts of Inl e \<Rightarrow> Inl e | Inr p \<Rightarrow> parse_end_with pm p)"

text \<open>A failure frees the structure and exits.\<close>

definition cmdline_parser_ext ::
  "bool \<Rightarrow> 32 word \<Rightarrow> cstring list \<Rightarrow> args_info \<Rightarrow> cmdline_parser_params \<Rightarrow> failure + (args_info \<times> cstring list)" where
  "cmdline_parser_ext posix junk argv ai pm =
     (case getopt_all posix argv of (opts, rest) \<Rightarrow>
        (case cmdline_parser_internal pm junk ai opts of Inl e \<Rightarrow> Inl e | Inr ai \<Rightarrow> Inr (ai, rest)))"

definition cmdline_parser2 ::
  "bool \<Rightarrow> 32 word \<Rightarrow> cstring list \<Rightarrow> args_info \<Rightarrow> bool \<Rightarrow> bool \<Rightarrow> bool \<Rightarrow> failure + (args_info \<times> cstring list)" where
  "cmdline_parser2 posix junk argv ai override initialize check_required =
     (let params =
        \<lparr>pm_override = override, pm_initialize = initialize, pm_check_required = check_required,
         pm_check_ambiguity = False, pm_print_errors = True\<rparr>
      in case getopt_all posix argv of (opts, rest) \<Rightarrow>
        (case cmdline_parser_internal params junk ai opts of Inl e \<Rightarrow> Inl e | Inr ai \<Rightarrow> Inr (ai, rest)))"

definition cmdline_parser_required :: "args_info \<Rightarrow> failure + args_info" where
  "cmdline_parser_required ai = (if cmdline_parser_required2 ai then Inl (Exit 1) else Inr ai)"

section \<open>The initial parameters\<close>

lemma parse_step_with_init:
  assumes "\<not> pm_override pm" and "\<not> pm_check_ambiguity pm"
  shows "parse_step_with pm p opt = parse_step p opt"
proof -
  have "parse_single_with pm p = parse_single p"
    using assms by (simp add: fun_eq_iff parse_single_with_def parse_single_def)
  then show ?thesis by (simp only: parse_step_with_def parse_step_def)
qed

lemma parse_all_with_init:
  "\<not> pm_override pm \<Longrightarrow> \<not> pm_check_ambiguity pm \<Longrightarrow> parse_all_with pm p opts = parse_all p opts"
  by (induction opts arbitrary: p) (simp_all add: parse_step_with_init split: sum.split)

lemma internal_init:
  assumes "\<not> pm_override pm" and "\<not> pm_check_ambiguity pm" and "pm_initialize pm" and "pm_check_required pm"
  shows "cmdline_parser_internal pm junk ai opts = parse_options junk opts"
proof -
  have same: "parse_end_with pm = parse_end"
    using assms(4) by (auto simp: parse_end_with_def parse_end_def split: sum.split intro!: ext simp del: finish_all.simps)
  show ?thesis
    unfolding cmdline_parser_internal_def parse_options_def parse_init_def same
    using assms by (simp add: Let_def parse_all_with_init)
qed

text \<open>What main calls is cmdline_parser2 with 0, 1, 1, or cmdline_parser_ext with the initial parameters.\<close>

lemma cmdline_parser_is_parser2:
  "cmdline_parser posix junk argv = cmdline_parser2 posix junk argv ai False True True"
  by (simp add: cmdline_parser_def cmdline_parser2_def internal_init)

lemma cmdline_parser_is_ext:
  "cmdline_parser posix junk argv = cmdline_parser_ext posix junk argv ai cmdline_parser_params_init"
  by (simp add: cmdline_parser_def cmdline_parser_ext_def cmdline_parser_params_init_def internal_init)

section \<open>Options from several places\<close>

text \<open>
  The parser on a structure that holds what it read from earlier options, without
  override: an option that was given earlier is passed over, even if it is given
  several times or has no number; the others are read as on a command line.
\<close>

definition accepted_after :: "given_option list \<Rightarrow> given_option list \<Rightarrow> bool" where
  "accepted_after old opts \<longleftrightarrow>
     (\<forall>s. single_args s old = [] \<longrightarrow> length (single_args s opts) \<le> 1) \<and>
     (single_args O_attach old = [] \<longrightarrow> list_all is_number (single_args O_attach opts))"

definition parsed_after :: "32 word \<Rightarrow> given_option list \<Rightarrow> given_option list \<Rightarrow> parse" where
  "parsed_after junk old opts =
     \<lparr>p_info = \<lparr>ai_single = single_field junk (old @ opts), ai_multi = multi_array old\<rparr>,
      p_single = (\<lambda>s. if single_args s old = [] then length (single_args s opts) else 0),
      p_multi = (\<lambda>m. length (multi_tokens m opts)),
      p_list = (\<lambda>m. rev (map node_of (multi_tokens m opts)))\<rparr>"

lemma args_append:
  "single_args s (xs @ ys) = single_args s xs @ single_args s ys"
  "multi_tokens m (xs @ ys) = multi_tokens m xs @ multi_tokens m ys"
  by (simp_all add: single_args_def multi_tokens_def)

lemma args_one:
  "single_args s [(c, v)] = (if single_of c = Some s then [v] else [])"
  "multi_tokens m [(c, v)] = (if multi_of c = Some m then value_tokens v else [])"
  by (simp_all add: single_args_def multi_tokens_def)

lemma accepted_after_prefix: "accepted_after old (xs @ ys) \<Longrightarrow> accepted_after old xs"
  by (auto simp: accepted_after_def args_append)

lemma single_field_append:
  "single_field junk (xs @ ys) s = (if single_args s xs = [] then single_field junk ys s else single_field junk xs s)"
  by (simp add: single_field_def args_append split: list.split)

lemma single_field_given: "single_args s xs \<noteq> [] \<Longrightarrow> f_given (single_field junk xs s) = Some 1"
  by (simp add: single_field_def set_single_def split: list.split)

lemma single_after:
  assumes s: "single_of c = Some s" and acc: "accepted_after old opts"
  shows "parse_single (parsed_after junk old opts) s v =
    (if accepted_after old (opts @ [(c, v)]) then Inr (parsed_after junk old (opts @ [(c, v)])) else Inl (Exit 1))"
proof -
  have m: "multi_tokens m (opts @ [(c, v)]) = multi_tokens m opts" for m
    using single_not_multi [OF s] by (simp add: args_append args_one)
  have new: "single_args s' (opts @ [(c, v)]) = (if s' = s then single_args s opts @ [v] else single_args s' opts)" for s'
    using s by (auto simp: args_append args_one)
  show ?thesis
  proof (cases "single_args s old")
    case Nil
    show ?thesis
    proof (cases "single_args s opts")
      case no: Nil
      have "accepted_after old (opts @ [(c, v)]) \<longleftrightarrow> \<not> (arg_type_of s = ARG_INT \<and> \<not> is_number v)"
        using acc Nil no by (auto simp: accepted_after_def new arg_type_cases)
      moreover have "single_field junk (old @ opts) s = clear_single s junk"
        using Nil no by (simp add: single_field_def args_append)
      moreover have "single_field junk (old @ opts @ [(c, v)]) = (single_field junk (old @ opts))(s := set_single s junk v)"
      proof
        fix x
        show "single_field junk (old @ opts @ [(c, v)]) x = ((single_field junk (old @ opts))(s := set_single s junk v)) x"
          by (cases "x = s")
            (simp_all add: single_field_append [of junk old] single_field_def [of junk "opts @ [(c, v)]"]
              single_field_def [of junk opts] Nil no new)
      qed
      ultimately show ?thesis
        using Nil no by (auto simp: parse_single_def parsed_after_def update_first new m fun_eq_iff)
    next
      case (Cons w ws)
      then have "\<not> accepted_after old (opts @ [(c, v)])"
        using Nil by (auto simp: accepted_after_def new intro!: exI [of _ s])
      with Cons Nil show ?thesis by (simp add: parse_single_def parsed_after_def update_again)
    qed
  next
    case (Cons w ws)
    then have "single_args s old \<noteq> []" by simp
    then have "update_arg (single_field junk (old @ opts) s) 0 v (arg_type_of s) False False False =
        Some (single_field junk (old @ opts) s, 0)"
      using single_field_given [of s old junk] by (simp add: update_arg_def Let_def single_field_append)
    moreover have "accepted_after old (opts @ [(c, v)])"
      using acc Cons by (auto simp: accepted_after_def new)
    moreover have "single_field junk (old @ opts @ [(c, v)]) = single_field junk (old @ opts)"
    proof -
      have "single_field junk (opts @ [(c, v)]) x = single_field junk opts x" if "single_args x old = []" for x
        using that Cons by (auto simp: single_field_def new)
      then show ?thesis using Cons by (auto simp: fun_eq_iff single_field_append [of junk old])
    qed
    ultimately show ?thesis
      using Cons by (auto simp: parse_single_def parsed_after_def m new fun_eq_iff)
  qed
qed

lemma multi_after:
  assumes m: "multi_of c = Some m" and acc: "accepted_after old opts"
  shows "accepted_after old (opts @ [(c, v)])"
    and "parse_multi (parsed_after junk old opts) m v = Inr (parsed_after junk old (opts @ [(c, v)]))"
proof -
  have "single_of c = None" using single_not_multi m by (cases "single_of c") auto
  then have s: "single_args s (opts @ [(c, v)]) = single_args s opts" for s
    by (simp add: args_append args_one)
  with acc show "accepted_after old (opts @ [(c, v)])" by (simp add: accepted_after_def)
  have "single_field junk (old @ opts @ [(c, v)]) = single_field junk (old @ opts)"
    by (simp add: fun_eq_iff single_field_def args_append s [simplified args_append])
  then show "parse_multi (parsed_after junk old opts) m v = Inr (parsed_after junk old (opts @ [(c, v)]))"
    using m
    by (auto simp: parse_multi_def update_multiple_arg_temp_def add_tokens_spec parsed_after_def s
        multi_tokens_snoc value_tokens_def fun_eq_iff)
qed

lemma step_after:
  assumes "plain opt" and "accepted_after old opts"
  shows "parse_step (parsed_after junk old opts) opt =
    (if accepted_after old (opts @ [opt]) then Inr (parsed_after junk old (opts @ [opt])) else Inl (Exit 1))"
proof -
  obtain c v where opt: "opt = (c, v)" by (cases opt)
  show ?thesis
  proof (cases "single_of c")
    case None
    with assms(1) opt obtain m where m: "multi_of c = Some m" by (auto simp: plain_def)
    from multi_after(1) [OF m assms(2), of v] multi_after(2) [OF m assms(2), of junk v] assms(1) m None opt show ?thesis
      by (auto simp: parse_step_def plain_def)
  next
    case (Some s)
    with single_after [OF Some assms(2)] assms(1) opt show ?thesis
      by (auto simp: parse_step_def plain_def)
  qed
qed

lemma all_after:
  "\<lbrakk>list_all plain opts'; accepted_after old opts\<rbrakk> \<Longrightarrow>
   parse_all (parsed_after junk old opts) opts' =
     (if accepted_after old (opts @ opts') then Inr (parsed_after junk old (opts @ opts')) else Inl (Exit 1))"
proof (induction opts' arbitrary: opts)
  case (Cons o1 os)
  show ?case
  proof (cases "accepted_after old (opts @ [o1])")
    case True
    with Cons show ?thesis by (simp add: step_after)
  next
    case False
    then have "\<not> accepted_after old (opts @ o1 # os)"
      using accepted_after_prefix [of old "opts @ [o1]" os] by auto
    with Cons.prems False show ?thesis by (simp add: step_after)
  qed
qed simp

text \<open>The arrays grow by the new tokens.\<close>

lemma fill_after:
  "k + length list \<le> length arg \<Longrightarrow> length arg = length orig \<Longrightarrow>
   fill (length list) k list (arg, orig) =
     Inr (take k arg @ map node_string (rev list) @ drop (k + length list) arg,
          take k orig @ map f_orig (rev list) @ drop (k + length list) orig)"
proof (induction list arbitrary: arg orig)
  case (Cons x xs)
  have "take k (arg[length xs + k := y]) = take k arg" for y and arg :: "'a list" by simp
  moreover have "drop (k + length xs) (zs[length xs + k := y]) = y # drop (Suc (k + length xs)) zs"
    if "k + length xs < length zs" for y and zs :: "'a list"
    using that by (simp add: add.commute Cons_nth_drop_Suc [symmetric] drop_update_swap)
  ultimately show ?case using Cons by (simp add: drop_update_cancel Cons_nth_drop_Suc [symmetric] add.commute)
qed simp

lemma finish_after: "finish_multi (parsed_after junk old opts) m = Inr (multi_array (old @ opts) m)"
proof (cases "multi_tokens m opts")
  case Nil
  then show ?thesis
    by (auto simp: finish_multi_def parsed_after_def update_multiple_arg_def multi_array_def args_append Let_def)
next
  case (Cons t ts)
  let ?old = "multi_tokens m old" and ?new = "multi_tokens m opts" and ?a = "multi_array old m"
  let ?n = "length ?old + length ?new"
  have len: "length (mf_arg ?a) \<le> ?n" "length (mf_orig ?a) \<le> ?n"
    "length ?old \<le> length (mf_arg ?a)" "length ?old \<le> length (mf_orig ?a)"
    and tk: "take (length ?old) (mf_arg ?a) = ?old" "take (length ?old) (mf_orig ?a) = ?old"
    using Cons by (auto simp: multi_array_def Let_def)
  have "fill (length (rev (map node_of ?new))) (length ?old) (rev (map node_of ?new))
      (realloc (mf_arg ?a) ?n, realloc (mf_orig ?a) ?n) = Inr (?old @ ?new, ?old @ ?new)"
    using len tk by (subst fill_after) (simp_all add: realloc_def comp_def)
  with Cons show ?thesis
    by (simp add: finish_multi_def parsed_after_def update_multiple_arg_def multi_array_def args_append Let_def)
qed

lemma finish_all_each:
  "\<lbrakk>distinct ms; \<And>m. m \<in> set ms \<Longrightarrow> finish_multi p m = Inr (f m)\<rbrakk> \<Longrightarrow>
   \<exists>p'. finish_all p ms = Inr p' \<and> ai_single (p_info p') = ai_single (p_info p) \<and>
     (\<forall>m. ai_multi (p_info p') m = (if m \<in> set ms then f m else ai_multi (p_info p) m))"
proof (induction ms arbitrary: p)
  case (Cons m ms)
  let ?p = "p\<lparr>p_info := (p_info p)\<lparr>ai_multi := (ai_multi (p_info p))(m := f m)\<rparr>, p_multi := (p_multi p)(m := 0)\<rparr>"
  have "finish_multi ?p m' = finish_multi p m'" if "m' \<noteq> m" for m'
    using that by (auto simp: finish_multi_def split: sum.split)
  moreover have "m' \<noteq> m" "finish_multi p m' = Inr (f m')" if "m' \<in> set ms" for m'
    using that Cons.prems by auto
  ultimately have "\<And>m'. m' \<in> set ms \<Longrightarrow> finish_multi ?p m' = Inr (f m')" by metis
  with Cons.IH [of ?p] Cons.prems show ?case by auto
qed simp

lemma end_after:
  "parse_end_with pm (parsed_after junk old opts) =
     (if pm_check_required pm \<and> cmdline_parser_required2 (described junk (old @ opts)) then Inl (Exit 1)
      else Inr (described junk (old @ opts)))"
proof -
  let ?ms = "[M_mount, M_netif, M_user_map, M_cgroup, M_caps, M_setenv]" and ?p = "parsed_after junk old opts"
  obtain p' where p: "finish_all ?p ?ms = Inr p'" "ai_single (p_info p') = ai_single (p_info ?p)"
    "\<And>m. ai_multi (p_info p') m = (if m \<in> set ?ms then multi_array (old @ opts) m else ai_multi (p_info ?p) m)"
    using finish_all_each [of ?ms ?p "multi_array (old @ opts)"] finish_after by auto
  have "ai_multi (p_info p') = multi_array (old @ opts)"
  proof
    fix m show "ai_multi (p_info p') m = multi_array (old @ opts) m" using p(3) [of m] by (cases m) simp_all
  qed
  with p(2) have "p_info p' = described junk (old @ opts)" by (simp add: described_def parsed_after_def)
  with p(1) show ?thesis by (simp add: parse_end_with_def)
qed

text \<open>The structure that the parser left is a start for the next options.\<close>

lemma internal_after:
  assumes "list_all plain opts" and "\<not> pm_override pm" and "\<not> pm_check_ambiguity pm" and "\<not> pm_initialize pm"
  shows "cmdline_parser_internal pm junk (described junk old) opts =
    (if accepted_after old opts \<and> \<not> (pm_check_required pm \<and> cmdline_parser_required2 (described junk (old @ opts)))
     then Inr (described junk (old @ opts)) else Inl (Exit 1))"
proof -
  have "accepted_after old []" by (simp add: accepted_after_def single_args_def)
  moreover have "parsed_after junk old [] = \<lparr>p_info = described junk old, p_single = (\<lambda>_. 0), p_multi = (\<lambda>_. 0), p_list = (\<lambda>_. [])\<rparr>"
    by (simp add: parsed_after_def described_def single_args_def multi_tokens_def fun_eq_iff)
  ultimately show ?thesis
    using all_after [OF assms(1), of old "[]" junk] assms
    by (simp add: cmdline_parser_internal_def parse_all_with_init Let_def end_after)
qed

text \<open>The first of several places initialises the structure.\<close>

lemma internal_first:
  assumes "list_all plain opts" and "\<not> pm_override pm" and "\<not> pm_check_ambiguity pm" and "pm_initialize pm"
    and "\<not> pm_check_required pm"
  shows "cmdline_parser_internal pm junk ai opts = (if accepted opts then Inr (described junk opts) else Inl (Exit 1))"
proof -
  obtain p where "finish_all (parsed junk opts) [M_mount, M_netif, M_user_map, M_cgroup, M_caps, M_setenv] = Inr p"
    "p_info p = described junk opts" using finish_parsed by blast
  then have "parse_end_with pm (parsed junk opts) = Inr (described junk opts)"
    using assms(5) by (simp add: parse_end_with_def)
  moreover have "accepted []" by (simp add: accepted_def single_args_def)
  ultimately show ?thesis
    using all_parsed [OF assms(1), of "[]" junk] assms(2-4)
    by (simp add: cmdline_parser_internal_def parse_all_with_init Let_def parsed_Nil parse_init_def)
qed

text \<open>With override, a flag that was given before is not set again but taken back.\<close>

lemma override_takes_flag_back:
  assumes "arg_type_of s = ARG_FLAG" and "single_args s old \<noteq> []"
  shows "update_arg (single_field junk old s) 0 v (arg_type_of s) False True False =
    Some (\<lparr>f_arg = FlagVal False, f_orig = None, f_given = Some 2\<rparr>, 1)"
  using assms by (simp add: update_arg_def single_field_def set_single_def Let_def split: list.split)

section \<open>Properties\<close>

text \<open>
  C21: Options from two places, read into one structure without override and then
  checked, amount to one sequence of options in which the first place comes first
  and decides: single options are those of the first place where it has them, and
  the arrays hold the values of both, in order.  Only a repetition or a bad
  number that is not passed over is refused, and --ephemeral without --chroot.
\<close>

theorem options_from_two_places:
  assumes "list_all plain opts1" and "list_all plain opts2"
  shows "(case cmdline_parser_internal (cmdline_parser_params_init\<lparr>pm_check_required := False\<rparr>) junk ai opts1 of
            Inl e \<Rightarrow> Inl e
          | Inr ai \<Rightarrow>
              (case cmdline_parser_internal
                      (cmdline_parser_params_init\<lparr>pm_initialize := False, pm_check_required := False\<rparr>) junk ai opts2 of
                 Inl e \<Rightarrow> Inl e
               | Inr ai \<Rightarrow> cmdline_parser_required ai)) =
    (if accepted opts1 \<and> accepted_after opts1 opts2 \<and>
        (single_args O_ephemeral (opts1 @ opts2) = [] \<or> single_args O_chroot (opts1 @ opts2) \<noteq> [])
     then Inr (described junk (opts1 @ opts2)) else Inl (Exit 1))"
  using assms
  by (simp add: cmdline_parser_params_init_def internal_first internal_after cmdline_parser_required_def described_required)

theorem options_from_two_places_witness:
  "accepted_after [(CHR ''r'', Some ''/a'')] [(CHR ''r'', Some ''/b''), (CHR ''w'', None)] \<and>
   (\<exists>ai ai'.
      cmdline_parser_internal (cmdline_parser_params_init\<lparr>pm_check_required := False\<rparr>) 0 (cmdline_parser_init 0)
        [(CHR ''r'', Some ''/a'')] = Inr ai \<and>
      cmdline_parser_internal (cmdline_parser_params_init\<lparr>pm_initialize := False, pm_check_required := False\<rparr>) 0 ai
        [(CHR ''r'', Some ''/b''), (CHR ''w'', None)] = Inr ai' \<and>
      f_arg (ai_single ai' O_chroot) = StrVal (Some ''/a'') \<and> f_arg (ai_single ai' O_ephemeral) = FlagVal True)"
proof -
  let ?o = "[(CHR ''r'', Some ''/a'')]" and ?n = "[(CHR ''r'', Some ''/b''), (CHR ''w'', None)]"
  have p: "list_all plain ?o" "list_all plain ?n" by (simp_all add: plain_def single_of_def)
  have a: "accepted ?o" "accepted_after ?o ?n"
  proof -
    have "length (single_args s ?o) \<le> 1" "single_args s ?o = [] \<longrightarrow> length (single_args s ?n) \<le> 1" for s
      by (cases s; simp add: single_args_def single_of_def)+
    then show "accepted ?o" "accepted_after ?o ?n"
      by (simp_all add: accepted_def accepted_after_def) (simp_all add: single_args_def single_of_def)
  qed
  have r: "single_args O_chroot (?o @ ?n) \<noteq> []" by (simp add: single_args_def single_of_def)
  have "\<exists>ai ai'.
      cmdline_parser_internal (cmdline_parser_params_init\<lparr>pm_check_required := False\<rparr>) 0 (cmdline_parser_init 0) ?o = Inr ai \<and>
      cmdline_parser_internal (cmdline_parser_params_init\<lparr>pm_initialize := False, pm_check_required := False\<rparr>) 0 ai ?n = Inr ai' \<and>
      ai' = described 0 (?o @ ?n)"
    using options_from_two_places [OF p, of 0 "cmdline_parser_init 0"] a r
    by (auto simp: cmdline_parser_required_def split: sum.splits if_splits)
  moreover have "f_arg (ai_single (described 0 (?o @ ?n)) O_chroot) = StrVal (Some ''/a'')"
    "f_arg (ai_single (described 0 (?o @ ?n)) O_ephemeral) = FlagVal True"
    by (simp_all add: described_def single_field_def single_args_def single_of_def set_single_def arg_type_of_def)
  ultimately show ?thesis using a(2) by auto
qed

end
