(* ===== verification/Spec2Isabelle.thy ===== *)
theory Spec2Isabelle
  imports Utlist_Sort Program Relay Together Messages Cmdline_Parser_Memory Cmdline_Output Cmdline_Params
begin

text \<open>
  A verification library for pflask, a program that runs a command in a Linux
  container.  This theory is its root and documentation.

  \<^bold>\<open>The program.\<close>  main (src/pflask.c) turns its options into lists (mounts,
  interfaces, users, control groups, capabilities) and clone flags, opens a pseudo
  terminal, and clones.  The child waits at a barrier until the parent has set up
  what it cannot set up itself; then it changes its user, mounts the file systems
  of the container, makes the device files, changes its root, drops capabilities,
  builds the environment and executes the command.  The parent sets up the
  console's owner, control groups, interfaces and user mappings, wakes the child,
  relays (or serves to another pflask) the terminal, and in the end removes what
  it made.

  \<^bold>\<open>The model.\<close>  Programs are functions from a kernel and a history of system
  calls to a failure or a value, and the longer history (\<open>'a io\<close> in Prelude).  A
  kernel is any function from the history and a call to a reply, so a statement
  about all kernels covers every result of every call, also errors.  The macros
  fail_if and sys_fail_if, which end the process, are failures; so are reads through
  NULL and writes outside a buffer (\<open>Crash\<close>).  Machine integers are words where
  the code truncates or wraps (ids, flags, netlink bytes), and int or nat where
  it only compares results of system calls.

  \<^bold>\<open>The theories.\<close>
  \<^item> Prelude: calls, replies, programs, and the laws of histories that the other
    theories share: \<open>issues\<close> (a fixed sequence of calls), \<open>grows\<close>, \<open>keeps\<close> and the
    locale \<open>trace_law\<close> for properties closed under more calls, \<open>avoids\<close>, the
    locales \<open>each_step\<close> and \<open>each_adds\<close> for loops over a list, and \<open>snoc_store\<close>
    and \<open>total_snoc_store\<close> for lists to which records are appended; \<open>replay\<close> follows
    a state outside the program (a library's, the kernel's) through its calls.
  \<^item> Clib: what the code uses of the C library's strings and numbers (strtok_r,
    strspn, strtoul, printing of numbers, memcmp).
  \<^item> Utlist: DL_APPEND, DL_CONCAT and DL_FOREACH of deps/ut/utlist.h on a heap of
    next and prev pointers; they refine append and traversal of lists, and this
    is why the other theories use lists.
  \<^item> Utlist_Macros, Utlist_Sort: the other macros of that header, for singly linked,
    doubly linked and circular lists; each refines an operation on lists, and the
    three sort macros sort, stably, with the links alone.
  \<^item> Messages: src/printf.c; a message comes out whole, where it should.
  \<^item> Util: split_str of src/util.c and validate_optlist of src/pflask.c.
  \<^item> Path: src/path.c; path_compare is a linear order on lists of components, and
    path_prefix_root puts a path below a root (\<open>below_root\<close> says where, with its
    exceptions).
  \<^item> User: src/user.c and the parsing of --user-map; the mappings that are written
    read back as those that were asked for; the credentials of a process through
    its setresuid calls.
  \<^item> Netlink, Netif: src/nl.c byte by byte, and src/netif.c; each request decodes to
    the attributes that the kernel expects.
  \<^item> Mount: src/mount.c; the mounts that setup_mount makes, call by call.
  \<^item> Cgroup, Capabilities, Dev: src/cgroup.c, src/capabilities.c, src/dev.c; for the
    capabilities both the library's set and the one in force are followed.
  \<^item> Sync: src/sync.c, and the protocol of parent and child as a step relation over
    their programs, with queues in the socket pair and crashes at any time; the
    order of their actions and their progress are invariants of reachable states.
  \<^item> Machine: src/machine.c, the message to systemd-machined.
  \<^item> Pty: src/pty.c; relaying, serving and receiving the terminal.  Relay: its two
    loops end (the locale \<open>wait_loop\<close>).
  \<^item> Pflask: main of src/pflask.c, composed of all of these; the child's and the
    parent's calls refine their programs in Sync.
  \<^item> Lifecycle: the whole run of main, and the directories it makes and removes.
  \<^item> Together: the two processes of main at the same time; for every interleaving of
    the calls of their models that a socket pair allows, the order that Sync shows
    for the protocol; and which calls of the parent concern that pair.
  \<^item> Getopt, Cmdline: getopt_long with the tables of src/cmdline.c, and the parser
    itself; its result is what a description of the whole command line says, and a
    written command line is read back.
  \<^item> Alloc: blocks on a heap, commands that fail when they use a block that is not
    allocated, and a separation logic for them: assertions are a commutative
    monoid, so that the simplifier reorders them.  Cmdline_Memory,
    Cmdline_Parser_Memory: the parser once more, with malloc, realloc and free; it
    computes what Cmdline says and leaves nothing behind.  Cmdline_Output: the help,
    the version, the messages of the parser and the saving of options; the tables of the program agree with
    each other, and saved options give the same structure.  Cmdline_Params: the parser
    with parameters, and options that come from several places.
  \<^item> Program: parser and main together, with what the parser prints.

  \<^bold>\<open>Bounds.\<close>  The two terminal loops of pty.c can run for ever.  Their models take
  a number \<open>n\<close> of rounds, and the result tells whether the loop was left; the
  properties hold for every \<open>n\<close>, so they say something about every prefix of an
  endless run, and Relay shows that N + 1 rounds are enough when the kernel gives a
  reason to leave from the N-th wait on.  The loops of
  utlist.h, its sort macros included, are partial functions, None when a loop does
  not end, and None also when a counter of the sort macros, a C int, overflows; they are
  shown to end on well formed lists, the sort macros on those of at most 2^30
  nodes, which is exactly where the overflow begins.  Every other function is total.

  \<^bold>\<open>Conventions.\<close>  Memory does not run out (\<open>plenty\<close>), except in split_str, whose
  result depends on it; asprintf and strdup succeed.  The failures of the programs
  carry the formats of their messages, without quotes; Messages shows what is
  printed of a format.  Only the fields of struct termios
  that cfmakeraw changes are modelled.  An exec with a non-negative result stands
  for a successful one, after which the code of pflask does not run on.

  \<^bold>\<open>Not modelled.\<close>  libcap-ng's table of names is a parameter, and so is the message
  of getopt_long for an option that it does not accept.  Of src/cmdline.c, the messages
  are those of the parser that main calls; a text that it prints in several
  pieces is one print.  Of its memory, the case of other parameters than those of
  pflask is left out; freed addresses are not used again, and malloc does not fail.
\<close>

end
